(* ===== verification/Ploydok_Prelude.thy ===== *)
theory Ploydok_Prelude
  imports Main "HOL-Library.Monad_Syntax"
begin

text \<open>
  The shared vocabulary of the development: the types that stand for the
  values the TypeScript sources pass around (identifiers, instants, tables),
  the SQL verbs the Drizzle queries use, the JavaScript string operations the
  sources call, and the generic lemmas about them that the component theories
  rest on.

  A string is a list of 8-bit characters. The strings whose contents matter to
  the modelled code are identifiers, slugs, image tags, scopes and statuses,
  all ASCII. An instant (\<^verbatim>\<open>Date\<close>) is its number of milliseconds since the
  epoch. A table is the list of its rows: \<^verbatim>\<open>SELECT\<close> without \<^verbatim>\<open>ORDER BY\<close>
  returns the rows in the order of the list, which stands for whatever order
  the database picks, so no property below reads recency out of that order.
\<close>

named_theorems sql_simps \<open>equations of the table operations\<close>
named_theorems js_simps \<open>equations of the JavaScript string operations\<close>

type_synonym ident = string
type_synonym instant = int
type_synonym 'r table = "'r list"

section \<open>Tables\<close>

definition select_where :: "('r \<Rightarrow> bool) \<Rightarrow> 'r table \<Rightarrow> 'r list" where
  "select_where P t = filter P t"

definition select_first :: "('r \<Rightarrow> bool) \<Rightarrow> 'r table \<Rightarrow> 'r option" where
  "select_first P t = find P t"

definition update_where :: "('r \<Rightarrow> bool) \<Rightarrow> ('r \<Rightarrow> 'r) \<Rightarrow> 'r table \<Rightarrow> 'r table" where
  "update_where P f t = map (\<lambda>r. if P r then f r else r) t"

definition delete_where :: "('r \<Rightarrow> bool) \<Rightarrow> 'r table \<Rightarrow> 'r table" where
  "delete_where P t = filter (\<lambda>r. \<not> P r) t"

definition order_desc :: "('r \<Rightarrow> instant) \<Rightarrow> 'r list \<Rightarrow> 'r list" where
  "order_desc k t = sort_key (\<lambda>r. - k r) t"

definition first_row :: "'r list \<Rightarrow> 'r option" where
  "first_row t = (case t of [] \<Rightarrow> None | r # _ \<Rightarrow> Some r)"

lemma select_where_iff [sql_simps, simp]: "r \<in> set (select_where P t) \<longleftrightarrow> r \<in> set t \<and> P r"
  by (auto simp: select_where_def)

lemma first_row_Some: "first_row t = Some r \<Longrightarrow> r \<in> set t"
  by (cases t) (auto simp: first_row_def)

lemma first_row_None [simp]: "first_row t = None \<longleftrightarrow> t = []"
  by (cases t) (auto simp: first_row_def)

lemma select_first_Some: "select_first P t = Some r \<Longrightarrow> r \<in> set t \<and> P r"
  by (auto simp: select_first_def find_Some_iff)

lemma select_first_None: "select_first P t = None \<longleftrightarrow> (\<forall>r\<in>set t. \<not> P r)"
  by (auto simp: select_first_def find_None_iff)

lemma select_first_update_where:
  assumes "\<And>x. P (f x) = P x"
  shows "select_first P (update_where P f t) = map_option f (select_first P t)"
  using assms by (induction t) (simp_all add: select_first_def update_where_def)

lemma length_update_where [sql_simps, simp]: "length (update_where P f t) = length t"
  by (simp add: update_where_def)

lemma set_update_where: "set (update_where P f t) = (\<lambda>r. if P r then f r else r) ` set t"
  by (simp add: update_where_def)

lemma update_whereE [consumes 1, case_names hit miss]:
  assumes "r \<in> set (update_where P f t)"
  obtains s where "s \<in> set t" "P s" "r = f s" | "r \<in> set t" "\<not> P r"
  using assms by (auto simp: set_update_where split: if_splits)

lemma update_where_hit: "r \<in> set t \<Longrightarrow> P r \<Longrightarrow> f r \<in> set (update_where P f t)"
  by (force simp: set_update_where)

lemma update_where_miss: "r \<in> set t \<Longrightarrow> \<not> P r \<Longrightarrow> r \<in> set (update_where P f t)"
  by (force simp: set_update_where)

lemma update_where_append [sql_simps]:
  "update_where P f (t @ u) = update_where P f t @ update_where P f u"
  by (simp add: update_where_def)

lemma update_where_none: "(\<forall>r\<in>set t. \<not> P r) \<Longrightarrow> update_where P f t = t"
  by (induction t) (auto simp: update_where_def)

text \<open>An update that keeps a projection of every row keeps the projected table.\<close>

lemma map_update_where:
  "(\<And>r. P r \<Longrightarrow> g (f r) = g r) \<Longrightarrow> map g (update_where P f t) = map g t"
  by (simp add: update_where_def)

lemma order_desc_set [simp]: "set (order_desc k t) = set t"
  by (simp add: order_desc_def)

lemma order_desc_first_max:
  assumes "first_row (order_desc k t) = Some r" and "s \<in> set t"
  shows "k s \<le> k r"
proof -
  have srt: "sorted (map (\<lambda>r. - k r) (order_desc k t))"
    by (simp add: order_desc_def)
  from assms(1) obtain rest where o: "order_desc k t = r # rest"
    by (auto simp: first_row_def split: list.splits)
  from assms(2) have "s = r \<or> s \<in> set rest"
    using order_desc_set[of k t] by (auto simp: o)
  then show ?thesis using srt by (auto simp: o)
qed

lemma order_desc_first_exists:
  assumes "s \<in> set t"
  obtains r where "first_row (order_desc k t) = Some r" "r \<in> set t" "k s \<le> k r"
proof (cases "first_row (order_desc k t)")
  case None
  then have "order_desc k t = []" by simp
  then have False using assms order_desc_set[of k t] by simp
  then show ?thesis ..
next
  case (Some r)
  moreover from Some have "r \<in> set t" using first_row_Some by fastforce
  ultimately show ?thesis using that order_desc_first_max[OF Some assms] by blast
qed

text \<open>
  Primary keys. A table is keyed by \<open>k\<close> when no two rows share a key; then a
  row is determined by its key and lookups by key are exact.
\<close>

definition keyed :: "('r \<Rightarrow> 'k) \<Rightarrow> 'r table \<Rightarrow> bool" where
  "keyed k t \<longleftrightarrow> distinct (map k t)"

lemma keyed_unique: "keyed k t \<Longrightarrow> r \<in> set t \<Longrightarrow> s \<in> set t \<Longrightarrow> k r = k s \<Longrightarrow> r = s"
  by (auto simp: keyed_def distinct_map inj_on_def)

lemma keyed_update_where [intro]:
  "keyed k t \<Longrightarrow> (\<And>r. P r \<Longrightarrow> k (f r) = k r) \<Longrightarrow> keyed k (update_where P f t)"
  by (simp add: keyed_def map_update_where)

lemma keyed_snoc: "keyed k (t @ [r]) \<longleftrightarrow> keyed k t \<and> k r \<notin> k ` set t"
  by (auto simp: keyed_def)

lemma keyed_delete_where [intro]: "keyed k t \<Longrightarrow> keyed k (delete_where P t)"
  by (induction t) (auto simp: keyed_def delete_where_def)

lemma find_keyed:
  assumes "keyed k t" and "r \<in> set t"
  shows "find (\<lambda>s. k s = k r) t = Some r"
proof (cases "find (\<lambda>s. k s = k r) t")
  case None
  with assms(2) show ?thesis by (auto simp: find_None_iff)
next
  case (Some s)
  then have "s \<in> set t" "k s = k r" by (auto simp: find_Some_iff)
  with assms Some show ?thesis by (auto dest: keyed_unique)
qed

lemma select_first_keyed:
  "keyed k t \<Longrightarrow> r \<in> set t \<Longrightarrow> select_first (\<lambda>s. k s = k r) t = Some r"
  by (simp add: select_first_def find_keyed)

section \<open>JavaScript strings\<close>

text \<open>\<^verbatim>\<open>s.split(c)\<close> for a one-character separator: never empty.\<close>

fun split_on :: "char \<Rightarrow> string \<Rightarrow> string list" where
  "split_on c [] = [[]]"
| "split_on c (x # xs) =
     (if x = c then [] # split_on c xs
      else (case split_on c xs of [] \<Rightarrow> [[x]] | p # ps \<Rightarrow> (x # p) # ps))"

definition starts_with :: "string \<Rightarrow> string \<Rightarrow> bool" where
  "starts_with p s \<longleftrightarrow> take (length p) s = p"

fun str_includes :: "string \<Rightarrow> string \<Rightarrow> bool" where
  "str_includes p [] \<longleftrightarrow> p = []"
| "str_includes p (x # xs) \<longleftrightarrow> starts_with p (x # xs) \<or> str_includes p xs"

text \<open>\<^verbatim>\<open>null\<close>, \<^verbatim>\<open>undefined\<close> and the empty string are the falsy strings.\<close>

fun truthy :: "string option \<Rightarrow> bool" where
  "truthy None = False"
| "truthy (Some s) = (s \<noteq> [])"

definition is_digit :: "char \<Rightarrow> bool" where
  "is_digit c \<longleftrightarrow> 48 \<le> (of_char c :: nat) \<and> (of_char c :: nat) \<le> 57"

definition is_upper :: "char \<Rightarrow> bool" where
  "is_upper c \<longleftrightarrow> 65 \<le> (of_char c :: nat) \<and> (of_char c :: nat) \<le> 90"

definition is_lower :: "char \<Rightarrow> bool" where
  "is_lower c \<longleftrightarrow> 97 \<le> (of_char c :: nat) \<and> (of_char c :: nat) \<le> 122"

text \<open>\<^verbatim>\<open>\s\<close> of a regular expression.\<close>

definition is_space :: "char \<Rightarrow> bool" where
  "is_space c \<longleftrightarrow> (of_char c :: nat) \<in> {9, 10, 11, 12, 13, 32, 160}"

definition trim :: "string \<Rightarrow> string" where
  "trim s = rev (dropWhile is_space (rev (dropWhile is_space s)))"

definition to_lower_char :: "char \<Rightarrow> char" where
  "to_lower_char c = (if is_upper c then char_of ((of_char c :: nat) + 32) else c)"

definition to_lower :: "string \<Rightarrow> string" where
  "to_lower s = map to_lower_char s"

lemma split_on_nonempty [simp]: "split_on c s \<noteq> []"
  by (induction s) (auto split: list.splits)

lemma split_on_no_sep: "c \<notin> set s \<Longrightarrow> split_on c s = [s]"
  by (induction s) auto

lemma split_on_pieces: "p \<in> set (split_on c s) \<Longrightarrow> c \<notin> set p"
  by (induction s arbitrary: p) (auto split: list.splits if_splits)

lemma split_on_append_sep:
  "c \<notin> set p \<Longrightarrow> split_on c (p @ c # s) = p # split_on c s"
  by (induction p) auto

lemma starts_with_iff: "starts_with p s \<longleftrightarrow> (\<exists>t. s = p @ t)"
  by (auto simp: starts_with_def) (metis append_take_drop_id)

lemma str_includes_iff: "str_includes p s \<longleftrightarrow> (\<exists>u v. s = u @ p @ v)"
proof (induction s)
  case Nil
  then show ?case by auto
next
  case (Cons x xs)
  show ?case
  proof
    assume "str_includes p (x # xs)"
    then show "\<exists>u v. x # xs = u @ p @ v"
      using Cons.IH by (auto simp: starts_with_iff) (metis append_Cons append_Nil)+
  next
    assume "\<exists>u v. x # xs = u @ p @ v"
    then obtain u v where e: "x # xs = u @ p @ v" by blast
    show "str_includes p (x # xs)"
    proof (cases u)
      case Nil
      with e have "starts_with p (x # xs)" by (auto simp: starts_with_iff)
      then show ?thesis by simp
    next
      case (Cons y ys)
      with e have "xs = ys @ p @ v" by simp
      with Cons.IH show ?thesis by auto
    qed
  qed
qed

lemma str_includes_prefix: "str_includes p u \<Longrightarrow> str_includes p (u @ v)"
  unfolding str_includes_iff by (metis append.assoc)

lemma str_includes_suffix: "str_includes p (u @ p)"
  unfolding str_includes_iff by (metis append_Nil2)

lemma str_includes_append [intro]: "str_includes p v \<Longrightarrow> str_includes p (u @ v)"
  by (auto simp: str_includes_iff) (metis append.assoc)

definition strip_prefix :: "string \<Rightarrow> string \<Rightarrow> string" where
  "strip_prefix p s = (if starts_with p s then drop (length p) s else s)"

text \<open>\<^verbatim>\<open>String(n)\<close> for a natural number, and the reading that inverts it.\<close>

definition digit_char :: "nat \<Rightarrow> char" where
  "digit_char d = char_of (48 + d)"

fun nat_str :: "nat \<Rightarrow> string" where
  "nat_str n = (if n < 10 then [digit_char n] else nat_str (n div 10) @ [digit_char (n mod 10)])"

definition str_nat :: "string \<Rightarrow> nat" where
  "str_nat s = foldl (\<lambda>acc c. acc * 10 + (of_char c - 48)) 0 s"

declare nat_str.simps [simp del]

lemma str_nat_snoc [simp]: "str_nat (s @ [c]) = str_nat s * 10 + (of_char c - 48)"
  by (simp add: str_nat_def)

lemma digit_char_value [simp]: "d < 10 \<Longrightarrow> (of_char (digit_char d) :: nat) = 48 + d"
  by (simp add: digit_char_def of_char_of take_bit_nat_eq_self)

lemma str_nat_nat_str [simp]: "str_nat (nat_str n) = n"
proof (induction n rule: nat_str.induct)
  case (1 n)
  then show ?case
    by (cases "n < 10") (simp_all add: nat_str.simps [of n] str_nat_def)
qed

lemma nat_str_inj [simp]: "nat_str m = nat_str n \<longleftrightarrow> m = n"
  by (metis str_nat_nat_str)

lemma starts_with_append [simp]: "starts_with p (p @ s)"
  by (simp add: starts_with_def)

lemma strip_prefix_append [simp]: "strip_prefix p (p @ s) = s"
  by (simp add: strip_prefix_def)

section \<open>Tasks\<close>

text \<open>
  An asynchronous function that passes a state along and may throw: it returns an
  error or a result, with the state at that point. A state change before a throw stays.
\<close>

type_synonym ('s, 'e, 'a) task = "'s \<Rightarrow> ('e + 'a) \<times> 's"

definition t_return :: "'a \<Rightarrow> ('s, 'e, 'a) task" where
  "t_return x st = (Inr x, st)"

definition t_throw :: "'e \<Rightarrow> ('s, 'e, 'a) task" where
  "t_throw e st = (Inl e, st)"

definition t_bind :: "('s, 'e, 'a) task \<Rightarrow> ('a \<Rightarrow> ('s, 'e, 'b) task) \<Rightarrow> ('s, 'e, 'b) task" where
  "t_bind m f st = (case m st of (Inl e, st') \<Rightarrow> (Inl e, st') | (Inr x, st') \<Rightarrow> f x st')"

definition t_catch :: "('s, 'e, 'a) task \<Rightarrow> ('e \<Rightarrow> ('s, 'f, 'a) task) \<Rightarrow> ('s, 'f, 'a) task" where
  "t_catch m h st = (case m st of (Inl e, st') \<Rightarrow> h e st' | (Inr x, st') \<Rightarrow> (Inr x, st'))"

definition t_get :: "('s \<Rightarrow> 'a) \<Rightarrow> ('s, 'e, 'a) task" where
  "t_get f st = (Inr (f st), st)"

definition t_update :: "('s \<Rightarrow> 's) \<Rightarrow> ('s, 'e, unit) task" where
  "t_update f st = (Inr (), f st)"

lemma t_bind_assoc: "t_bind (t_bind m f) g = t_bind m (\<lambda>x. t_bind (f x) g)"
  by (auto simp: fun_eq_iff t_bind_def split: prod.splits sum.splits)

lemma t_bind_Inr: "t_bind m f st = (Inr y, st') \<longleftrightarrow> (\<exists>x st1. m st = (Inr x, st1) \<and> f x st1 = (Inr y, st'))"
  by (auto simp: t_bind_def split: prod.splits sum.splits)

lemma t_bind_Inl:
  "t_bind m f st = (Inl e, st') \<longleftrightarrow> m st = (Inl e, st') \<or> (\<exists>x st1. m st = (Inr x, st1) \<and> f x st1 = (Inl e, st'))"
  by (auto simp: t_bind_def split: prod.splits sum.splits)

section \<open>Invariants of step machines\<close>

text \<open>
  The contract every stateful component below states: an initial predicate, a
  step relation and an invariant that the steps keep. What a client may use is
  that the invariant holds in every reachable state.
\<close>

inductive reachable :: "('s \<Rightarrow> bool) \<Rightarrow> ('s \<Rightarrow> 's \<Rightarrow> bool) \<Rightarrow> 's \<Rightarrow> bool" for init step where
  start: "init s \<Longrightarrow> reachable init step s"
| next_state: "reachable init step s \<Longrightarrow> step s t \<Longrightarrow> reachable init step t"

locale step_machine =
  fixes init :: "'s \<Rightarrow> bool" and step :: "'s \<Rightarrow> 's \<Rightarrow> bool" and inv :: "'s \<Rightarrow> bool"
  assumes inv_init: "init s \<Longrightarrow> inv s"
    and inv_step: "inv s \<Longrightarrow> step s t \<Longrightarrow> inv t"
begin

lemma inv_reachable: "reachable init step s \<Longrightarrow> inv s"
  by (induction rule: reachable.induct) (auto intro: inv_init inv_step)

lemma inv_steps: "inv s \<Longrightarrow> step\<^sup>*\<^sup>* s t \<Longrightarrow> inv t"
  by (rotate_tac, induction rule: rtranclp_induct) (auto intro: inv_step)

end

end
