(* ===== verification/App_Rows.thy ===== *)
theory App_Rows
  imports Complex_Main Ploydok_Prelude
begin

text \<open>
  The \<^verbatim>\<open>apps\<close> table of \<^verbatim>\<open>packages/db/src/schema/apps.ts\<close>: the columns the
  modelled operations read or write, in the order of the schema. Column types
  follow the schema: a nullable column is an option, an enum column its own
  datatype. The record is shared by the webhook pipeline, the reaper, the
  reconcilers, the registry collector and the runner.
\<close>

datatype app_status =
  A_created | A_pending | A_building | A_running | A_serving | A_restarting
| A_stopped | A_failed | A_deleting

datatype git_provider = Gp_github | Gp_gitlab | Gp_image

datatype app_build_method =
  Am_auto | Am_docker | Am_dockerfile | Am_compose | Am_nixpacks | Am_railpack | Am_static

datatype runtime_mode = Rt_docker | Rt_swarm

datatype restart_policy = Rp_no | Rp_always | Rp_unless_stopped | Rp_on_failure

datatype update_order = Uo_start_first | Uo_stop_first

datatype failure_action = Fa_rollback | Fa_pause | Fa_continue

datatype plan_name = Pl_nano | Pl_small | Pl_medium | Pl_large | Pl_custom

record app_row =
  a_id :: ident
  a_project_id :: ident
  a_slug :: string
  a_status :: app_status
  a_git_provider :: "git_provider option"
  a_repo_full_name :: "string option"
  a_branch :: "string option"
  a_image_ref :: "string option"
  a_track_latest :: bool
  a_last_image_digest :: "string option"
  a_pending_image_digest :: "string option"
  a_watch_paths :: "string option"
  a_build_method :: "app_build_method option"
  a_runtime_mode :: runtime_mode
  a_container_id :: "string option"
  a_swarm_service_name :: "string option"
  a_replicas :: int
  a_update_order :: update_order
  a_update_parallelism :: int
  a_update_delay_s :: int
  a_update_monitor_s :: int
  a_failure_action :: failure_action
  a_stop_grace_period_s :: int
  a_runtime_port :: "int option"
  a_restart_policy :: restart_policy
  a_domain :: "string option"
  a_keep_per_repo :: "nat option"
  a_healthcheck_path :: "string option"
  a_healthcheck_port :: "int option"
  a_healthcheck_interval_s :: "int option"
  a_healthcheck_timeout_s :: "int option"
  a_healthcheck_retries :: "int option"
  a_healthcheck_start_period_s :: "int option"
  a_plan :: plan_name
  a_cpu_limit :: "rat option"
  a_mem_limit_bytes :: "int option"
  a_pids_limit :: "int option"
  a_auto_deploy_enabled :: bool
  a_coalesce_pushes :: bool
  a_deploy_on_tag :: bool
  a_tag_pattern :: "string option"
  a_updated_at :: instant

text \<open>
  The row an \<^verbatim>\<open>INSERT\<close> of the required columns leaves: the defaults of the
  schema everywhere else.
\<close>

definition default_app :: "ident \<Rightarrow> ident \<Rightarrow> string \<Rightarrow> instant \<Rightarrow> app_row" where
  "default_app i project slug now =
     \<lparr>a_id = i, a_project_id = project, a_slug = slug, a_status = A_created,
      a_git_provider = None, a_repo_full_name = None, a_branch = None, a_image_ref = None,
      a_track_latest = False, a_last_image_digest = None, a_pending_image_digest = None,
      a_watch_paths = None, a_build_method = None, a_runtime_mode = Rt_swarm,
      a_container_id = None, a_swarm_service_name = None, a_replicas = 1, a_update_order = Uo_start_first,
      a_update_parallelism = 1, a_update_delay_s = 10, a_update_monitor_s = 30,
      a_failure_action = Fa_rollback, a_stop_grace_period_s = 10, a_runtime_port = None, a_restart_policy = Rp_unless_stopped,
      a_domain = None, a_keep_per_repo = None, a_healthcheck_path = None,
      a_healthcheck_port = None, a_healthcheck_interval_s = None,
      a_healthcheck_timeout_s = None, a_healthcheck_retries = None,
      a_healthcheck_start_period_s = None, a_plan = Pl_custom, a_cpu_limit = None,
      a_mem_limit_bytes = None, a_pids_limit = None, a_auto_deploy_enabled = True,
      a_coalesce_pushes = True, a_deploy_on_tag = False, a_tag_pattern = None,
      a_updated_at = now\<rparr>"

abbreviation app_by_id :: "app_row table \<Rightarrow> ident \<Rightarrow> app_row option" where
  "app_by_id t i \<equiv> select_first (\<lambda>a. a_id a = i) t"

abbreviation set_app :: "ident \<Rightarrow> (app_row \<Rightarrow> app_row) \<Rightarrow> app_row table \<Rightarrow> app_row table" where
  "set_app i f t \<equiv> update_where (\<lambda>a. a_id a = i) f t"

end
