(* ===== verification/Build_Queue.thy ===== *)
theory Build_Queue
  imports App_Rows
begin

text \<open>
  The build queue: the \<^verbatim>\<open>builds\<close> and \<^verbatim>\<open>system_jobs\<close> tables of
  \<^verbatim>\<open>packages/db/src/schema\<close>, the queries of
  \<^verbatim>\<open>packages/db/src/queries/builds.ts\<close>, the compare-and-set claim of
  \<^verbatim>\<open>worker/queue-claim.ts\<close> and the reaper of
  \<^verbatim>\<open>worker/jobs/reap-stuck-builds.ts\<close>. Every write to a build row is one
  of these operations; the section on the life cycle states what a sequence of
  them can and cannot do to a build.
\<close>

section \<open>Rows\<close>

datatype build_status =
  B_pending | B_running | B_succeeded | B_succeeded_with_warning | B_failed | B_cancelled

datatype build_method =
  M_docker | M_dockerfile | M_compose | M_nixpacks | M_railpack | M_static

datatype build_source =
  Src_api | Src_webhook_github | Src_webhook_gitlab | Src_cron_gc | Src_cron_cleanup
| Src_auto_push | Src_auto_tag | Src_system

record build_row =
  b_id :: ident
  b_app_id :: ident
  b_status :: build_status
  b_build_method :: "build_method option"
  b_image_tag :: "string option"
  b_container_id :: "string option"
  b_runtime_ref :: "string option"
  b_commit_sha :: "string option"
  b_commit_message :: "string option"
  b_log_path :: "string option"
  b_log_archive :: "string option"
  b_log_archive_raw_size :: "int option"
  b_log_archive_compressed_size :: "int option"
  b_log_archived_at :: "instant option"
  b_log_purged_at :: "instant option"
  b_error_message :: "string option"
  b_post_deploy_error :: "string option"
  b_started_at :: "instant option"
  b_finished_at :: "instant option"
  b_created_at :: instant
  b_requested_by_user_id :: "ident option"
  b_source :: build_source
  b_queued_at :: instant
  b_claimed_at :: "instant option"

datatype job_kind = K_gc_registry | K_gc_images | K_gc_buildcache

datatype job_status = J_pending | J_running | J_succeeded | J_failed | J_cancelled

datatype job_source = Job_api | Job_auto_deploy | Job_cron_gc | Job_system

record system_job_row =
  j_id :: ident
  j_kind :: job_kind
  j_status :: job_status
  j_requested_by_user_id :: "ident option"
  j_source :: job_source
  j_queued_at :: instant
  j_claimed_at :: "instant option"
  j_finished_at :: "instant option"
  j_error_message :: "string option"

text \<open>The column defaults an \<^verbatim>\<open>INSERT\<close> that names only some columns leaves.\<close>

definition fresh_build :: "ident \<Rightarrow> ident \<Rightarrow> instant \<Rightarrow> build_row" where
  "fresh_build i app now =
     \<lparr>b_id = i, b_app_id = app, b_status = B_pending, b_build_method = None,
      b_image_tag = None, b_container_id = None, b_runtime_ref = None,
      b_commit_sha = None, b_commit_message = None, b_log_path = None,
      b_log_archive = None, b_log_archive_raw_size = None,
      b_log_archive_compressed_size = None, b_log_archived_at = None,
      b_log_purged_at = None, b_error_message = None, b_post_deploy_error = None,
      b_started_at = None, b_finished_at = None, b_created_at = now,
      b_requested_by_user_id = None, b_source = Src_api, b_queued_at = now,
      b_claimed_at = None\<rparr>"

section \<open>Queries on builds\<close>

record build_patch =
  p_image_tag :: "string option"
  p_container_id :: "string option"
  p_runtime_ref :: "string option"
  p_started_at :: "instant option"
  p_finished_at :: "instant option"
  p_error_message :: "string option"
  p_post_deploy_error :: "string option"
  p_log_path :: "string option"
  p_commit_sha :: "string option"
  p_commit_message :: "string option"
  p_build_method :: "build_method option"

definition no_patch :: build_patch where
  "no_patch = \<lparr>p_image_tag = None, p_container_id = None, p_runtime_ref = None,
     p_started_at = None, p_finished_at = None, p_error_message = None,
     p_post_deploy_error = None, p_log_path = None, p_commit_sha = None,
     p_commit_message = None, p_build_method = None\<rparr>"

definition or_old :: "'a option \<Rightarrow> 'a option \<Rightarrow> 'a option" where
  "or_old new old = (case new of None \<Rightarrow> old | Some v \<Rightarrow> Some v)"

definition getBuildById :: "build_row table \<Rightarrow> ident \<Rightarrow> build_row option" where
  "getBuildById t i = select_first (\<lambda>r. b_id r = i) t"

definition insertBuild ::
  "build_row table \<Rightarrow> instant \<Rightarrow> ident \<Rightarrow> ident \<Rightarrow> build_method option \<Rightarrow> string option \<Rightarrow>
   string option \<Rightarrow> build_row table \<times> build_row option" where
  "insertBuild t now i app method sha msg =
     (let t' = t @ [(fresh_build i app now)\<lparr>b_build_method := method, b_commit_sha := sha,
                      b_commit_message := msg\<rparr>]
      in (t', getBuildById t' i))"

definition apply_patch :: "build_status \<Rightarrow> build_patch \<Rightarrow> build_row \<Rightarrow> build_row" where
  "apply_patch st p r =
     r\<lparr>b_status := st,
       b_image_tag := or_old (p_image_tag p) (b_image_tag r),
       b_container_id := or_old (p_container_id p) (b_container_id r),
       b_runtime_ref := or_old (p_runtime_ref p) (b_runtime_ref r),
       b_started_at := or_old (p_started_at p) (b_started_at r),
       b_finished_at := or_old (p_finished_at p) (b_finished_at r),
       b_error_message := or_old (p_error_message p) (b_error_message r),
       b_post_deploy_error := or_old (p_post_deploy_error p) (b_post_deploy_error r),
       b_log_path := or_old (p_log_path p) (b_log_path r),
       b_commit_sha := or_old (p_commit_sha p) (b_commit_sha r),
       b_commit_message := or_old (p_commit_message p) (b_commit_message r),
       b_build_method := or_old (p_build_method p) (b_build_method r)\<rparr>"

definition updateBuildStatus ::
  "build_row table \<Rightarrow> ident \<Rightarrow> build_status \<Rightarrow> build_patch \<Rightarrow> build_row table \<times> build_row option" where
  "updateBuildStatus t i st p =
     (let t' = update_where (\<lambda>r. b_id r = i \<and> b_status r \<in> {B_pending, B_running})
                 (apply_patch st p) t
      in (t', getBuildById t' i))"

definition listBuildsByApp :: "build_row table \<Rightarrow> ident \<Rightarrow> nat \<Rightarrow> build_row list" where
  "listBuildsByApp t app limit =
     take limit (order_desc b_created_at (select_where (\<lambda>r. b_app_id r = app) t))"

definition is_succeeded :: "build_status \<Rightarrow> bool" where
  "is_succeeded st \<longleftrightarrow> st = B_succeeded \<or> st = B_succeeded_with_warning"

definition getLastSucceededBuild ::
  "build_row table \<Rightarrow> ident \<Rightarrow> ident option \<Rightarrow> build_row option" where
  "getLastSucceededBuild t app before =
     (case before of
        Some bid \<Rightarrow>
          if bid = [] then
            first_row (order_desc b_created_at
              (select_where (\<lambda>r. b_app_id r = app \<and> is_succeeded (b_status r)) t))
          else
          (case getBuildById t bid of
             None \<Rightarrow> None
           | Some ref \<Rightarrow>
               (case first_row (order_desc b_created_at
                       (select_where (\<lambda>r. b_app_id r = app \<and> is_succeeded (b_status r)
                          \<and> b_id r \<noteq> bid \<and> b_created_at r < b_created_at ref) t)) of
                  Some r \<Rightarrow> Some r
                | None \<Rightarrow>
                    first_row (order_desc b_created_at
                      (select_where (\<lambda>r. b_app_id r = app \<and> is_succeeded (b_status r)
                          \<and> b_id r \<noteq> bid) t))))
      | None \<Rightarrow>
          first_row (order_desc b_created_at
            (select_where (\<lambda>r. b_app_id r = app \<and> is_succeeded (b_status r)) t)))"

definition setBuildLogArchive ::
  "build_row table \<Rightarrow> instant \<Rightarrow> ident \<Rightarrow> string \<Rightarrow> int \<Rightarrow> int \<Rightarrow> build_row table" where
  "setBuildLogArchive t now i archive rawSize compressedSize =
     update_where (\<lambda>r. b_id r = i)
       (\<lambda>r. r\<lparr>b_log_archive := Some archive, b_log_archive_raw_size := Some rawSize,
              b_log_archive_compressed_size := Some compressedSize,
              b_log_archived_at := Some now\<rparr>) t"

definition purge_eligible :: "instant \<Rightarrow> build_row \<Rightarrow> bool" where
  "purge_eligible cutoff r \<longleftrightarrow>
     (case b_finished_at r of None \<Rightarrow> False | Some f \<Rightarrow> f < cutoff)
     \<and> b_log_purged_at r = None
     \<and> (b_log_archive r \<noteq> None \<or> b_log_path r \<noteq> None)"

definition findBuildsToPurge ::
  "build_row table \<Rightarrow> instant \<Rightarrow> nat \<Rightarrow> (ident \<times> ident \<times> string option) list" where
  "findBuildsToPurge t cutoff limit =
     map (\<lambda>r. (b_id r, b_app_id r, b_log_path r)) (take limit (select_where (purge_eligible cutoff) t))"

definition markBuildLogPurged :: "build_row table \<Rightarrow> instant \<Rightarrow> ident \<Rightarrow> build_row table" where
  "markBuildLogPurged t now i =
     update_where (\<lambda>r. b_id r = i) (\<lambda>r. r\<lparr>b_log_archive := None, b_log_purged_at := Some now\<rparr>) t"

definition archive_eligible :: "build_row \<Rightarrow> bool" where
  "archive_eligible r \<longleftrightarrow> b_finished_at r \<noteq> None \<and> b_log_archive r = None
     \<and> b_log_purged_at r = None \<and> b_log_path r \<noteq> None"

definition findBuildsToArchive :: "build_row table \<Rightarrow> nat \<Rightarrow> (ident \<times> ident \<times> string option) list" where
  "findBuildsToArchive t limit =
     map (\<lambda>r. (b_id r, b_app_id r, b_log_path r))
       (take limit (order_desc (\<lambda>r. the (b_finished_at r)) (select_where archive_eligible t)))"

section \<open>Claiming a queued row\<close>

text \<open>
  \<^verbatim>\<open>claimQueuedRow\<close> is generic in the table: it takes the columns it reads and
  the write it performs. \<^verbatim>\<open>UPDATE ... WHERE id = ? AND status IN (...) RETURNING\<close>
  is one atomic statement.
\<close>

definition claimQueuedRow ::
  "('r \<Rightarrow> ident) \<Rightarrow> ('r \<Rightarrow> 's) \<Rightarrow> ('r \<Rightarrow> 'r) \<Rightarrow> 'r table \<Rightarrow> ident \<Rightarrow> 's list \<Rightarrow> 'r table \<times> 'r option" where
  "claimQueuedRow rid rstatus mark t i statuses =
     (let hit = (\<lambda>r. rid r = i \<and> rstatus r \<in> set statuses)
      in (update_where hit mark t, map_option mark (first_row (filter hit t))))"

definition mark_build_claimed :: "instant \<Rightarrow> bool \<Rightarrow> build_row \<Rightarrow> build_row" where
  "mark_build_claimed now setClaimedAt r =
     (let r' = r\<lparr>b_status := B_running\<rparr>
      in if setClaimedAt then r'\<lparr>b_claimed_at := Some now\<rparr> else r')"

definition mark_job_claimed :: "instant \<Rightarrow> bool \<Rightarrow> system_job_row \<Rightarrow> system_job_row" where
  "mark_job_claimed now setClaimedAt r =
     (let r' = r\<lparr>j_status := J_running\<rparr>
      in if setClaimedAt then r'\<lparr>j_claimed_at := Some now\<rparr> else r')"

text \<open>Workers that claim the same row one after the other, at the given clocks.\<close>

fun claim_run ::
  "('r \<Rightarrow> ident) \<Rightarrow> ('r \<Rightarrow> 's) \<Rightarrow> (instant \<Rightarrow> 'r \<Rightarrow> 'r) \<Rightarrow> 'r table \<Rightarrow> instant list \<Rightarrow> ident \<Rightarrow>
   's list \<Rightarrow> 'r option list" where
  "claim_run rid rstatus mark t [] i sts = []"
| "claim_run rid rstatus mark t (now # ns) i sts =
     (let (t', res) = claimQueuedRow rid rstatus (mark now) t i sts
      in res # claim_run rid rstatus mark t' ns i sts)"

abbreviation claim_build ::
  "build_row table \<Rightarrow> instant \<Rightarrow> ident \<Rightarrow> build_status list \<Rightarrow> build_row table \<times> build_row option" where
  "claim_build t now i statuses \<equiv>
     claimQueuedRow b_id b_status (mark_build_claimed now True) t i statuses"

abbreviation claim_job ::
  "system_job_row table \<Rightarrow> instant \<Rightarrow> ident \<Rightarrow> job_status list \<Rightarrow>
   system_job_row table \<times> system_job_row option" where
  "claim_job t now i statuses \<equiv>
     claimQueuedRow j_id j_status (mark_job_claimed now True) t i statuses"

text \<open>The write with which the deploy handler hydrates the row it has claimed.\<close>

definition hydrateBuild ::
  "build_row table \<Rightarrow> ident \<Rightarrow> build_method \<Rightarrow> string option \<Rightarrow> string option \<Rightarrow> build_row table" where
  "hydrateBuild t i method sha msg =
     update_where (\<lambda>r. b_id r = i)
       (\<lambda>r. r\<lparr>b_build_method := Some method, b_commit_sha := or_old sha (b_commit_sha r),
              b_commit_message := or_old msg (b_commit_message r)\<rparr>) t"

section \<open>The reaper\<close>

record build_db =
  q_builds :: "build_row table"
  q_apps :: "app_row table"

definition STUCK_THRESHOLD_MS :: int where
  "STUCK_THRESHOLD_MS = 30 * 60 * 1000"

definition is_active :: "build_status \<Rightarrow> bool" where
  "is_active st \<longleftrightarrow> st = B_pending \<or> st = B_running"

definition repairAppStatusAfterReap :: "instant \<Rightarrow> build_db \<Rightarrow> ident \<Rightarrow> build_db" where
  "repairAppStatusAfterReap now db app =
     (if select_where (\<lambda>b. b_app_id b = app \<and> is_active (b_status b)) (q_builds db) \<noteq> [] then db
      else case app_by_id (q_apps db) app of
             None \<Rightarrow> db
           | Some a \<Rightarrow>
               if a_status a \<noteq> A_building then db
               else db\<lparr>q_apps := set_app app
                      (\<lambda>x. x\<lparr>a_status := (if truthy (a_container_id a) then A_running else A_failed),
                             a_updated_at := now\<rparr>) (q_apps db)\<rparr>)"

definition reap_one :: "instant \<Rightarrow> string \<Rightarrow> build_row \<Rightarrow> build_db \<Rightarrow> build_db" where
  "reap_one now msg row db =
     repairAppStatusAfterReap now
       (db\<lparr>q_builds := fst (updateBuildStatus (q_builds db) (b_id row) B_cancelled
              (no_patch\<lparr>p_finished_at := Some now, p_error_message := Some msg\<rparr>))\<rparr>)
       (b_app_id row)"

definition stuck_running :: "instant \<Rightarrow> build_row \<Rightarrow> bool" where
  "stuck_running threshold b \<longleftrightarrow>
     (case b_started_at b of None \<Rightarrow> False | Some s \<Rightarrow> s < threshold) \<and> b_status b = B_running"

definition stuck_pending :: "instant \<Rightarrow> build_row \<Rightarrow> bool" where
  "stuck_pending threshold b \<longleftrightarrow> b_created_at b < threshold \<and> b_status b = B_pending"

definition reap_running_msg :: string where
  "reap_running_msg = ''Build reaped: stuck in `running` for > 30 min (worker likely crashed or was restarted mid-deploy).''"

definition reap_pending_msg :: string where
  "reap_pending_msg = ''Build reaped: stuck in `pending` for > 30 min.''"

text \<open>
  One tick reads the clock once. The pending candidates are selected after the
  running ones have been cancelled, as in the source.
\<close>

definition reapStuckBuilds :: "instant \<Rightarrow> build_db \<Rightarrow> build_db \<times> ident list" where
  "reapStuckBuilds now db =
     (let threshold = now - STUCK_THRESHOLD_MS;
          candidates = select_where (stuck_running threshold) (q_builds db);
          db1 = fold (reap_one now reap_running_msg) candidates db;
          pending = select_where (stuck_pending threshold) (q_builds db1);
          db2 = fold (reap_one now reap_pending_msg) pending db1
      in (db2, map b_id candidates @ map b_id pending))"

section \<open>Claiming: the contract of a queue table\<close>

text \<open>
  What \<^const>\<open>claimQueuedRow\<close> needs of the table it is used on: the claim write
  keeps the key of the row and sets its status to the running one. The lemmas
  about claims are proved once from these two laws; the tables of the queue are
  interpretations.
\<close>

locale claim_table =
  fixes rid :: "'r \<Rightarrow> ident" and rstatus :: "'r \<Rightarrow> 's" and mark :: "instant \<Rightarrow> 'r \<Rightarrow> 'r"
    and running :: 's
  assumes rid_mark: "rid (mark now r) = rid r"
    and rstatus_mark: "rstatus (mark now r) = running"
begin

abbreviation claim :: "'r table \<Rightarrow> instant \<Rightarrow> ident \<Rightarrow> 's list \<Rightarrow> 'r table \<times> 'r option" where
  "claim t now i sts \<equiv> claimQueuedRow rid rstatus (mark now) t i sts"

abbreviation claims :: "'r table \<Rightarrow> instant list \<Rightarrow> ident \<Rightarrow> 's list \<Rightarrow> 'r option list" where
  "claims \<equiv> claim_run rid rstatus mark"

lemma claims_Cons:
  "claims t (now # ns) i sts = snd (claim t now i sts) # claims (fst (claim t now i sts)) ns i sts"
  by (simp add: case_prod_beta Let_def)

lemma claim_None_iff: "snd (claim t now i sts) = None \<longleftrightarrow> (\<forall>r\<in>set t. rid r = i \<longrightarrow> rstatus r \<notin> set sts)"
  by (auto simp: claimQueuedRow_def Let_def filter_empty_conv)

lemma claim_keys: "map rid (fst (claim t now i sts)) = map rid t"
  by (simp add: claimQueuedRow_def Let_def map_update_where rid_mark)

lemma claim_keyed: "keyed rid t \<Longrightarrow> keyed rid (fst (claim t now i sts))"
  by (simp add: keyed_def claim_keys)

lemma claim_frame: "r \<in> set t \<Longrightarrow> rid r \<noteq> i \<or> rstatus r \<notin> set sts \<Longrightarrow> r \<in> set (fst (claim t now i sts))"
  by (force simp: claimQueuedRow_def Let_def set_update_where)

lemma claim_Some:
  assumes "snd (claim t now i sts) = Some r'"
  obtains r where "r \<in> set t" "rid r = i" "rstatus r \<in> set sts" "r' = mark now r"
  using assms by (auto simp: claimQueuedRow_def Let_def dest!: first_row_Some)

lemma claimed_status: "snd (claim t now i sts) = Some r' \<Longrightarrow> rid r' = i \<and> rstatus r' = running"
  by (erule claim_Some) (simp add: rid_mark rstatus_mark)

text \<open>A claim excludes the next one, whenever the clock of the second claimant.\<close>

lemma claim_then_none:
  assumes "running \<notin> set sts"
  shows "snd (claim (fst (claim t now i sts)) now' i sts) = None"
proof -
  have "rstatus r \<notin> set sts" if "r \<in> set (fst (claim t now i sts))" "rid r = i" for r
  proof -
    from that(1) have "r \<in> set (update_where (\<lambda>r. rid r = i \<and> rstatus r \<in> set sts) (mark now) t)"
      by (simp add: claimQueuedRow_def Let_def)
    then show ?thesis
      using that(2) assms by (cases rule: update_whereE) (auto simp: rstatus_mark)
  qed
  then show ?thesis by (simp add: claim_None_iff)
qed

lemma claims_none:
  "snd (claim t now i sts) = None \<Longrightarrow> claims t ns i sts = replicate (length ns) None"
proof (induction ns arbitrary: t now)
  case Nil
  then show ?case by simp
next
  case (Cons n ns)
  from Cons.prems have none: "\<forall>r\<in>set t. rid r = i \<longrightarrow> rstatus r \<notin> set sts"
    by (simp add: claim_None_iff)
  then have "fst (claim t n i sts) = t"
    by (auto simp: claimQueuedRow_def Let_def intro: update_where_none)
  moreover from none have "snd (claim t n i sts) = None" by (simp add: claim_None_iff)
  ultimately show ?case using Cons.IH by (simp add: claims_Cons del: claim_run.simps(2))
qed

lemma claims_at_most_one:
  assumes "running \<notin> set sts"
  shows "length (filter (\<lambda>x. x \<noteq> None) (claims t ns i sts)) \<le> 1"
proof (cases ns)
  case Nil
  then show ?thesis by simp
next
  case (Cons n ms)
  have "claims (fst (claim t n i sts)) ms i sts = replicate (length ms) None"
    by (rule claims_none [OF claim_then_none [OF assms]])
  with Cons show ?thesis by (simp add: claims_Cons del: claim_run.simps(2))
qed

end

interpretation build_claims: claim_table b_id b_status "\<lambda>now. mark_build_claimed now True" B_running
  by unfold_locales (auto simp: mark_build_claimed_def Let_def)

interpretation job_claims: claim_table j_id j_status "\<lambda>now. mark_job_claimed now True" J_running
  by unfold_locales (auto simp: mark_job_claimed_def Let_def)

section \<open>The life cycle of a build\<close>

text \<open>
  Every write the queue makes to the \<^verbatim>\<open>builds\<close> table: a webhook, the API or the
  image watcher inserts a pending row, a worker claims it (a retry may also
  claim a failed one), the worker, the cancel route and the reaper update the
  status, the worker hydrates it, the archiver and the purger write the log
  columns. Which process makes the next write is not determined.
\<close>

inductive build_step :: "build_row table \<Rightarrow> build_row table \<Rightarrow> bool" where
  enqueue: "b_id r \<notin> b_id ` set t \<Longrightarrow> b_status r = B_pending \<Longrightarrow> build_step t (t @ [r])"
| claim_first: "build_step t (fst (claim_build t now i [B_pending]))"
| claim_retry: "build_step t (fst (claim_build t now i [B_pending, B_failed]))"
| set_status: "build_step t (fst (updateBuildStatus t i st p))"
| hydrate: "build_step t (hydrateBuild t i m sha msg)"
| archive_log: "build_step t (setBuildLogArchive t now i arch rawsz csz)"
| purge_log: "build_step t (markBuildLogPurged t now i)"

definition is_final :: "build_status \<Rightarrow> bool" where
  "is_final st \<longleftrightarrow> st = B_succeeded \<or> st = B_succeeded_with_warning \<or> st = B_cancelled"

definition verdict ::
  "build_row \<Rightarrow> ident \<times> build_status \<times> instant option \<times> string option \<times> string option \<times> string option" where
  "verdict r = (b_id r, b_status r, b_finished_at r, b_error_message r, b_image_tag r, b_container_id r)"

text \<open>The status changes a single write can make to a row.\<close>

fun may_become :: "build_status \<Rightarrow> build_status \<Rightarrow> bool" where
  "may_become B_pending _ = True"
| "may_become B_running _ = True"
| "may_become B_failed st = (st = B_failed \<or> st = B_running)"
| "may_become s st = (s = st)"

lemmas build_write_defs =
  claimQueuedRow_def mark_build_claimed_def updateBuildStatus_def apply_patch_def hydrateBuild_def
  setBuildLogArchive_def markBuildLogPurged_def Let_def

lemma apply_patch_simps [simp]:
  "b_id (apply_patch st p r) = b_id r"
  "b_app_id (apply_patch st p r) = b_app_id r"
  "b_status (apply_patch st p r) = st"
  "b_created_at (apply_patch st p r) = b_created_at r"
  by (simp_all add: apply_patch_def)

text \<open>
  Every write but the insertion changes the rows one by one, keeps their keys
  and their apps, and moves each status along \<^const>\<open>may_become\<close>.
\<close>

definition row_write :: "(build_row \<Rightarrow> build_row) \<Rightarrow> bool" where
  "row_write f \<longleftrightarrow> (\<forall>r. b_id (f r) = b_id r \<and> b_app_id (f r) = b_app_id r
      \<and> may_become (b_status r) (b_status (f r))
      \<and> (is_final (b_status r) \<longrightarrow> verdict (f r) = verdict r))"

lemma may_become_refl [simp]: "may_become st st"
  by (cases st) auto

lemma row_write_update:
  assumes "\<And>r. P r \<Longrightarrow> b_id (f r) = b_id r \<and> b_app_id (f r) = b_app_id r
      \<and> may_become (b_status r) (b_status (f r)) \<and> (is_final (b_status r) \<longrightarrow> verdict (f r) = verdict r)"
  shows "\<exists>g. row_write g \<and> update_where P f t = map g t"
  using assms
  by (intro exI [of _ "\<lambda>r. if P r then f r else r"]) (auto simp: row_write_def update_where_def)

lemma claim_row_write:
  assumes "set sts \<subseteq> {B_pending, B_failed}"
  shows "\<exists>g. row_write g \<and> fst (claim_build t now i sts) = map g t"
proof -
  have "may_become st B_running \<and> \<not> is_final st" if "st \<in> set sts" for st
    using that assms by (auto simp: is_final_def)
  then show ?thesis
    unfolding claimQueuedRow_def Let_def fst_conv
    by (intro row_write_update) (auto simp: mark_build_claimed_def)
qed

lemma build_step_cases:
  assumes "build_step t t'"
  obtains (insert) r where "t' = t @ [r]" "b_id r \<notin> b_id ` set t" "b_status r = B_pending"
    | (modify) g where "row_write g" "t' = map g t"
  using assms
proof cases
  case (claim_first now i)
  then show ?thesis using claim_row_write[of "[B_pending]"] modify by auto
next
  case (claim_retry now i)
  then show ?thesis using claim_row_write[of "[B_pending, B_failed]"] modify by auto
next
  case (set_status i st p)
  have "\<exists>g. row_write g \<and> t' = map g t"
    unfolding set_status updateBuildStatus_def Let_def fst_conv
    by (intro row_write_update) (auto simp: is_final_def)
  then show ?thesis using modify by blast
next
  case (hydrate i m sha msg)
  have "\<exists>g. row_write g \<and> t' = map g t"
    unfolding hydrate hydrateBuild_def by (intro row_write_update) (auto simp: verdict_def)
  then show ?thesis using modify by blast
next
  case (archive_log now i arch rawsz csz)
  have "\<exists>g. row_write g \<and> t' = map g t"
    unfolding archive_log setBuildLogArchive_def by (intro row_write_update) (auto simp: verdict_def)
  then show ?thesis using modify by blast
next
  case (purge_log now i)
  have "\<exists>g. row_write g \<and> t' = map g t"
    unfolding purge_log markBuildLogPurged_def by (intro row_write_update) (auto simp: verdict_def)
  then show ?thesis using modify by blast
qed (use insert in auto)





lemma build_step_transition:
  assumes "build_step t t'" and "keyed b_id t" and "r \<in> set t" and "r' \<in> set t'" and "b_id r' = b_id r"
  shows "may_become (b_status r) (b_status r')"
  using assms(1)
proof (cases rule: build_step_cases)
  case (insert x)
  with assms have "r' \<in> set t" by auto
  with assms(2,3,5) have "r' = r" by (blast dest: keyed_unique)
  then show ?thesis by simp
next
  case (modify g)
  with assms(4) obtain s where s: "s \<in> set t" "r' = g s" by auto
  with modify(1) assms(5) have "b_id s = b_id r" by (simp add: row_write_def)
  with assms(2,3) s(1) have "s = r" by (blast dest: keyed_unique)
  with s(2) modify(1) show ?thesis by (simp add: row_write_def)
qed

section \<open>The reaper: lemmas\<close>

abbreviation reap_patch :: "instant \<Rightarrow> string \<Rightarrow> build_patch" where
  "reap_patch now msg \<equiv> no_patch\<lparr>p_finished_at := Some now, p_error_message := Some msg\<rparr>"

lemma repair_builds [simp]: "q_builds (repairAppStatusAfterReap now db app) = q_builds db"
  by (auto simp: repairAppStatusAfterReap_def split: option.splits)

lemma repair_app_ids [simp]:
  "map a_id (q_apps (repairAppStatusAfterReap now db app)) = map a_id (q_apps db)"
  by (auto simp: repairAppStatusAfterReap_def map_update_where split: option.splits)

lemma reap_one_builds [simp]:
  "q_builds (reap_one now msg row db) =
     update_where (\<lambda>b. b_id b = b_id row \<and> is_active (b_status b))
       (apply_patch B_cancelled (reap_patch now msg)) (q_builds db)"
  by (simp add: reap_one_def updateBuildStatus_def Let_def is_active_def)

lemma update_where_twice:
  assumes "\<And>r. P r \<Longrightarrow> \<not> Q (f r)"
  shows "update_where Q f (update_where P f t) = update_where (\<lambda>r. P r \<or> Q r) f t"
  using assms by (auto simp: update_where_def)

lemma fold_reap_builds:
  "q_builds (fold (reap_one now msg) rows db) =
     update_where (\<lambda>b. b_id b \<in> b_id ` set rows \<and> is_active (b_status b))
       (apply_patch B_cancelled (reap_patch now msg)) (q_builds db)"
proof (induction rows arbitrary: db)
  case Nil
  then show ?case by (simp add: update_where_none)
next
  case (Cons row rows)
  have "\<not> is_active (b_status (apply_patch B_cancelled (reap_patch now msg) r))" for r
    by (simp add: is_active_def)
  then show ?case
    by (simp add: Cons.IH update_where_twice conj_disj_distribR)
qed

text \<open>The two selections of a tick, and the table it leaves.\<close>

lemma reap_selection:
  assumes "keyed b_id t" and "b \<in> set t" and "\<And>x. P x \<Longrightarrow> is_active (b_status x)"
  shows "b_id b \<in> b_id ` set (select_where P t) \<and> is_active (b_status b) \<longleftrightarrow> P b"
  using assms by (auto dest: keyed_unique)

lemma update_where_cong:
  "(\<And>r. r \<in> set t \<Longrightarrow> P r \<longleftrightarrow> Q r) \<Longrightarrow> update_where P f t = update_where Q f t"
  by (simp add: update_where_def)

lemma reap_builds:
  fixes now :: instant
  assumes k: "keyed b_id (q_builds db)"
  defines "th \<equiv> now - STUCK_THRESHOLD_MS"
  shows "q_builds (fst (reapStuckBuilds now db)) =
    update_where (stuck_pending th) (apply_patch B_cancelled (reap_patch now reap_pending_msg))
      (update_where (stuck_running th) (apply_patch B_cancelled (reap_patch now reap_running_msg))
        (q_builds db))"
proof -
  let ?t1 = "update_where (stuck_running th)
      (apply_patch B_cancelled (reap_patch now reap_running_msg)) (q_builds db)"
  let ?db1 = "fold (reap_one now reap_running_msg) (select_where (stuck_running th) (q_builds db)) db"
  have t1: "q_builds ?db1 = ?t1"
    unfolding fold_reap_builds
    by (intro update_where_cong reap_selection[OF k]) (auto simp: stuck_running_def is_active_def)
  have k1: "keyed b_id ?t1" using k by (intro keyed_update_where) auto
  have "q_builds (fold (reap_one now reap_pending_msg) (select_where (stuck_pending th) ?t1) ?db1)
    = update_where (stuck_pending th) (apply_patch B_cancelled (reap_patch now reap_pending_msg)) ?t1"
    unfolding fold_reap_builds [of now reap_pending_msg] t1
    by (intro update_where_cong reap_selection[OF k1]) (auto simp: stuck_pending_def is_active_def)
  then show ?thesis
    by (simp add: reapStuckBuilds_def Let_def th_def t1 [unfolded th_def])
qed

text \<open>
  The app side of a tick. An app is settled when either one of its builds is
  still active or no row of it says \<^verbatim>\<open>building\<close>. Reaping a build settles its
  app and unsettles no other.
\<close>

definition settled :: "build_db \<Rightarrow> ident \<Rightarrow> bool" where
  "settled db app \<longleftrightarrow>
     (\<exists>b\<in>set (q_builds db). b_app_id b = app \<and> is_active (b_status b))
     \<or> (\<forall>a\<in>set (q_apps db). a_id a = app \<longrightarrow> a_status a \<noteq> A_building)"

lemma repair_settles:
  assumes "keyed a_id (q_apps db)"
  shows "settled (repairAppStatusAfterReap now db app) app"
proof (cases "select_where (\<lambda>b. b_app_id b = app \<and> is_active (b_status b)) (q_builds db) = []")
  case False
  then have "\<exists>b\<in>set (q_builds db). b_app_id b = app \<and> is_active (b_status b)"
    by (auto simp: select_where_def filter_empty_conv)
  then show ?thesis by (auto simp: settled_def)
next
  case idle: True
  show ?thesis
  proof (cases "app_by_id (q_apps db) app")
    case None
    then have "\<forall>a\<in>set (q_apps db). a_id a \<noteq> app" by (simp add: select_first_None)
    with idle None show ?thesis by (auto simp: settled_def repairAppStatusAfterReap_def)
  next
    case (Some a)
    then have a: "a \<in> set (q_apps db)" "a_id a = app" by (auto dest: select_first_Some)
    with assms have only: "x = a" if "x \<in> set (q_apps db)" "a_id x = app" for x
      using that by (blast dest: keyed_unique)
    have "a_status x \<noteq> A_building"
      if x: "x \<in> set (q_apps (repairAppStatusAfterReap now db app))" "a_id x = app" for x
    proof (cases "a_status a = A_building")
      case True
      with x(1) idle Some have "x \<in> set (set_app app
          (\<lambda>y. y\<lparr>a_status := (if truthy (a_container_id a) then A_running else A_failed),
                 a_updated_at := now\<rparr>) (q_apps db))"
        by (simp add: repairAppStatusAfterReap_def)
      then show ?thesis using x(2) by (cases rule: update_whereE) auto
    next
      case False
      with x idle Some have "x \<in> set (q_apps db)" by (simp add: repairAppStatusAfterReap_def)
      with x(2) only False show ?thesis by blast
    qed
    then show ?thesis by (auto simp: settled_def)
  qed
qed

lemma repair_keeps_settled:
  assumes "settled db other" and "other \<noteq> app"
  shows "settled (repairAppStatusAfterReap now db app) other"
  using assms
  by (auto simp: settled_def repairAppStatusAfterReap_def set_update_where split: option.splits)

definition owns_id :: "build_db \<Rightarrow> build_row \<Rightarrow> bool" where
  "owns_id db row \<longleftrightarrow> (\<forall>b\<in>set (q_builds db). b_id b = b_id row \<longrightarrow> b_app_id b = b_app_id row)"

lemma reap_one_owns: "owns_id db r \<Longrightarrow> owns_id (reap_one now msg row db) r"
  by (auto simp: owns_id_def set_update_where split: if_splits)

lemma reap_one_app_keys: "keyed a_id (q_apps db) \<Longrightarrow> keyed a_id (q_apps (reap_one now msg row db))"
  by (simp add: keyed_def reap_one_def)

lemma reap_one_settled:
  assumes k: "keyed a_id (q_apps db)" and o: "owns_id db row"
    and s: "settled db app \<or> b_app_id row = app"
  shows "settled (reap_one now msg row db) app"
proof (cases "b_app_id row = app")
  case True
  have "settled (repairAppStatusAfterReap now db' app) app" if "q_apps db' = q_apps db" for db'
    using k that by (intro repair_settles) simp
  with True show ?thesis by (simp add: reap_one_def)
next
  case False
  let ?db' = "db\<lparr>q_builds := fst (updateBuildStatus (q_builds db) (b_id row) B_cancelled (reap_patch now msg))\<rparr>"
  have "settled ?db' app"
  proof -
    from False s have "settled db app" by simp
    moreover have "b \<in> set (q_builds ?db')"
      if "b \<in> set (q_builds db)" "b_app_id b = app" for b
      using that False o
      by (auto simp: updateBuildStatus_def Let_def owns_id_def intro!: update_where_miss)
    ultimately show ?thesis by (auto simp: settled_def)
  qed
  with False show ?thesis unfolding reap_one_def by (intro repair_keeps_settled) auto
qed

lemma fold_reap_settled:
  assumes "keyed a_id (q_apps db)" and "\<forall>r\<in>set rows. owns_id db r"
    and "settled db app \<or> app \<in> b_app_id ` set rows"
  shows "settled (fold (reap_one now msg) rows db) app"
  using assms
proof (induction rows arbitrary: db)
  case Nil
  then show ?case by simp
next
  case (Cons row rows)
  let ?db' = "reap_one now msg row db"
  have "keyed a_id (q_apps ?db')" "\<forall>r\<in>set rows. owns_id ?db' r"
    using Cons.prems by (auto intro: reap_one_app_keys reap_one_owns)
  moreover have "settled ?db' app \<or> app \<in> b_app_id ` set rows"
    using Cons.prems reap_one_settled[of db row app now msg] by auto
  ultimately show ?case using Cons.IH by simp
qed

lemma fold_reap_app_keys:
  "keyed a_id (q_apps db) \<Longrightarrow> keyed a_id (q_apps (fold (reap_one now msg) rows db))"
  by (induction rows arbitrary: db) (auto intro: reap_one_app_keys)

text \<open>What a tick leaves of the table, and what it returns.\<close>

lemma stuck_cancelled [simp]:
  "b_status b = B_cancelled \<Longrightarrow> \<not> stuck_running th b"
  "b_status b = B_cancelled \<Longrightarrow> \<not> stuck_pending th b"
  by (simp_all add: stuck_running_def stuck_pending_def)



lemma reaped_rows:
  assumes "keyed b_id (q_builds db)"
  shows "\<forall>b\<in>set (q_builds db).
    if stuck_running (now - STUCK_THRESHOLD_MS) b \<or> stuck_pending (now - STUCK_THRESHOLD_MS) b
    then \<exists>b'\<in>set (q_builds (fst (reapStuckBuilds now db))).
           b_id b' = b_id b \<and> b_status b' = B_cancelled \<and> b_finished_at b' = Some now
    else b \<in> set (q_builds (fst (reapStuckBuilds now db)))"
proof
  fix b assume b: "b \<in> set (q_builds db)"
  let ?th = "now - STUCK_THRESHOLD_MS"
  let ?g = "\<lambda>r. if stuck_running ?th r then apply_patch B_cancelled (reap_patch now reap_running_msg) r else r"
  let ?h = "\<lambda>r. if stuck_pending ?th r then apply_patch B_cancelled (reap_patch now reap_pending_msg) r else r"
  have "?h (?g b) \<in> set (q_builds (fst (reapStuckBuilds now db)))"
    unfolding reap_builds [OF assms] update_where_def using b by (intro imageI | simp)+
  moreover have "if stuck_running ?th b \<or> stuck_pending ?th b
    then b_id (?h (?g b)) = b_id b \<and> b_status (?h (?g b)) = B_cancelled \<and> b_finished_at (?h (?g b)) = Some now
    else ?h (?g b) = b"
    by (simp add: apply_patch_def or_old_def)
  ultimately obtain r' where "r' \<in> set (q_builds (fst (reapStuckBuilds now db)))"
    "if stuck_running ?th b \<or> stuck_pending ?th b
     then b_id r' = b_id b \<and> b_status r' = B_cancelled \<and> b_finished_at r' = Some now else r' = b"
    by blast
  then show "if stuck_running ?th b \<or> stuck_pending ?th b
    then \<exists>b'\<in>set (q_builds (fst (reapStuckBuilds now db))).
           b_id b' = b_id b \<and> b_status b' = B_cancelled \<and> b_finished_at b' = Some now
    else b \<in> set (q_builds (fst (reapStuckBuilds now db)))"
    by (cases "stuck_running ?th b \<or> stuck_pending ?th b") auto
qed


lemma reaped_settled:
  assumes kb: "keyed b_id (q_builds db)" and ka: "keyed a_id (q_apps db)" and b: "b \<in> set (q_builds db)"
    and stuck: "stuck_running (now - STUCK_THRESHOLD_MS) b \<or> stuck_pending (now - STUCK_THRESHOLD_MS) b"
  shows "settled (fst (reapStuckBuilds now db)) (b_app_id b)"
proof -
  let ?th = "now - STUCK_THRESHOLD_MS"
  let ?rows = "select_where (stuck_running ?th) (q_builds db)"
  let ?db1 = "fold (reap_one now reap_running_msg) ?rows db"
  let ?pend = "select_where (stuck_pending ?th) (q_builds ?db1)"
  have own: "\<forall>r\<in>set rs. owns_id d r" if "keyed b_id (q_builds d)" "set rs \<subseteq> set (q_builds d)" for d rs
    using that by (auto simp: owns_id_def dest: keyed_unique)
  have t1: "q_builds ?db1 = update_where (\<lambda>b. b_id b \<in> b_id ` set ?rows \<and> is_active (b_status b))
      (apply_patch B_cancelled (reap_patch now reap_running_msg)) (q_builds db)"
    by (rule fold_reap_builds)
  have k1: "keyed b_id (q_builds ?db1)" unfolding t1 using kb by (intro keyed_update_where) auto
  have "settled ?db1 (b_app_id b) \<or> b_app_id b \<in> b_app_id ` set ?pend"
  proof (cases "stuck_running ?th b")
    case True
    with b have "b_app_id b \<in> b_app_id ` set ?rows" by simp
    then have "settled ?db1 (b_app_id b)"
      by (intro fold_reap_settled [OF ka] own [OF kb] disjI2) auto
    then show ?thesis ..
  next
    case False
    with kb b stuck have "b \<in> set (q_builds ?db1)"
      unfolding t1 by (intro update_where_miss) (auto dest: keyed_unique)
    with False stuck show ?thesis by auto
  qed
  then have "settled (fold (reap_one now reap_pending_msg) ?pend ?db1) (b_app_id b)"
    using k1 ka by (intro fold_reap_settled own fold_reap_app_keys) auto
  then show ?thesis by (simp add: reapStuckBuilds_def Let_def)
qed

section \<open>Properties of the queue\<close>




text \<open>
  The status of a build moves only along \<^const>\<open>may_become\<close>: a write may take
  a pending or running build anywhere, a failed build only back to running (the
  retry claim), and no other status moves.
\<close>

theorem build_status_transitions:
  assumes "build_step t t'" and "keyed b_id t"
    and "r \<in> set t" and "r' \<in> set t'" and "b_id r' = b_id r"
  shows "may_become (b_status r) (b_status r')
    \<and> (b_status r = B_failed \<longrightarrow> b_status r' = B_failed \<or> b_status r' = B_running)"
proof -
  have m: "may_become (b_status r) (b_status r')" using build_step_transition[OF assms] .
  then show ?thesis by (cases "b_status r = B_failed") auto
qed

abbreviation failed_build :: build_row where
  "failed_build \<equiv> (fresh_build ''b1'' ''a1'' 0)\<lparr>b_status := B_failed\<rparr>"

theorem build_status_transitions_witness:
  "build_step [failed_build] (fst (claim_build [failed_build] 7 ''b1'' [B_pending, B_failed]))
   \<and> may_become B_failed (b_status (hd (fst (claim_build [failed_build] 7 ''b1'' [B_pending, B_failed]))))"
proof -
  let ?t' = "fst (claim_build [failed_build] 7 ''b1'' [B_pending, B_failed])"
  have step: "build_step [failed_build] ?t'" by (rule build_step.claim_retry)
  have t': "hd ?t' \<in> set ?t'" "b_id (hd ?t') = b_id failed_build"
    by (simp_all add: build_write_defs update_where_def fresh_build_def)
  show ?thesis
    using build_status_transitions [OF step _ _ t'] step by (simp add: keyed_def)
qed

text \<open>
  C2. Claims of one build are mutually exclusive. When workers claim the same
  build row one after the other, with statuses that do not include running, the
  first claim succeeds exactly when a row with that id is in one of those
  statuses and every later claim gets nothing.
\<close>

theorem build_claimed_once:
  assumes "B_running \<notin> set sts"
  shows "claim_run b_id b_status (\<lambda>now. mark_build_claimed now True) t (n # ns) i sts =
      snd (claim_build t n i sts) # replicate (length ns) None
    \<and> (snd (claim_build t n i sts) \<noteq> None \<longleftrightarrow> (\<exists>r\<in>set t. b_id r = i \<and> b_status r \<in> set sts))"
proof -
  have "build_claims.claims (fst (claim_build t n i sts)) ns i sts = replicate (length ns) None"
    by (rule build_claims.claims_none [OF build_claims.claim_then_none [OF assms]])
  then show ?thesis
    using build_claims.claim_None_iff [where t = t and i = i and sts = sts and now = n]
    by (auto simp: build_claims.claims_Cons simp del: claim_run.simps(2))
qed

abbreviation pending_build :: build_row where
  "pending_build \<equiv> fresh_build ''b1'' ''a1'' 0"

theorem build_claimed_once_witness:
  "claim_run b_id b_status (\<lambda>now. mark_build_claimed now True) [pending_build] [10, 11, 12] ''b1'' [B_pending]
     = [Some (mark_build_claimed 10 True pending_build), None, None]"
  using build_claimed_once [of "[B_pending]" "[pending_build]" 10 "[11, 12]" "''b1''"]
  by (simp add: claimQueuedRow_def fresh_build_def first_row_def numeral_2_eq_2)



text \<open>
  The reaper does not leave an app behind: after a tick, the app of every
  reaped build either still has an active build or does not show as building.
\<close>

theorem reaper_settles_apps:
  fixes now :: instant
  assumes "keyed b_id (q_builds db)" and "keyed a_id (q_apps db)"
    and "b \<in> set (q_builds db)"
    and "stuck_running (now - STUCK_THRESHOLD_MS) b \<or> stuck_pending (now - STUCK_THRESHOLD_MS) b"
    and "a \<in> set (q_apps (fst (reapStuckBuilds now db)))" and "a_id a = b_app_id b"
    and "\<forall>x\<in>set (q_builds (fst (reapStuckBuilds now db))). b_app_id x = b_app_id b \<longrightarrow> \<not> is_active (b_status x)"
  shows "a_status a \<noteq> A_building"
  using reaped_settled [OF assms(1-4)] assms(5-7) by (auto simp: settled_def)

abbreviation building_app :: app_row where
  "building_app \<equiv> (default_app ''a1'' ''p1'' ''web'' 0)\<lparr>a_status := A_building, a_container_id := Some ''c1''\<rparr>"

theorem reaper_settles_apps_witness:
  "a_status (hd (q_apps (fst (reapStuckBuilds 1800001
      \<lparr>q_builds = [pending_build], q_apps = [building_app]\<rparr>)))) \<noteq> A_building"
  by (rule reaper_settles_apps [of "\<lparr>q_builds = [pending_build], q_apps = [building_app]\<rparr>" pending_build 1800001];
      code_simp)

text \<open>
  The rollback target of a build is the newest succeeded build of the app
  created before it, whenever there is such a build.
\<close>

theorem rollback_target_is_newest_older:
  assumes "bid \<noteq> []" and "getBuildById t bid = Some ref"
    and "s \<in> set t" and "b_app_id s = app" and "is_succeeded (b_status s)"
    and "b_id s \<noteq> bid" and "b_created_at s < b_created_at ref"
  shows "\<exists>r. getLastSucceededBuild t app (Some bid) = Some r \<and> r \<in> set t \<and> b_app_id r = app
    \<and> is_succeeded (b_status r) \<and> b_created_at s \<le> b_created_at r \<and> b_created_at r < b_created_at ref"
proof -
  let ?P = "\<lambda>r. b_app_id r = app \<and> is_succeeded (b_status r) \<and> b_id r \<noteq> bid
      \<and> b_created_at r < b_created_at ref"
  have "s \<in> set (select_where ?P t)" using assms by simp
  then obtain r where "first_row (order_desc b_created_at (select_where ?P t)) = Some r"
    "r \<in> set (select_where ?P t)" "b_created_at s \<le> b_created_at r"
    by (rule order_desc_first_exists)
  then show ?thesis using assms(1,2) by (auto simp: getLastSucceededBuild_def)
qed

abbreviation succeeded_build :: "ident \<Rightarrow> instant \<Rightarrow> build_row" where
  "succeeded_build i n \<equiv> (fresh_build i ''a1'' n)\<lparr>b_status := B_succeeded\<rparr>"

theorem rollback_target_is_newest_older_witness:
  "\<exists>r. getLastSucceededBuild [succeeded_build ''b1'' 1, succeeded_build ''b2'' 2] ''a1'' (Some ''b2'') = Some r
     \<and> b_created_at r < 2"
  using rollback_target_is_newest_older
    [of "''b2''" "[succeeded_build ''b1'' 1, succeeded_build ''b2'' 2]" "succeeded_build ''b2'' 2"
        "succeeded_build ''b1'' 1" "''a1''"]
  by (auto simp: getBuildById_def select_first_def fresh_build_def is_succeeded_def)

text \<open>
  When the reference build has no older succeeded build, the fallback query,
  meant for rows of the same millisecond, does not bound the creation time: it
  returns a build created after the reference.
\<close>

lemma rollback_target_may_be_newer:
  "getLastSucceededBuild [succeeded_build ''b1'' 1, succeeded_build ''b2'' 2] ''a1'' (Some ''b1'')
     = Some (succeeded_build ''b2'' 2)"
  by (simp add: getLastSucceededBuild_def getBuildById_def select_first_def select_where_def
      order_desc_def first_row_def fresh_build_def is_succeeded_def)

text \<open>
  A row that has been claimed but has no start time yet is never reaped,
  however long ago it was claimed: a tick at any clock leaves it running.
\<close>

lemma unstarted_running_never_reaped:
  assumes "keyed b_id (q_builds db)" and "b \<in> set (q_builds db)"
    and "b_status b = B_running" and "b_started_at b = None"
  shows "b \<in> set (q_builds (fst (reapStuckBuilds now db)))"
  using reaped_rows [OF assms(1), of now] assms(2-4)
  by (auto simp: stuck_running_def stuck_pending_def)

end
