(* ===== verification/Push_Filters.thy ===== *)
theory Push_Filters
  imports App_Rows
begin

text \<open>
  What decides whether a push is deployed and under which queue key:
  \<^verbatim>\<open>webhooks/filters.ts\<close> (the filter chain), \<^verbatim>\<open>webhooks/coalescing.ts\<close> (the
  job id) and the checks of the webhook signatures in \<^verbatim>\<open>github/webhook.ts\<close>
  and \<^verbatim>\<open>gitlab/webhook.ts\<close>. \<^verbatim>\<open>JSON.parse\<close>, \<^verbatim>\<open>Bun.Glob\<close>, a user-supplied
  \<^verbatim>\<open>RegExp\<close>, HMAC and decryption are parameters.
\<close>

section \<open>The filter chain\<close>

datatype decision =
  D_enqueued | D_skipped_disabled | D_skipped_branch | D_skipped_path | D_skipped_directive
| D_skipped_unknown_app | D_skipped_tag_disabled | D_skipped_tag_pattern | D_invalid_signature
| D_error | D_coalesced | D_retried

text \<open>
  \<^verbatim>\<open>/\[skip\s+(?:deploy|ci)\]|\[no\s+deploy\]/i\<close>. The pattern is tried at every
  position; \<^verbatim>\<open>\s+\<close> takes all the white space, which loses no match because the
  keyword that follows does not begin with white space.
\<close>

definition ci_starts_with :: "string \<Rightarrow> string \<Rightarrow> bool" where
  "ci_starts_with p s \<longleftrightarrow> starts_with p (to_lower s)"

definition directive_tail :: "string list \<Rightarrow> string \<Rightarrow> bool" where
  "directive_tail kws s \<longleftrightarrow>
     (case s of [] \<Rightarrow> False
      | c # _ \<Rightarrow> is_space c \<and> list_ex (\<lambda>kw. ci_starts_with (kw @ '']'') (dropWhile is_space s)) kws)"

definition directive_at :: "string \<Rightarrow> bool" where
  "directive_at s \<longleftrightarrow>
     (ci_starts_with ''[skip'' s \<and> directive_tail [''deploy'', ''ci''] (drop 5 s))
     \<or> (ci_starts_with ''[no'' s \<and> directive_tail [''deploy''] (drop 3 s))"

fun hasSkipDirective :: "string \<Rightarrow> bool" where
  "hasSkipDirective [] = False"
| "hasSkipDirective (c # s) = (directive_at (c # s) \<or> hasSkipDirective s)"

text \<open>
  \<open>parse s\<close> is the result of \<^verbatim>\<open>JSON.parse\<close>: \<open>None\<close> when it throws,
  \<open>Some None\<close> when the value is no array, \<open>Some (Some ps)\<close> for an array.
\<close>

definition matchesWatchPaths ::
  "(string \<Rightarrow> string list option option) \<Rightarrow> (string \<Rightarrow> string \<Rightarrow> bool) \<Rightarrow> string list \<Rightarrow>
   string option \<Rightarrow> bool" where
  "matchesWatchPaths parse glob changedFiles watchPathsJson =
     (case watchPathsJson of
        None \<Rightarrow> True
      | Some json \<Rightarrow>
          if json = [] then True
          else (case parse json of
                  None \<Rightarrow> True
                | Some None \<Rightarrow> True
                | Some (Some patterns) \<Rightarrow>
                    if patterns = [] then True
                    else list_ex (\<lambda>pattern. list_ex (glob pattern) changedFiles) patterns))"

definition filterPushEvent ::
  "(string \<Rightarrow> string list option option) \<Rightarrow> (string \<Rightarrow> string \<Rightarrow> bool) \<Rightarrow> app_row \<Rightarrow>
   string \<Rightarrow> string \<Rightarrow> string list option \<Rightarrow> decision \<times> string" where
  "filterPushEvent parse glob app branch commitMessage changedFiles =
     (if \<not> a_auto_deploy_enabled app then
        (D_skipped_disabled, ''auto_deploy_enabled=false'')
      else if truthy (a_branch app) \<and> a_branch app \<noteq> Some branch then
        (D_skipped_branch,
         ''app branch='' @ [CHR 0x22] @ the (a_branch app) @ [CHR 0x22] @
         '' does not match push branch='' @ [CHR 0x22] @ branch @ [CHR 0x22])
      else if (case changedFiles of None \<Rightarrow> False
               | Some files \<Rightarrow> files \<noteq> [] \<and> \<not> matchesWatchPaths parse glob files (a_watch_paths app)) then
        (D_skipped_path, ''no changed file matched watch_paths'')
      else if hasSkipDirective commitMessage then
        (D_skipped_directive, ''commit message contains skip directive'')
      else (D_enqueued, ''all filters passed''))"

text \<open>\<open>regexp pattern s\<close> is \<^verbatim>\<open>new RegExp(pattern).test(s)\<close>, \<open>None\<close> when the pattern is invalid.\<close>

definition matchesTagPattern ::
  "(string \<Rightarrow> string \<Rightarrow> bool option) \<Rightarrow> string \<Rightarrow> string option \<Rightarrow> bool" where
  "matchesTagPattern regexp tagName pattern =
     (case pattern of
        None \<Rightarrow> True
      | Some p \<Rightarrow> (case regexp p tagName of None \<Rightarrow> False | Some b \<Rightarrow> b))"

section \<open>Job ids\<close>

datatype drop_reason = Superseded_waiting | Stale_completed | Stale_failed

record coalesce_result =
  c_job_id :: string
  c_should_drop_existing :: bool
  c_drop_reason :: "drop_reason option"

definition base_key :: "ident \<Rightarrow> string \<Rightarrow> string" where
  "base_key app branch = ''deploy:'' @ app @ '':'' @ branch"

text \<open>\<open>rid\<close> is the value \<^verbatim>\<open>nanoid()\<close> returns when it is called.\<close>

definition resolveCoalesceJobId ::
  "string \<Rightarrow> bool \<Rightarrow> ident \<Rightarrow> string \<Rightarrow> string option \<Rightarrow> nat option \<Rightarrow> coalesce_result" where
  "resolveCoalesceJobId rid coalesce appId branch existingJobState deliveryCount =
     (if \<not> coalesce then
        \<lparr>c_job_id = rid, c_should_drop_existing = False, c_drop_reason = None\<rparr>
      else
        let baseKey = base_key appId branch in
        case existingJobState of
          None \<Rightarrow> \<lparr>c_job_id = baseKey, c_should_drop_existing = False, c_drop_reason = None\<rparr>
        | Some state \<Rightarrow>
            if state = [] then
              \<lparr>c_job_id = baseKey, c_should_drop_existing = False, c_drop_reason = None\<rparr>
            else if state = ''waiting'' \<or> state = ''delayed'' then
              \<lparr>c_job_id = baseKey, c_should_drop_existing = True, c_drop_reason = Some Superseded_waiting\<rparr>
            else if state = ''active'' then
              (let n = (case deliveryCount of None \<Rightarrow> 0 | Some k \<Rightarrow> k)
               in \<lparr>c_job_id = baseKey @ ''_r'' @ nat_str n, c_should_drop_existing = False, c_drop_reason = None\<rparr>)
            else if state = ''completed'' then
              \<lparr>c_job_id = baseKey, c_should_drop_existing = True, c_drop_reason = Some Stale_completed\<rparr>
            else if state = ''failed'' then
              \<lparr>c_job_id = baseKey, c_should_drop_existing = True, c_drop_reason = Some Stale_failed\<rparr>
            else
              \<lparr>c_job_id = baseKey, c_should_drop_existing = True, c_drop_reason = Some Stale_completed\<rparr>)"

section \<open>Signatures\<close>

text \<open>
  \<^verbatim>\<open>a.length === b.length && timingSafeEqual(a, b)\<close> is equality of the byte
  strings. \<open>hmac secret body\<close> is the hexadecimal HMAC-SHA256.
\<close>

definition verifySignature ::
  "(string \<Rightarrow> string \<Rightarrow> string) \<Rightarrow> string \<Rightarrow> string option \<Rightarrow> string \<Rightarrow> bool" where
  "verifySignature hmac body signature secret =
     (case signature of
        None \<Rightarrow> False
      | Some sig \<Rightarrow>
          if \<not> starts_with ''sha256='' sig then False
          else (let expected = ''sha256='' @ hmac secret body
                in length sig = length expected \<and> sig = expected))"

definition verifyGitLabToken :: "string option \<Rightarrow> string \<Rightarrow> bool" where
  "verifyGitLabToken receivedHeader expectedSecret =
     (case receivedHeader of
        None \<Rightarrow> False
      | Some h \<Rightarrow>
          if h = [] \<or> expectedSecret = [] then False
          else length h = length expectedSecret \<and> h = expectedSecret)"

record secret_blobs =
  sb_current :: string
  sb_old :: "string option"
  sb_old_expires_at :: "instant option"

definition decryptWebhookSecret :: "(string \<Rightarrow> string \<Rightarrow> string option) \<Rightarrow> string \<Rightarrow> string option" where
  "decryptWebhookSecret decryptField blob = decryptField (drop 12 blob) (take 12 blob)"

text \<open>
  Both providers try the current secret of the app, then the old one until it
  expires; \<open>verify secret\<close> is the provider's check and the result is
  (valid, used old secret). A secret that cannot be decrypted is skipped.
\<close>

definition verify_with_fallback ::
  "(string \<Rightarrow> string \<Rightarrow> string option) \<Rightarrow> (string \<Rightarrow> bool) \<Rightarrow> instant \<Rightarrow> string \<Rightarrow>
   secret_blobs option \<Rightarrow> bool \<times> bool" where
  "verify_with_fallback decryptField verify now globalSecret perApp =
     (case perApp of
        None \<Rightarrow> (verify globalSecret, False)
      | Some pa \<Rightarrow>
          if (case decryptWebhookSecret decryptField (sb_current pa) of None \<Rightarrow> False | Some s \<Rightarrow> verify s)
          then (True, False)
          else (case sb_old pa of
                  None \<Rightarrow> (False, False)
                | Some old \<Rightarrow>
                    if (case sb_old_expires_at pa of None \<Rightarrow> True | Some e \<Rightarrow> e > now)
                       \<and> (case decryptWebhookSecret decryptField old of None \<Rightarrow> False | Some s \<Rightarrow> verify s)
                    then (True, True) else (False, False)))"

definition verifySignatureWithFallback ::
  "(string \<Rightarrow> string \<Rightarrow> string option) \<Rightarrow> (string \<Rightarrow> string \<Rightarrow> string) \<Rightarrow> instant \<Rightarrow> string \<Rightarrow>
   string option \<Rightarrow> string \<Rightarrow> secret_blobs option \<Rightarrow> bool \<times> bool" where
  "verifySignatureWithFallback decryptField hmac now body signature globalSecret perApp =
     verify_with_fallback decryptField (verifySignature hmac body signature) now globalSecret perApp"

definition verifyGitLabTokenWithFallback ::
  "(string \<Rightarrow> string \<Rightarrow> string option) \<Rightarrow> instant \<Rightarrow> string option \<Rightarrow> string \<Rightarrow>
   secret_blobs option \<Rightarrow> bool \<times> bool" where
  "verifyGitLabTokenWithFallback decryptField now receivedHeader globalSecret perApp =
     verify_with_fallback decryptField (verifyGitLabToken receivedHeader) now globalSecret perApp"

section \<open>Lemmas\<close>

lemma to_lower_simps [simp]:
  "to_lower [] = []" "to_lower (c # s) = to_lower_char c # to_lower s"
  "to_lower (s @ t) = to_lower s @ to_lower t" "length (to_lower s) = length s"
  by (simp_all add: to_lower_def)

lemma to_lower_drop [simp]: "to_lower (drop n s) = drop n (to_lower s)"
  by (simp add: to_lower_def drop_map)

lemma is_space_lower [simp]: "is_space (to_lower_char c) = is_space c"
  by (auto simp: is_space_def to_lower_char_def is_upper_def of_char_of take_bit_nat_eq_self)

lemma to_lower_dropWhile_space [simp]:
  "to_lower (dropWhile is_space s) = dropWhile is_space (to_lower s)"
  by (induction s) auto

text \<open>The directive as a text: the whole match spelled out on the lower-cased message.\<close>

definition directive_texts :: "string \<Rightarrow> string set" where
  "directive_texts ws =
     {''[skip'' @ ws @ ''deploy'' @ '']'', ''[skip'' @ ws @ ''ci'' @ '']'', ''[no'' @ ws @ ''deploy'' @ '']''}"

lemma dropWhile_space_kw:
  assumes "\<not> is_space k"
  shows "(\<exists>rest. dropWhile is_space s = k # kw @ rest) \<longleftrightarrow>
    (\<exists>ws rest. s = ws @ (k # kw) @ rest \<and> list_all is_space ws)"
proof
  assume "\<exists>rest. dropWhile is_space s = k # kw @ rest"
  then obtain rest where "dropWhile is_space s = (k # kw) @ rest" by auto
  then have "s = takeWhile is_space s @ (k # kw) @ rest" by (metis takeWhile_dropWhile_id)
  moreover have "list_all is_space (takeWhile is_space s)" by (auto simp: list_all_iff dest: set_takeWhileD)
  ultimately show "\<exists>ws rest. s = ws @ (k # kw) @ rest \<and> list_all is_space ws" by blast
next
  assume "\<exists>ws rest. s = ws @ (k # kw) @ rest \<and> list_all is_space ws"
  then obtain ws rest where "s = ws @ (k # kw) @ rest" "list_all is_space ws" by blast
  then have "dropWhile is_space s = k # kw @ rest"
    using assms by (simp add: dropWhile_append list_all_iff)
  then show "\<exists>rest. dropWhile is_space s = k # kw @ rest" by blast
qed

lemma directive_tail_iff:
  assumes "\<forall>kw\<in>set kws. \<exists>k ks. kw = k # ks \<and> \<not> is_space k"
  shows "directive_tail kws s \<longleftrightarrow>
    (\<exists>ws kw rest. ws \<noteq> [] \<and> list_all is_space ws \<and> kw \<in> set kws \<and> to_lower s = ws @ kw @ '']'' @ rest)"
proof -
  have kw: "(\<exists>rest. dropWhile is_space t = kw @ '']'' @ rest) \<longleftrightarrow>
      (\<exists>ws rest. t = ws @ kw @ '']'' @ rest \<and> list_all is_space ws)" if k: "kw \<in> set kws" for t kw
  proof -
    from assms k obtain c cs where "kw = c # cs" "\<not> is_space c" by blast
    then show ?thesis using dropWhile_space_kw [of c t "cs @ '']''"] by simp
  qed
  have hd: "ws \<noteq> [] \<longleftrightarrow> is_space (hd (ws @ kw @ r))" if k: "kw \<in> set kws" and "list_all is_space ws" for ws kw r
  proof -
    from assms k obtain c cs where "kw = c # cs" "\<not> is_space c" by blast
    with that(2) show ?thesis by (cases ws) auto
  qed
  have "directive_tail kws s \<longleftrightarrow> s \<noteq> [] \<and> is_space (hd (to_lower s)) \<and>
      (\<exists>kw\<in>set kws. \<exists>rest. dropWhile is_space (to_lower s) = kw @ '']'' @ rest)"
    by (cases s) (auto simp: directive_tail_def ci_starts_with_def starts_with_iff list_ex_iff)
  also have "\<dots> \<longleftrightarrow> s \<noteq> [] \<and> is_space (hd (to_lower s)) \<and>
      (\<exists>kw\<in>set kws. \<exists>ws rest. to_lower s = ws @ kw @ '']'' @ rest \<and> list_all is_space ws)"
    using kw by (metis (no_types, lifting))
  also have "\<dots> \<longleftrightarrow> (\<exists>ws kw rest. ws \<noteq> [] \<and> list_all is_space ws \<and> kw \<in> set kws
      \<and> to_lower s = ws @ kw @ '']'' @ rest)"
    using hd by (metis Nil_is_append_conv list.distinct(1) to_lower_simps(1))
  finally show ?thesis .
qed

lemma directive_choice:
  "(\<exists>ws kw rest. A ws \<and> B ws \<and> kw \<in> set [k1, k2] \<and> t = p @ ws @ kw @ c @ rest)
   \<or> (\<exists>ws kw rest. A ws \<and> B ws \<and> kw \<in> set [k1] \<and> t = q @ ws @ kw @ c @ rest)
   \<longleftrightarrow> (\<exists>ws d rest. A ws \<and> B ws \<and> d \<in> {p @ ws @ k1 @ c, p @ ws @ k2 @ c, q @ ws @ k1 @ c} \<and> t = d @ rest)"
  (is "?l1 \<or> ?l2 \<longleftrightarrow> ?r")
proof
  assume ?r
  then obtain ws d rest
    where "A ws" "B ws" "d \<in> {p @ ws @ k1 @ c, p @ ws @ k2 @ c, q @ ws @ k1 @ c}" "t = d @ rest" by blast
  then show "?l1 \<or> ?l2" by (elim insertE emptyE) (simp; blast)+
next
  have pick: ?r if "A ws" "B ws" "t = d @ rest" "d \<in> {p @ ws @ k1 @ c, p @ ws @ k2 @ c, q @ ws @ k1 @ c}" for ws d rest
    using that by blast
  assume "?l1 \<or> ?l2"
  then show ?r
  proof
    assume ?l1
    then obtain ws kw rest where "A ws" "B ws" "kw \<in> set [k1, k2]" "t = (p @ ws @ kw @ c) @ rest" by auto
    then show ?r by (intro pick [of ws "p @ ws @ kw @ c" rest]) auto
  next
    assume ?l2
    then obtain ws kw rest where "A ws" "B ws" "kw \<in> set [k1]" "t = (q @ ws @ kw @ c) @ rest" by auto
    then show ?r by (intro pick [of ws "q @ ws @ kw @ c" rest]) auto
  qed
qed

lemma directive_at_iff:
  "directive_at s \<longleftrightarrow> (\<exists>ws d rest. ws \<noteq> [] \<and> list_all is_space ws \<and> d \<in> directive_texts ws \<and> to_lower s = d @ rest)"
proof -
  have kw: "\<forall>kw\<in>set [''deploy'', ''ci'']. \<exists>k ks. kw = k # ks \<and> \<not> is_space k"
    by (simp add: is_space_def)
  have split: "ci_starts_with p s \<and> directive_tail kws (drop (length p) s) \<longleftrightarrow>
      (\<exists>ws kw rest. ws \<noteq> [] \<and> list_all is_space ws \<and> kw \<in> set kws \<and> to_lower s = p @ ws @ kw @ '']'' @ rest)"
    if "set kws \<subseteq> {''deploy'', ''ci''}" for p kws
  proof -
    have k: "\<forall>kw\<in>set kws. \<exists>k ks. kw = k # ks \<and> \<not> is_space k" using kw that by auto
    have e: "to_lower s = p @ t \<longleftrightarrow> ci_starts_with p s \<and> to_lower (drop (length p) s) = t" for t
      by (auto simp: ci_starts_with_def starts_with_def) (metis append_take_drop_id)
    show ?thesis unfolding directive_tail_iff [OF k] e by blast
  qed
  have len: "length ''[skip'' = 5" "length ''[no'' = 3" by simp_all
  have sub: "set [''deploy'', ''ci''] \<subseteq> {''deploy'', ''ci''}" "set [''deploy''] \<subseteq> {''deploy'', ''ci''}"
    by (simp_all only: list.set) blast+
  show ?thesis
    unfolding directive_at_def directive_texts_def
      split [OF sub(1), of "''[skip''", unfolded len] split [OF sub(2), of "''[no''", unfolded len]
    by (rule directive_choice)
qed

lemma hasSkipDirective_suffix: "hasSkipDirective s \<longleftrightarrow> (\<exists>pre t. s = pre @ t \<and> directive_at t)"
proof (induction s)
  case Nil
  then show ?case by (simp add: directive_at_def directive_tail_def)
next
  case (Cons c s)
  show ?case
  proof
    assume "hasSkipDirective (c # s)"
    then show "\<exists>pre t. c # s = pre @ t \<and> directive_at t"
      using Cons.IH by (metis append_Cons append_Nil hasSkipDirective.simps(2))
  next
    assume "\<exists>pre t. c # s = pre @ t \<and> directive_at t"
    then obtain pre t where pt: "c # s = pre @ t" "directive_at t" by blast
    then show "hasSkipDirective (c # s)" using Cons.IH by (cases pre) auto
  qed
qed

lemma to_lower_append_conv:
  "to_lower s = u @ v \<longleftrightarrow> (\<exists>s1 s2. s = s1 @ s2 \<and> to_lower s1 = u \<and> to_lower s2 = v)"
  by (auto simp: to_lower_def map_eq_append_conv)

section \<open>Properties of the filters\<close>

text \<open>
  The skip directive is recognised exactly where the regular expression
  says: the lower-cased commit message contains \<^verbatim>\<open>[skip deploy]\<close>,
  \<^verbatim>\<open>[skip ci]\<close> or \<^verbatim>\<open>[no deploy]\<close> with one or more white-space characters
  between the words, anywhere in the message.
\<close>

theorem skip_directive_iff:
  "hasSkipDirective m \<longleftrightarrow>
    (\<exists>pre ws d post. ws \<noteq> [] \<and> list_all is_space ws \<and> d \<in> directive_texts ws \<and> to_lower m = pre @ d @ post)"
  (is "_ \<longleftrightarrow> ?spec")
proof
  assume "hasSkipDirective m"
  then obtain pre t ws d rest where "m = pre @ t" "ws \<noteq> []" "list_all is_space ws"
    "d \<in> directive_texts ws" "to_lower t = d @ rest"
    unfolding hasSkipDirective_suffix directive_at_iff by blast
  moreover from this have "to_lower m = to_lower pre @ d @ rest" by simp
  ultimately show ?spec by blast
next
  assume ?spec
  then obtain pre ws d post where "ws \<noteq> []" "list_all is_space ws" "d \<in> directive_texts ws"
    "to_lower m = pre @ d @ post" by blast
  moreover from this obtain m1 m2 where "m = m1 @ m2" "to_lower m2 = d @ post"
    by (auto simp: to_lower_append_conv [of m pre "d @ post"])
  ultimately show "hasSkipDirective m"
    unfolding hasSkipDirective_suffix directive_at_iff by blast
qed

text \<open>
  A push is enqueued for an app exactly when auto-deploy is on, the app's
  branch (if it has one) is the pushed one, the changed files (if any are
  known) match the watch paths and the message carries no skip directive.
\<close>

theorem filter_enqueues_iff:
  "fst (filterPushEvent parse glob app branch msg files) = D_enqueued \<longleftrightarrow>
     a_auto_deploy_enabled app
     \<and> (a_branch app = None \<or> a_branch app = Some [] \<or> a_branch app = Some branch)
     \<and> (files = None \<or> files = Some [] \<or> matchesWatchPaths parse glob (the files) (a_watch_paths app))
     \<and> \<not> hasSkipDirective msg"
  by (cases "a_branch app"; cases files) (auto simp: filterPushEvent_def)

text \<open>
  Secret rotation: with per-app secrets, a webhook is accepted only
  under the decrypted current secret or under the decrypted old secret before
  its expiry, and the old secret is reported as used only when the current one
  does not verify.
\<close>

theorem rotated_secret_window:
  assumes "verifySignatureWithFallback dec hmac now body (Some sig) g (Some pa) = (True, used)"
  shows "\<exists>secret. sig = ''sha256='' @ hmac secret body
    \<and> (if used then \<exists>old. sb_old pa = Some old \<and> decryptWebhookSecret dec old = Some secret
           \<and> (case sb_old_expires_at pa of None \<Rightarrow> True | Some e \<Rightarrow> now < e)
           \<and> (\<forall>cur. decryptWebhookSecret dec (sb_current pa) = Some cur \<longrightarrow> sig \<noteq> ''sha256='' @ hmac cur body)
       else decryptWebhookSecret dec (sb_current pa) = Some secret)"
  using assms
  by (auto simp: verifySignatureWithFallback_def verify_with_fallback_def verifySignature_def Let_def
      split: option.splits if_splits)

abbreviation rotated :: secret_blobs where
  "rotated \<equiv> \<lparr>sb_current = ''nonce-12-byt'' @ ''new'', sb_old = Some (''nonce-12-byt'' @ ''old''),
     sb_old_expires_at = Some 100\<rparr>"

theorem rotated_secret_window_witness:
  "\<exists>secret. ''sha256=oldbody'' = ''sha256='' @ secret @ ''body'' \<and> secret = ''old''"
proof -
  have "verifySignatureWithFallback (\<lambda>enc nonce. Some enc) (\<lambda>k b. k @ b) 50 ''body''
      (Some ''sha256=oldbody'') [] (Some rotated) = (True, True)"
    by code_simp
  from rotated_secret_window [OF this] show ?thesis
    by (auto simp: decryptWebhookSecret_def)
qed

end
