(* ===== verification/Webhook_Pipeline.thy ===== *)
theory Webhook_Pipeline
  imports Push_Filters Build_Queue
begin

text \<open>
  The webhook pipeline: the \<^verbatim>\<open>webhook_deliveries\<close> table and its queries
  (\<^verbatim>\<open>webhooks/deliveries.ts\<close>, \<^verbatim>\<open>packages/db/src/queries/webhook-deliveries.ts\<close>),
  the push handler (\<^verbatim>\<open>webhook-handlers/push.ts\<close>), the normalisation of the
  provider payloads and the receiving routes. The state is the deliveries, the
  builds, the BullMQ queue and the number of ids drawn so far; the queue is any
  type with the operations of the environment record, and what the handler
  relies on is the predicate \<open>bullmq_laws\<close>.
\<close>

section \<open>Rows and state\<close>

datatype provider = Wp_github | Wp_gitlab

datatype delivery_source = Ds_webhook | Ds_replay

datatype sample = Sample_full string | Sample_truncated string

record delivery_row =
  w_id :: ident
  w_app_id :: "ident option"
  w_provider :: provider
  w_delivery_external_id :: "string option"
  w_event :: string
  w_ref :: "string option"
  w_commit_sha :: "string option"
  w_commit_message :: "string option"
  w_signature_valid :: bool
  w_decision :: decision
  w_decision_reason :: "string option"
  w_build_id :: "ident option"
  w_payload_hash :: string
  w_payload_sample :: "sample option"
  w_payload_raw :: "string option"
  w_payload_raw_expires_at :: "instant option"
  w_payload_truncated :: bool
  w_source :: delivery_source
  w_parent_delivery_id :: "ident option"
  w_retry_count :: nat
  w_received_at :: instant
  w_processed_at :: "instant option"

record insert_delivery_row =
  i_app_id :: "ident option"
  i_provider :: provider
  i_delivery_external_id :: "string option"
  i_event :: string
  i_ref :: "string option"
  i_commit_sha :: "string option"
  i_commit_message :: "string option"
  i_signature_valid :: bool
  i_decision :: decision
  i_decision_reason :: "string option"
  i_payload_hash :: string

record push_event =
  e_provider :: provider
  e_repo_full_name :: string
  e_ref :: "string option"
  e_branch :: string
  e_commit_sha :: string
  e_commit_message :: string
  e_changed_files :: "string list option"
  e_payload_hash :: "string option"
  e_raw_body :: "string option"

record deploy_job =
  dj_build_id :: ident
  dj_commit_sha :: string
  dj_commit_message :: string
  dj_tag :: "string option"

record 'q wh_state =
  s_deliveries :: "delivery_row table"
  s_builds :: "build_row table"
  s_queue :: 'q
  s_seed :: nat

text \<open>
  The environment: \<open>nanoid n\<close> is the \<open>n\<close>-th id drawn; \<open>stringify\<close> is
  \<^verbatim>\<open>JSON.stringify\<close> of the sample object; the queue operations are
  \<^verbatim>\<open>getJob(id)\<close> with \<^verbatim>\<open>getState()\<close>, the payload of a job, \<^verbatim>\<open>job.remove()\<close>
  and \<^verbatim>\<open>queue.add\<close> with a custom job id.
\<close>

record 'q wh_env =
  nanoid :: "nat \<Rightarrow> string"
  json_patterns :: "string \<Rightarrow> string list option option"
  glob_match :: "string \<Rightarrow> string \<Rightarrow> bool"
  regexp_test :: "string \<Rightarrow> string \<Rightarrow> bool option"
  stringify :: "insert_delivery_row \<Rightarrow> string"
  gzip :: "string \<Rightarrow> string"
  job_state :: "'q \<Rightarrow> string \<Rightarrow> string option"
  job_data :: "'q \<Rightarrow> string \<Rightarrow> deploy_job option"
  job_remove :: "string \<Rightarrow> 'q \<Rightarrow> 'q"
  job_add :: "string \<Rightarrow> deploy_job \<Rightarrow> 'q \<Rightarrow> 'q"

text \<open>
  What BullMQ documents: removing a job that no worker holds deletes it and
  nothing else; adding under a free id stores the job as waiting; adding under
  a used id changes nothing.
\<close>

definition bullmq_laws :: "'q wh_env \<Rightarrow> bool" where
  "bullmq_laws env \<longleftrightarrow>
     (\<forall>q i. job_state env q i = None \<longleftrightarrow> job_data env q i = None)
     \<and> (\<forall>q i. job_state env q i \<noteq> Some ''active'' \<longrightarrow>
          job_data env (job_remove env i q) = (job_data env q)(i := None)
          \<and> job_state env (job_remove env i q) = (job_state env q)(i := None))
     \<and> (\<forall>q i j. job_data env q i = None \<longrightarrow>
          job_data env (job_add env i j q) = (job_data env q)(i := Some j)
          \<and> job_state env (job_add env i j q) = (job_state env q)(i := Some ''waiting''))
     \<and> (\<forall>q i j. job_data env q i \<noteq> None \<longrightarrow> job_add env i j q = q)"

section \<open>Deliveries\<close>

definition MAX_REPLAYS_PER_DELIVERY :: nat where "MAX_REPLAYS_PER_DELIVERY = 10"

definition MAX_PAYLOAD_RAW_BYTES :: nat where "MAX_PAYLOAD_RAW_BYTES = 1024 * 1024"

definition MAX_PAYLOAD_SAMPLE_BYTES :: nat where "MAX_PAYLOAD_SAMPLE_BYTES = 4096"

definition DEDUP_WINDOW_SECONDS :: int where "DEDUP_WINDOW_SECONDS = 60"

definition compressPayload :: "(string \<Rightarrow> string) \<Rightarrow> string \<Rightarrow> string \<times> bool" where
  "compressPayload gz raw =
     (let truncated = length raw > MAX_PAYLOAD_RAW_BYTES;
          input = (if truncated then take MAX_PAYLOAD_RAW_BYTES raw else raw)
      in (gz input, truncated))"

definition truncateSample :: "string \<Rightarrow> sample" where
  "truncateSample serialised =
     (if length serialised \<le> MAX_PAYLOAD_SAMPLE_BYTES then Sample_full serialised
      else Sample_truncated (take MAX_PAYLOAD_SAMPLE_BYTES serialised))"

definition insertDelivery ::
  "'q wh_env \<Rightarrow> instant \<Rightarrow> insert_delivery_row \<Rightarrow> string option \<Rightarrow> 'q wh_state \<Rightarrow> ident \<times> 'q wh_state" where
  "insertDelivery env now row rawBody st =
     (let i = nanoid env (s_seed st);
          truncated = (case rawBody of None \<Rightarrow> False | Some raw \<Rightarrow> snd (compressPayload (gzip env) raw))
      in (i, st\<lparr>s_seed := s_seed st + 1,
               s_deliveries := s_deliveries st @
                 [\<lparr>w_id = i, w_app_id = i_app_id row, w_provider = i_provider row,
                   w_delivery_external_id = i_delivery_external_id row, w_event = i_event row,
                   w_ref = i_ref row, w_commit_sha = i_commit_sha row,
                   w_commit_message = i_commit_message row, w_signature_valid = i_signature_valid row,
                   w_decision = i_decision row, w_decision_reason = i_decision_reason row,
                   w_build_id = None, w_payload_hash = i_payload_hash row,
                   w_payload_sample = Some (truncateSample (stringify env row)),
                   w_payload_raw = None, w_payload_raw_expires_at = None,
                   w_payload_truncated = truncated, w_source = Ds_webhook,
                   w_parent_delivery_id = None, w_retry_count = 0, w_received_at = now,
                   w_processed_at = Some now\<rparr>]\<rparr>))"

definition findRecentByPayloadHash ::
  "delivery_row table \<Rightarrow> instant \<Rightarrow> string \<Rightarrow> int \<Rightarrow> (ident \<times> decision) option" where
  "findRecentByPayloadHash t now hash withinSeconds =
     map_option (\<lambda>r. (w_id r, w_decision r))
       (select_first (\<lambda>r. w_payload_hash r = hash \<and> w_received_at r \<ge> now - withinSeconds * 1000) t)"

definition markDeliveryCoalesced :: "delivery_row table \<Rightarrow> ident \<Rightarrow> delivery_row table" where
  "markDeliveryCoalesced t i = update_where (\<lambda>r. w_id r = i) (\<lambda>r. r\<lparr>w_decision := D_coalesced\<rparr>) t"

definition findRecentEnqueuedDeliveryByApp :: "delivery_row table \<Rightarrow> ident \<Rightarrow> ident option" where
  "findRecentEnqueuedDeliveryByApp t app =
     map_option w_id (select_first (\<lambda>r. w_app_id r = Some app \<and> w_decision r = D_enqueued) t)"

definition countDeliveriesByApp :: "delivery_row table \<Rightarrow> ident \<Rightarrow> nat" where
  "countDeliveriesByApp t app = length (select_where (\<lambda>r. w_app_id r = Some app) t)"

section \<open>The push handler\<close>

definition createPendingBuild ::
  "'q wh_env \<Rightarrow> instant \<Rightarrow> ident \<Rightarrow> string \<Rightarrow> string \<Rightarrow> build_source \<Rightarrow> 'q wh_state \<Rightarrow> ident \<times> 'q wh_state" where
  "createPendingBuild env now app sha msg src st =
     (let i = nanoid env (s_seed st)
      in (i, st\<lparr>s_seed := s_seed st + 1,
               s_builds := s_builds st @ [(fresh_build i app now)\<lparr>b_commit_sha := Some sha,
                  b_commit_message := Some msg, b_source := src\<rparr>]\<rparr>))"

fun build_source_of :: "provider \<Rightarrow> build_source" where
  "build_source_of Wp_github = Src_webhook_github"
| "build_source_of Wp_gitlab = Src_webhook_gitlab"

fun git_provider_of :: "provider \<Rightarrow> git_provider" where
  "git_provider_of Wp_github = Gp_github"
| "git_provider_of Wp_gitlab = Gp_gitlab"

definition matching_apps :: "app_row table \<Rightarrow> push_event \<Rightarrow> app_row list" where
  "matching_apps apps ev =
     select_where (\<lambda>a. a_git_provider a = Some (git_provider_of (e_provider ev))
                     \<and> a_repo_full_name a = Some (e_repo_full_name ev)) apps"

definition tag_name :: "push_event \<Rightarrow> string option" where
  "tag_name ev =
     (case e_ref ev of
        None \<Rightarrow> None
      | Some r \<Rightarrow> if starts_with ''refs/tags/'' r then Some (strip_prefix ''refs/tags/'' r) else None)"

definition base_delivery_row ::
  "push_event \<Rightarrow> string \<Rightarrow> app_row \<Rightarrow> decision \<Rightarrow> string \<Rightarrow> insert_delivery_row" where
  "base_delivery_row ev deliveryId app d reason =
     \<lparr>i_app_id = Some (a_id app), i_provider = e_provider ev,
      i_delivery_external_id = Some deliveryId, i_event = ''push'',
      i_ref = (case e_ref ev of None \<Rightarrow> Some (e_branch ev) | Some r \<Rightarrow> Some r),
      i_commit_sha = Some (e_commit_sha ev), i_commit_message = Some (e_commit_message ev),
      i_signature_valid = True, i_decision = d, i_decision_reason = Some reason,
      i_payload_hash = (case e_payload_hash ev of None \<Rightarrow> [] | Some h \<Rightarrow> h)\<rparr>"

text \<open>An accepted push: record the delivery, create the build, add the job.\<close>

definition enqueue_deploy ::
  "'q wh_env \<Rightarrow> instant \<Rightarrow> push_event \<Rightarrow> string \<Rightarrow> app_row \<Rightarrow> string \<Rightarrow> string \<Rightarrow>
   'q wh_state \<Rightarrow> 'q wh_state" where
  "enqueue_deploy env now ev deliveryId app reason jobId st =
     (let (_, st1) = insertDelivery env now (base_delivery_row ev deliveryId app D_enqueued reason) (e_raw_body ev) st;
          (buildId, st2) = createPendingBuild env now (a_id app) (e_commit_sha ev) (e_commit_message ev)
                             (build_source_of (e_provider ev)) st1
      in st2\<lparr>s_queue := job_add env jobId
               \<lparr>dj_build_id = buildId, dj_commit_sha = e_commit_sha ev,
                dj_commit_message = e_commit_message ev, dj_tag = None\<rparr> (s_queue st2)\<rparr>)"

definition push_tag ::
  "'q wh_env \<Rightarrow> instant \<Rightarrow> push_event \<Rightarrow> string \<Rightarrow> string \<Rightarrow> app_row \<Rightarrow> 'q wh_state \<Rightarrow> 'q wh_state" where
  "push_tag env now ev deliveryId tagName app st =
     (if \<not> a_deploy_on_tag app then
        snd (insertDelivery env now
          (base_delivery_row ev deliveryId app D_skipped_tag_disabled ''deploy_on_tag=false'') (e_raw_body ev) st)
      else if \<not> matchesTagPattern (regexp_test env) tagName (a_tag_pattern app) then
        snd (insertDelivery env now
          (base_delivery_row ev deliveryId app D_skipped_tag_pattern
            (''tag '' @ [CHR 0x22] @ tagName @ [CHR 0x22] @ '' does not match pattern '' @ [CHR 0x22] @
             (case a_tag_pattern app of None \<Rightarrow> ''null'' | Some p \<Rightarrow> p) @ [CHR 0x22])) (e_raw_body ev) st)
      else
        let (_, st1) = insertDelivery env now
               (base_delivery_row ev deliveryId app D_enqueued ''tag push accepted'') (e_raw_body ev) st;
            jobId = c_job_id (resolveCoalesceJobId (nanoid env (s_seed st1)) False (a_id app) (e_branch ev) None None);
            st2 = st1\<lparr>s_seed := s_seed st1 + 1\<rparr>;
            (buildId, st3) = createPendingBuild env now (a_id app) (e_commit_sha ev) (e_commit_message ev)
               (build_source_of (e_provider ev)) st2
        in st3\<lparr>s_queue := job_add env jobId
                 \<lparr>dj_build_id = buildId, dj_commit_sha = e_commit_sha ev,
                  dj_commit_message = e_commit_message ev, dj_tag = Some tagName\<rparr> (s_queue st3)\<rparr>)"

text \<open>
  The coalescing of a branch push: look up the job of the slot, resolve the
  job id, drop the existing job when asked to and mark the delivery it
  supersedes. The result is the job id and the new state.
\<close>

definition coalesce_push ::
  "'q wh_env \<Rightarrow> push_event \<Rightarrow> app_row \<Rightarrow> 'q wh_state \<Rightarrow> string \<times> 'q wh_state" where
  "coalesce_push env ev app st =
     (let slot = base_key (a_id app) (e_branch ev);
          existingJobState = (if a_coalesce_pushes app then job_state env (s_queue st) slot else None);
          deliveryCount = (if a_coalesce_pushes app \<and> existingJobState = Some ''active''
                           then Some (countDeliveriesByApp (s_deliveries st) (a_id app)) else None);
          res = resolveCoalesceJobId (nanoid env (s_seed st)) (a_coalesce_pushes app) (a_id app)
                  (e_branch ev) existingJobState deliveryCount;
          st1 = (if a_coalesce_pushes app then st else st\<lparr>s_seed := s_seed st + 1\<rparr>)
      in if c_should_drop_existing res \<and> existingJobState \<noteq> None then
           let st2 = st1\<lparr>s_queue := job_remove env slot (s_queue st1)\<rparr>
           in (c_job_id res,
               if c_drop_reason res = Some Superseded_waiting then
                 (case findRecentEnqueuedDeliveryByApp (s_deliveries st2) (a_id app) of
                    None \<Rightarrow> st2
                  | Some d \<Rightarrow> st2\<lparr>s_deliveries := markDeliveryCoalesced (s_deliveries st2) d\<rparr>)
               else st2)
         else (c_job_id res, st1))"

definition push_branch ::
  "'q wh_env \<Rightarrow> instant \<Rightarrow> push_event \<Rightarrow> string \<Rightarrow> app_row \<Rightarrow> 'q wh_state \<Rightarrow> 'q wh_state" where
  "push_branch env now ev deliveryId app st =
     (case filterPushEvent (json_patterns env) (glob_match env) app (e_branch ev) (e_commit_message ev)
             (e_changed_files ev) of
        (d, reason) \<Rightarrow>
          if d \<noteq> D_enqueued then
            snd (insertDelivery env now (base_delivery_row ev deliveryId app d reason) (e_raw_body ev) st)
          else
            (case coalesce_push env ev app st of
               (jobId, st1) \<Rightarrow> enqueue_deploy env now ev deliveryId app reason jobId st1))"

definition push_app ::
  "'q wh_env \<Rightarrow> instant \<Rightarrow> push_event \<Rightarrow> string \<Rightarrow> app_row \<Rightarrow> 'q wh_state \<Rightarrow> 'q wh_state" where
  "push_app env now ev deliveryId app st =
     (case tag_name ev of
        Some tagName \<Rightarrow> push_tag env now ev deliveryId tagName app st
      | None \<Rightarrow> push_branch env now ev deliveryId app st)"

definition handlePushGeneric ::
  "'q wh_env \<Rightarrow> instant \<Rightarrow> app_row table \<Rightarrow> push_event \<Rightarrow> string \<Rightarrow> 'q wh_state \<Rightarrow> 'q wh_state" where
  "handlePushGeneric env now apps ev deliveryId st =
     (let matching = matching_apps apps ev
      in if matching = [] then
           (case e_payload_hash ev of
              None \<Rightarrow> st
            | Some h \<Rightarrow>
                if h = [] then st
                else snd (insertDelivery env now
                  \<lparr>i_app_id = None, i_provider = e_provider ev, i_delivery_external_id = None,
                   i_event = ''push'', i_ref = Some (e_branch ev), i_commit_sha = Some (e_commit_sha ev),
                   i_commit_message = Some (e_commit_message ev), i_signature_valid = True,
                   i_decision = D_skipped_unknown_app,
                   i_decision_reason = Some ''no app matched repo+provider'', i_payload_hash = h\<rparr>
                  (e_raw_body ev) st))
         else fold (push_app env now ev deliveryId) matching st)"

section \<open>Replays\<close>

datatype replay_error = Replay_not_found | Replay_payload_missing | Replay_limit | Replay_bad_payload

text \<open>
  \<open>decode raw\<close> decompresses and parses the stored payload and reads
  \<^verbatim>\<open>repository.full_name\<close> (the empty string when it is absent); \<open>None\<close> stands
  for the exception of a payload that is not compressed JSON.
\<close>

definition replayDelivery ::
  "'q wh_env \<Rightarrow> (string \<Rightarrow> (string \<times> string) option) \<Rightarrow> instant \<Rightarrow> app_row table \<Rightarrow> ident \<Rightarrow> ident \<Rightarrow>
   'q wh_state \<Rightarrow> replay_error + (ident \<times> 'q wh_state)" where
  "replayDelivery env decode now apps deliveryId appId st =
     (case select_first (\<lambda>r. w_id r = deliveryId \<and> w_app_id r = Some appId) (s_deliveries st) of
        None \<Rightarrow> Inl Replay_not_found
      | Some row \<Rightarrow>
          (case w_payload_raw row of
             None \<Rightarrow> Inl Replay_payload_missing
           | Some raw \<Rightarrow>
               if length (select_where (\<lambda>r. w_parent_delivery_id r = Some deliveryId) (s_deliveries st))
                  \<ge> MAX_REPLAYS_PER_DELIVERY then Inl Replay_limit
               else (case decode raw of
                  None \<Rightarrow> Inl Replay_bad_payload
                | Some (rawBody, repo) \<Rightarrow>
                    let ev = \<lparr>e_provider = w_provider row, e_repo_full_name = repo, e_ref = None,
                          e_branch = (case w_ref row of None \<Rightarrow> [] | Some r \<Rightarrow> r),
                          e_commit_sha = (case w_commit_sha row of None \<Rightarrow> [] | Some x \<Rightarrow> x),
                          e_commit_message = (case w_commit_message row of None \<Rightarrow> [] | Some x \<Rightarrow> x),
                          e_changed_files = None, e_payload_hash = Some (w_payload_hash row),
                          e_raw_body = Some rawBody\<rparr>;
                        newId = nanoid env (s_seed st);
                        st1 = st\<lparr>s_seed := s_seed st + 1,
                          s_deliveries := s_deliveries st @
                            [\<lparr>w_id = newId, w_app_id = Some appId, w_provider = w_provider row,
                              w_delivery_external_id = None, w_event = w_event row, w_ref = w_ref row,
                              w_commit_sha = w_commit_sha row, w_commit_message = w_commit_message row,
                              w_signature_valid = True, w_decision = D_enqueued,
                              w_decision_reason = Some ''replay'', w_build_id = None,
                              w_payload_hash = w_payload_hash row, w_payload_sample = None,
                              w_payload_raw = None, w_payload_raw_expires_at = None,
                              w_payload_truncated = False, w_source = Ds_replay,
                              w_parent_delivery_id = Some deliveryId, w_retry_count = 0,
                              w_received_at = now, w_processed_at = Some now\<rparr>]\<rparr>
                    in Inr (newId, handlePushGeneric env now apps ev newId st1))))"

section \<open>Receiving a webhook\<close>

record commit_files =
  cm_message :: string
  cm_added :: "string list option"
  cm_modified :: "string list option"
  cm_removed :: "string list option"

definition or_empty :: "'a list option \<Rightarrow> 'a list" where
  "or_empty x = (case x of None \<Rightarrow> [] | Some xs \<Rightarrow> xs)"

definition changed_files :: "commit_files list option \<Rightarrow> string list" where
  "changed_files commits =
     concat (map (\<lambda>cm. or_empty (cm_added cm) @ or_empty (cm_modified cm) @ or_empty (cm_removed cm))
       (or_empty commits))"

record github_push_payload =
  gh_ref :: string
  gh_after :: string
  gh_full_name :: string
  gh_head_message :: "string option"
  gh_commits :: "commit_files list option"

definition nonempty_files :: "string list \<Rightarrow> string list option" where
  "nonempty_files fs = (if fs = [] then None else Some fs)"

definition github_push_event :: "github_push_payload \<Rightarrow> string \<Rightarrow> string \<Rightarrow> push_event" where
  "github_push_event payload hash body =
     \<lparr>e_provider = Wp_github, e_repo_full_name = gh_full_name payload, e_ref = Some (gh_ref payload),
      e_branch = strip_prefix ''refs/heads/'' (gh_ref payload), e_commit_sha = gh_after payload,
      e_commit_message = or_empty (gh_head_message payload),
      e_changed_files = nonempty_files (changed_files (gh_commits payload)),
      e_payload_hash = (if hash = [] then None else Some hash), e_raw_body = Some body\<rparr>"

record gitlab_push_payload =
  gl_object_kind :: string
  gl_ref :: string
  gl_checkout_sha :: string
  gl_path_with_namespace :: string
  gl_commits :: "commit_files list option"

definition gitlab_push_event :: "gitlab_push_payload \<Rightarrow> string \<Rightarrow> string \<Rightarrow> push_event" where
  "gitlab_push_event payload hash body =
     \<lparr>e_provider = Wp_gitlab, e_repo_full_name = gl_path_with_namespace payload, e_ref = Some (gl_ref payload),
      e_branch = strip_prefix ''refs/heads/'' (gl_ref payload), e_commit_sha = gl_checkout_sha payload,
      e_commit_message = (case or_empty (gl_commits payload) of [] \<Rightarrow> [] | cm # _ \<Rightarrow> cm_message cm),
      e_changed_files = nonempty_files (changed_files (gl_commits payload)),
      e_payload_hash = (if hash = [] then None else Some hash), e_raw_body = Some body\<rparr>"

datatype webhook_reply = Reply_unconfigured | Reply_unauthorized | Reply_dedup | Reply_bad_json | Reply_ok

text \<open>
  The receiving route of GitHub for push deliveries. \<open>secret\<close> is the
  decrypted webhook secret, \<open>None\<close> when the app is not configured; the
  deferred processing runs before the next delivery.
\<close>

definition githubWebhook ::
  "'q wh_env \<Rightarrow> (string \<Rightarrow> string \<Rightarrow> string) \<Rightarrow> (string \<Rightarrow> string) \<Rightarrow> (string \<Rightarrow> github_push_payload option) \<Rightarrow>
   app_row table \<Rightarrow> string option \<Rightarrow> instant \<Rightarrow> string \<Rightarrow> string option \<Rightarrow> string \<Rightarrow> 'q wh_state \<Rightarrow>
   webhook_reply \<times> 'q wh_state" where
  "githubWebhook env hmac sha256 parse apps secret now body signature deliveryId st =
     (case secret of
        None \<Rightarrow> (Reply_unconfigured, st)
      | Some sec \<Rightarrow>
          let payloadHash = sha256 body
          in if sec = [] then (Reply_unconfigured, st)
             else if \<not> verifySignature hmac body signature sec then (Reply_unauthorized, st)
             else if findRecentByPayloadHash (s_deliveries st) now payloadHash DEDUP_WINDOW_SECONDS \<noteq> None
               then (Reply_dedup, st)
             else (case parse body of
                     None \<Rightarrow> (Reply_bad_json, st)
                   | Some payload \<Rightarrow>
                       (Reply_ok, handlePushGeneric env now apps
                          (github_push_event payload payloadHash body) deliveryId st)))"

definition handleGitLabWebhook ::
  "'q wh_env \<Rightarrow> instant \<Rightarrow> app_row table \<Rightarrow> string \<Rightarrow> gitlab_push_payload \<Rightarrow> string \<Rightarrow> string \<Rightarrow> string \<Rightarrow>
   'q wh_state \<Rightarrow> 'q wh_state" where
  "handleGitLabWebhook env now apps event payload deliveryId hash body st =
     (if event \<noteq> ''Push Hook'' then st
      else if gl_object_kind payload \<noteq> ''push'' then st
      else handlePushGeneric env now apps (gitlab_push_event payload hash body) deliveryId st)"

definition gitlabWebhook ::
  "'q wh_env \<Rightarrow> (string \<Rightarrow> string) \<Rightarrow> (string \<Rightarrow> gitlab_push_payload option) \<Rightarrow> app_row table \<Rightarrow>
   string option \<Rightarrow> instant \<Rightarrow> string \<Rightarrow> string option \<Rightarrow> string \<Rightarrow> string \<Rightarrow> 'q wh_state \<Rightarrow>
   webhook_reply \<times> 'q wh_state" where
  "gitlabWebhook env sha256 parse apps secret now body token event deliveryId st =
     (case secret of
        None \<Rightarrow> (Reply_unconfigured, st)
      | Some expected \<Rightarrow>
          let payloadHash = sha256 body
          in if expected = [] then (Reply_unconfigured, st)
             else if \<not> verifyGitLabToken token expected then (Reply_unauthorized, st)
             else if findRecentByPayloadHash (s_deliveries st) now payloadHash DEDUP_WINDOW_SECONDS \<noteq> None
               then (Reply_dedup, st)
             else (case parse body of
                     None \<Rightarrow> (Reply_bad_json, st)
                   | Some payload \<Rightarrow>
                       (Reply_ok, handleGitLabWebhook env now apps event payload deliveryId payloadHash body st)))"

section \<open>The effect of one app\<close>

text \<open>The decision a push gets for an app, whatever the state of the queue.\<close>

definition push_outcome :: "'q wh_env \<Rightarrow> push_event \<Rightarrow> app_row \<Rightarrow> decision" where
  "push_outcome env ev app =
     (case tag_name ev of
        Some tagName \<Rightarrow>
          if \<not> a_deploy_on_tag app then D_skipped_tag_disabled
          else if \<not> matchesTagPattern (regexp_test env) tagName (a_tag_pattern app) then D_skipped_tag_pattern
          else D_enqueued
      | None \<Rightarrow> fst (filterPushEvent (json_patterns env) (glob_match env) app (e_branch ev)
                   (e_commit_message ev) (e_changed_files ev)))"

text \<open>
  The ids drawn from now on are new: no row carries one, and no two draws
  coincide. The tables are keyed by their ids.
\<close>

definition fresh_ids :: "'q wh_env \<Rightarrow> 'q wh_state \<Rightarrow> bool" where
  "fresh_ids env st \<longleftrightarrow> inj (nanoid env) \<and> keyed w_id (s_deliveries st) \<and> keyed b_id (s_builds st)
     \<and> (\<forall>n\<ge>s_seed st. nanoid env n \<notin> w_id ` set (s_deliveries st) \<and> nanoid env n \<notin> b_id ` set (s_builds st))"

definition superseded_by :: "ident \<Rightarrow> delivery_row \<Rightarrow> delivery_row \<Rightarrow> bool" where
  "superseded_by app r r' \<longleftrightarrow> r' = r \<or> (w_app_id r = Some app \<and> w_decision r = D_enqueued
      \<and> r' = r\<lparr>w_decision := D_coalesced\<rparr>)"

definition kept_or_coalesced :: "delivery_row \<Rightarrow> delivery_row \<Rightarrow> bool" where
  "kept_or_coalesced r r' \<longleftrightarrow> r' = r \<or> (w_decision r = D_enqueued \<and> r' = r\<lparr>w_decision := D_coalesced\<rparr>)"

lemma list_all2_map_self: "list_all2 R xs (map f xs) \<longleftrightarrow> (\<forall>x\<in>set xs. R x (f x))"
  by (induction xs) auto

lemma list_all2_right_member: "list_all2 R xs ys \<Longrightarrow> y \<in> set ys \<Longrightarrow> \<exists>x\<in>set xs. R x y"
  by (induction rule: list_all2_induct) auto


lemma superseded_refl [simp]: "list_all2 (superseded_by app) t t"
  by (simp add: list_all2_same superseded_by_def)

lemma mark_supersedes:
  assumes "keyed w_id t" and "findRecentEnqueuedDeliveryByApp t app = Some d"
  shows "list_all2 (superseded_by app) t (markDeliveryCoalesced t d)"
proof -
  from assms(2) obtain r where r: "r \<in> set t" "w_app_id r = Some app" "w_decision r = D_enqueued" "w_id r = d"
    by (auto simp: findRecentEnqueuedDeliveryByApp_def dest: select_first_Some)
  show ?thesis
    unfolding markDeliveryCoalesced_def update_where_def list_all2_map_self superseded_by_def
    using r assms(1) by (auto dest: keyed_unique)
qed

lemma mark_ids [simp]: "map w_id (markDeliveryCoalesced t d) = map w_id t"
  by (simp add: markDeliveryCoalesced_def map_update_where)

lemma coalesce_push_effect:
  assumes "fresh_ids env st" and "coalesce_push env ev app st = (j, st')"
  shows "list_all2 (superseded_by (a_id app)) (s_deliveries st) (s_deliveries st')
    \<and> s_builds st' = s_builds st \<and> fresh_ids env st'"
proof -
  have d: "s_deliveries st' = s_deliveries st \<or>
      (\<exists>d. findRecentEnqueuedDeliveryByApp (s_deliveries st) (a_id app) = Some d
        \<and> s_deliveries st' = markDeliveryCoalesced (s_deliveries st) d)"
    and b: "s_builds st' = s_builds st" and sd: "s_seed st \<le> s_seed st'"
    using assms(2) by (auto simp: coalesce_push_def Let_def split: if_splits option.splits)
  from d have ids: "map w_id (s_deliveries st') = map w_id (s_deliveries st)" by auto
  have "w_id ` set (s_deliveries st') = w_id ` set (s_deliveries st)"
    using arg_cong [OF ids, of set] by simp
  with ids b sd assms(1) have "fresh_ids env st'" by (auto simp: fresh_ids_def keyed_def)
  moreover have "list_all2 (superseded_by (a_id app)) (s_deliveries st) (s_deliveries st')"
    using d assms(1) by (auto simp: fresh_ids_def intro: mark_supersedes)
  ultimately show ?thesis using b by blast
qed

text \<open>What a push leaves in the two tables for one app.\<close>

definition log_entry :: "instant \<Rightarrow> push_event \<Rightarrow> app_row \<Rightarrow> decision \<Rightarrow> delivery_row \<Rightarrow> bool" where
  "log_entry now ev app d r \<longleftrightarrow> w_app_id r = Some (a_id app) \<and> w_decision r = d
     \<and> w_payload_hash r = or_empty (e_payload_hash ev) \<and> w_received_at r = now
     \<and> w_payload_raw r = None \<and> w_parent_delivery_id r = None"

definition new_build :: "instant \<Rightarrow> push_event \<Rightarrow> app_row \<Rightarrow> build_row \<Rightarrow> bool" where
  "new_build now ev app b \<longleftrightarrow>
     (\<exists>i. b = (fresh_build i (a_id app) now)\<lparr>b_commit_sha := Some (e_commit_sha ev),
        b_commit_message := Some (e_commit_message ev), b_source := build_source_of (e_provider ev)\<rparr>)"

definition app_effect ::
  "'q wh_env \<Rightarrow> instant \<Rightarrow> push_event \<Rightarrow> app_row \<Rightarrow> 'q wh_state \<Rightarrow> 'q wh_state \<Rightarrow> bool" where
  "app_effect env now ev app st st' \<longleftrightarrow>
     (\<exists>old row newb. s_deliveries st' = old @ [row]
        \<and> list_all2 (superseded_by (a_id app)) (s_deliveries st) old
        \<and> log_entry now ev app (push_outcome env ev app) row
        \<and> s_builds st' = s_builds st @ newb
        \<and> (if push_outcome env ev app = D_enqueued then \<exists>b. newb = [b] \<and> new_build now ev app b else newb = [])
        \<and> fresh_ids env st')"

lemma insertDelivery_row:
  "\<exists>r. insertDelivery env now row raw st =
      (nanoid env (s_seed st), st\<lparr>s_seed := s_seed st + 1, s_deliveries := s_deliveries st @ [r]\<rparr>)
    \<and> w_id r = nanoid env (s_seed st) \<and> w_app_id r = i_app_id row \<and> w_decision r = i_decision row
    \<and> w_payload_hash r = i_payload_hash row \<and> w_received_at r = now \<and> w_payload_raw r = None
    \<and> w_parent_delivery_id r = None"
  unfolding insertDelivery_def Let_def by (intro exI conjI, rule refl) simp_all

lemma base_row_simps [simp]:
  "i_app_id (base_delivery_row ev did app d rs) = Some (a_id app)"
  "i_decision (base_delivery_row ev did app d rs) = d"
  "i_payload_hash (base_delivery_row ev did app d rs) = or_empty (e_payload_hash ev)"
  by (simp_all add: base_delivery_row_def or_empty_def)

lemma insertDelivery_logs:
  obtains r where
    "insertDelivery env now (base_delivery_row ev did app d rs) raw st =
       (nanoid env (s_seed st), st\<lparr>s_seed := s_seed st + 1, s_deliveries := s_deliveries st @ [r]\<rparr>)"
    "w_id r = nanoid env (s_seed st)" "log_entry now ev app d r"
  using insertDelivery_row [of env now "base_delivery_row ev did app d rs" raw st]
  by (auto simp: log_entry_def)

lemma fresh_ids_insert:
  assumes "fresh_ids env st" and "w_id r = nanoid env (s_seed st)"
  shows "fresh_ids env (st\<lparr>s_seed := s_seed st + 1, s_deliveries := s_deliveries st @ [r]\<rparr>)"
  using assms by (auto simp: fresh_ids_def keyed_snoc dest: injD)

lemma fresh_ids_build:
  assumes "fresh_ids env st" and "b_id b = nanoid env (s_seed st)"
  shows "fresh_ids env (st\<lparr>s_seed := s_seed st + 1, s_builds := s_builds st @ [b]\<rparr>)"
  using assms by (auto simp: fresh_ids_def keyed_snoc dest: injD)

lemma fresh_ids_skip: "fresh_ids env st \<Longrightarrow> fresh_ids env (st\<lparr>s_seed := s_seed st + 1\<rparr>)"
  by (auto simp: fresh_ids_def)

lemma fresh_ids_queue [simp]: "fresh_ids env (st\<lparr>s_queue := q\<rparr>) = fresh_ids env st"
  by (simp add: fresh_ids_def)

lemma createPendingBuild_row:
  obtains b where
    "createPendingBuild env now (a_id app) (e_commit_sha ev) (e_commit_message ev) (build_source_of (e_provider ev)) st =
       (nanoid env (s_seed st), st\<lparr>s_seed := s_seed st + 1, s_builds := s_builds st @ [b]\<rparr>)"
    "b_id b = nanoid env (s_seed st)" "new_build now ev app b"
  by (auto simp: createPendingBuild_def Let_def new_build_def fresh_build_def)

text \<open>A skipped push only logs; an accepted one logs, creates a build and adds a job.\<close>

lemma skipped_effect:
  assumes "fresh_ids env st" and "push_outcome env ev app = d" and "d \<noteq> D_enqueued"
  shows "app_effect env now ev app st (snd (insertDelivery env now (base_delivery_row ev did app d rs) raw st))"
proof -
  obtain r where r: "insertDelivery env now (base_delivery_row ev did app d rs) raw st =
       (nanoid env (s_seed st), st\<lparr>s_seed := s_seed st + 1, s_deliveries := s_deliveries st @ [r]\<rparr>)"
    "w_id r = nanoid env (s_seed st)" "log_entry now ev app d r" by (rule insertDelivery_logs)
  then show ?thesis
    using assms fresh_ids_insert [OF assms(1) r(2)] by (auto simp: app_effect_def)
qed

lemma accepted_effect:
  assumes fr: "fresh_ids env st1" and out: "push_outcome env ev app = D_enqueued"
    and old: "list_all2 (superseded_by (a_id app)) (s_deliveries st) (s_deliveries st1)"
    and same: "s_builds st1 = s_builds st"
  shows "app_effect env now ev app st (enqueue_deploy env now ev did app rs j st1)"
proof -
  obtain r where r: "insertDelivery env now (base_delivery_row ev did app D_enqueued rs) (e_raw_body ev) st1 =
       (nanoid env (s_seed st1), st1\<lparr>s_seed := s_seed st1 + 1, s_deliveries := s_deliveries st1 @ [r]\<rparr>)"
    "w_id r = nanoid env (s_seed st1)" "log_entry now ev app D_enqueued r" by (rule insertDelivery_logs)
  let ?st2 = "st1\<lparr>s_seed := s_seed st1 + 1, s_deliveries := s_deliveries st1 @ [r]\<rparr>"
  obtain b where b: "createPendingBuild env now (a_id app) (e_commit_sha ev) (e_commit_message ev)
        (build_source_of (e_provider ev)) ?st2 =
       (nanoid env (s_seed ?st2), ?st2\<lparr>s_seed := s_seed ?st2 + 1, s_builds := s_builds ?st2 @ [b]\<rparr>)"
    "b_id b = nanoid env (s_seed ?st2)" "new_build now ev app b" by (rule createPendingBuild_row)
  have "fresh_ids env (?st2\<lparr>s_seed := s_seed ?st2 + 1, s_builds := s_builds ?st2 @ [b]\<rparr>)"
    by (rule fresh_ids_build [OF fresh_ids_insert [OF fr r(2)] b(2)])
  then show ?thesis
    using r b out old same by (auto simp: app_effect_def enqueue_deploy_def Let_def)
qed

lemma push_branch_effect:
  assumes fr: "fresh_ids env st" and tag: "tag_name ev = None"
  shows "app_effect env now ev app st (push_branch env now ev did app st)"
proof -
  obtain d rs where f: "filterPushEvent (json_patterns env) (glob_match env) app (e_branch ev)
      (e_commit_message ev) (e_changed_files ev) = (d, rs)" by fastforce
  with tag have out: "push_outcome env ev app = d" by (simp add: push_outcome_def)
  show ?thesis
  proof (cases "d = D_enqueued")
    case False
    then show ?thesis using skipped_effect [OF fr out] f by (simp add: push_branch_def)
  next
    case True
    obtain j st1 where c: "coalesce_push env ev app st = (j, st1)" by fastforce
    show ?thesis
      using accepted_effect [of env st1 ev app st] coalesce_push_effect [OF fr c] out True f c
      by (simp add: push_branch_def)
  qed
qed

lemma push_tag_effect:
  assumes fr: "fresh_ids env st" and tag: "tag_name ev = Some tg"
  shows "app_effect env now ev app st (push_tag env now ev did tg app st)"
proof (cases "a_deploy_on_tag app \<and> matchesTagPattern (regexp_test env) tg (a_tag_pattern app)")
  case False
  with tag have out: "push_outcome env ev app =
      (if a_deploy_on_tag app then D_skipped_tag_pattern else D_skipped_tag_disabled)"
    by (auto simp: push_outcome_def)
  show ?thesis
    using skipped_effect [OF fr out] False by (auto simp: push_tag_def split: if_splits)
next
  case True
  with tag have out: "push_outcome env ev app = D_enqueued" by (simp add: push_outcome_def)
  obtain r where r: "insertDelivery env now (base_delivery_row ev did app D_enqueued ''tag push accepted'') (e_raw_body ev) st =
       (nanoid env (s_seed st), st\<lparr>s_seed := s_seed st + 1, s_deliveries := s_deliveries st @ [r]\<rparr>)"
    "w_id r = nanoid env (s_seed st)" "log_entry now ev app D_enqueued r" by (rule insertDelivery_logs)
  let ?st1 = "st\<lparr>s_seed := s_seed st + 1, s_deliveries := s_deliveries st @ [r]\<rparr>"
  let ?st2 = "?st1\<lparr>s_seed := s_seed ?st1 + 1\<rparr>"
  obtain b where b: "createPendingBuild env now (a_id app) (e_commit_sha ev) (e_commit_message ev)
        (build_source_of (e_provider ev)) ?st2 =
       (nanoid env (s_seed ?st2), ?st2\<lparr>s_seed := s_seed ?st2 + 1, s_builds := s_builds ?st2 @ [b]\<rparr>)"
    "b_id b = nanoid env (s_seed ?st2)" "new_build now ev app b" by (rule createPendingBuild_row)
  have "fresh_ids env (?st2\<lparr>s_seed := s_seed ?st2 + 1, s_builds := s_builds ?st2 @ [b]\<rparr>)"
    by (rule fresh_ids_build [OF fresh_ids_skip [OF fresh_ids_insert [OF fr r(2)]] b(2)])
  then show ?thesis
    using r b out True by (auto simp: app_effect_def push_tag_def Let_def)
qed

lemma push_app_effect: "fresh_ids env st \<Longrightarrow> app_effect env now ev app st (push_app env now ev did app st)"
  by (cases "tag_name ev") (auto simp: push_app_def intro: push_branch_effect push_tag_effect)

text \<open>
  All the matching apps. The rows logged for earlier apps are not touched by
  the later ones, because coalescing only marks rows of the app at hand.
\<close>

definition push_effect ::
  "'q wh_env \<Rightarrow> instant \<Rightarrow> push_event \<Rightarrow> app_row list \<Rightarrow> 'q wh_state \<Rightarrow> 'q wh_state \<Rightarrow> bool" where
  "push_effect env now ev apps st st' \<longleftrightarrow>
     (\<exists>old new newb. s_deliveries st' = old @ new
        \<and> list_all2 kept_or_coalesced (s_deliveries st) old
        \<and> list_all2 (\<lambda>a r. log_entry now ev a (push_outcome env ev a) r) apps new
        \<and> s_builds st' = s_builds st @ newb
        \<and> list_all2 (new_build now ev) (filter (\<lambda>a. push_outcome env ev a = D_enqueued) apps) newb)"

lemma kept_trans:
  "list_all2 kept_or_coalesced t u \<Longrightarrow> list_all2 (superseded_by app) u v \<Longrightarrow> list_all2 kept_or_coalesced t v"
  by (rule list_all2_trans [of kept_or_coalesced "superseded_by app"])
    (auto simp: kept_or_coalesced_def superseded_by_def)

lemma other_rows_kept:
  assumes "list_all2 (superseded_by app) new new'" and "\<forall>r\<in>set new. w_app_id r \<noteq> Some app"
  shows "new' = new"
  using assms by (induction rule: list_all2_induct) (auto simp: superseded_by_def)

lemma push_apps_effect:
  assumes "fresh_ids env st" and "distinct (map a_id apps)"
  shows "push_effect env now ev apps st (fold (push_app env now ev did) apps st)
    \<and> fresh_ids env (fold (push_app env now ev did) apps st)"
  using assms
proof (induction apps rule: rev_induct)
  case Nil
  then show ?case by (auto simp: push_effect_def list_all2_same kept_or_coalesced_def)
next
  case (snoc a as)
  let ?s = "fold (push_app env now ev did) as st"
  from snoc obtain old new newb where IH: "s_deliveries ?s = old @ new"
    "list_all2 kept_or_coalesced (s_deliveries st) old"
    "list_all2 (\<lambda>a r. log_entry now ev a (push_outcome env ev a) r) as new"
    "s_builds ?s = s_builds st @ newb"
    "list_all2 (new_build now ev) (filter (\<lambda>a. push_outcome env ev a = D_enqueued) as) newb" "fresh_ids env ?s"
    by (auto simp: push_effect_def)
  obtain old' row nb where st': "s_deliveries (push_app env now ev did a ?s) = old' @ [row]"
    "list_all2 (superseded_by (a_id a)) (old @ new) old'" "log_entry now ev a (push_outcome env ev a) row"
    "s_builds (push_app env now ev did a ?s) = s_builds ?s @ nb"
    "if push_outcome env ev a = D_enqueued then \<exists>b. nb = [b] \<and> new_build now ev a b else nb = []"
    "fresh_ids env (push_app env now ev did a ?s)"
    using push_app_effect [OF IH(6), of now ev a did] IH(1) by (auto simp: app_effect_def)
  from st'(2) obtain o1 n1 where o1: "old' = o1 @ n1" "list_all2 (superseded_by (a_id a)) old o1"
    "list_all2 (superseded_by (a_id a)) new n1" by (auto simp: list_all2_append1)
  have "\<forall>r\<in>set new. w_app_id r \<noteq> Some (a_id a)"
  proof
    fix r assume "r \<in> set new"
    with IH(3) obtain x where "x \<in> set as" "log_entry now ev x (push_outcome env ev x) r"
      by (blast dest: list_all2_right_member)
    moreover from this snoc.prems(2) have "a_id x \<noteq> a_id a" by (auto simp: image_iff)
    ultimately show "w_app_id r \<noteq> Some (a_id a)" by (simp add: log_entry_def)
  qed
  with o1(3) have n1: "n1 = new" by (rule other_rows_kept)
  have d: "s_deliveries (push_app env now ev did a ?s) = o1 @ (new @ [row])"
    using st'(1) o1(1) n1 by simp
  have k: "list_all2 kept_or_coalesced (s_deliveries st) o1" using IH(2) o1(2) by (rule kept_trans)
  have l: "list_all2 (\<lambda>a r. log_entry now ev a (push_outcome env ev a) r) (as @ [a]) (new @ [row])"
    using IH(3) st'(3) by (auto intro: list_all2_appendI)
  have b: "s_builds (push_app env now ev did a ?s) = s_builds st @ (newb @ nb)" using st'(4) IH(4) by simp
  have nb: "list_all2 (new_build now ev) (filter (\<lambda>a. push_outcome env ev a = D_enqueued) (as @ [a])) (newb @ nb)"
    using IH(5) st'(5) by (auto intro!: list_all2_appendI)
  have "push_effect env now ev (as @ [a]) st (push_app env now ev did a ?s)"
    unfolding push_effect_def using d k l b nb by blast
  then show ?case using st'(6) by simp
qed

lemma matching_distinct: "keyed a_id apps \<Longrightarrow> distinct (map a_id (matching_apps apps ev))"
  by (simp add: matching_apps_def select_where_def keyed_def distinct_map_filter)

lemma handlePush_effect:
  assumes "fresh_ids env st" and "keyed a_id apps" and "matching_apps apps ev \<noteq> []"
  shows "push_effect env now ev (matching_apps apps ev) st (handlePushGeneric env now apps ev did st)"
proof -
  have "handlePushGeneric env now apps ev did st = fold (push_app env now ev did) (matching_apps apps ev) st"
    using assms(3) by (simp add: handlePushGeneric_def Let_def)
  then show ?thesis using push_apps_effect [OF assms(1) matching_distinct [OF assms(2)]] by simp
qed

section \<open>The queue slot\<close>

text \<open>
  The slot of an app and a branch holds at most the latest accepted push:
  whatever was there and is not being worked on is removed, then the new job
  is added under the same key.
\<close>

lemma resolve_not_active:
  assumes "job_st \<noteq> Some ''active''" and "job_st \<noteq> Some []"
  shows "c_job_id (resolveCoalesceJobId rid True app br job_st n) = base_key app br"
    and "c_should_drop_existing (resolveCoalesceJobId rid True app br job_st n) \<longleftrightarrow> job_st \<noteq> None"
  using assms by (auto simp: resolveCoalesceJobId_def Let_def split: option.splits)

lemma coalesce_push_queue:
  assumes laws: "bullmq_laws env" and co: "a_coalesce_pushes app"
    and idle: "job_state env (s_queue st) (base_key (a_id app) (e_branch ev)) \<noteq> Some ''active''"
    and named: "job_state env (s_queue st) (base_key (a_id app) (e_branch ev)) \<noteq> Some []"
    and c: "coalesce_push env ev app st = (j, st1)"
  shows "j = base_key (a_id app) (e_branch ev)
    \<and> job_data env (s_queue st1) = (job_data env (s_queue st))(base_key (a_id app) (e_branch ev) := None)"
proof -
  let ?slot = "base_key (a_id app) (e_branch ev)"
  have r: "c_job_id (resolveCoalesceJobId rid True (a_id app) (e_branch ev) (job_state env (s_queue st) ?slot) n) = ?slot"
    "c_should_drop_existing (resolveCoalesceJobId rid True (a_id app) (e_branch ev) (job_state env (s_queue st) ?slot) n)
      \<longleftrightarrow> job_state env (s_queue st) ?slot \<noteq> None" for rid n
    using resolve_not_active [OF idle named] by auto
  show ?thesis
  proof (cases "job_state env (s_queue st) ?slot")
    case None
    then have "job_data env (s_queue st) ?slot = None" using laws by (simp add: bullmq_laws_def)
    then show ?thesis
      using c None r co by (auto simp: coalesce_push_def Let_def fun_upd_idem)
  next
    case (Some x)
    have "j = ?slot" using c r co by (auto simp: coalesce_push_def Let_def split: if_splits)
    moreover have "s_queue st1 = job_remove env ?slot (s_queue st)"
      using c r co Some by (auto simp: coalesce_push_def Let_def split: if_splits option.splits)
    moreover have "job_data env (job_remove env ?slot (s_queue st)) = (job_data env (s_queue st))(?slot := None)"
      using laws idle by (auto simp: bullmq_laws_def)
    ultimately show ?thesis by simp
  qed
qed

lemma enqueue_deploy_queue:
  "\<exists>b. s_builds (enqueue_deploy env now ev did app rs j st) = s_builds st @ [b] \<and> new_build now ev app b
    \<and> s_queue (enqueue_deploy env now ev did app rs j st) =
        job_add env j \<lparr>dj_build_id = b_id b, dj_commit_sha = e_commit_sha ev,
          dj_commit_message = e_commit_message ev, dj_tag = None\<rparr> (s_queue st)"
proof -
  obtain r where r: "insertDelivery env now (base_delivery_row ev did app D_enqueued rs) (e_raw_body ev) st =
       (nanoid env (s_seed st), st\<lparr>s_seed := s_seed st + 1, s_deliveries := s_deliveries st @ [r]\<rparr>)"
    by (rule insertDelivery_logs)
  let ?st2 = "st\<lparr>s_seed := s_seed st + 1, s_deliveries := s_deliveries st @ [r]\<rparr>"
  obtain b where b: "createPendingBuild env now (a_id app) (e_commit_sha ev) (e_commit_message ev)
        (build_source_of (e_provider ev)) ?st2 =
       (nanoid env (s_seed ?st2), ?st2\<lparr>s_seed := s_seed ?st2 + 1, s_builds := s_builds ?st2 @ [b]\<rparr>)"
    "b_id b = nanoid env (s_seed ?st2)" "new_build now ev app b" by (rule createPendingBuild_row)
  then show ?thesis using r by (auto simp: enqueue_deploy_def Let_def)
qed

lemma push_branch_accepted:
  assumes "tag_name ev = None" and "push_outcome env ev app = D_enqueued"
  obtains j st1 rs where "coalesce_push env ev app st = (j, st1)"
    "push_app env now ev did app st = enqueue_deploy env now ev did app rs j st1"
proof -
  obtain j st1 where "coalesce_push env ev app st = (j, st1)" by fastforce
  moreover obtain rs where "filterPushEvent (json_patterns env) (glob_match env) app (e_branch ev)
      (e_commit_message ev) (e_changed_files ev) = (D_enqueued, rs)"
    using assms by (auto simp: push_outcome_def fst_def split: prod.splits)
  ultimately show ?thesis
    using that assms(1) by (simp add: push_app_def push_branch_def)
qed

lemma coalesce_push_active:
  assumes "a_coalesce_pushes app"
    and "job_state env (s_queue st) (base_key (a_id app) (e_branch ev)) = Some ''active''"
  shows "coalesce_push env ev app st =
    (base_key (a_id app) (e_branch ev) @ ''_r'' @ nat_str (countDeliveriesByApp (s_deliveries st) (a_id app)), st)"
  using assms by (simp add: coalesce_push_def resolveCoalesceJobId_def Let_def)

lemma push_takes_slot:
  assumes "bullmq_laws env" and "a_coalesce_pushes app" and "tag_name ev = None"
    and "push_outcome env ev app = D_enqueued"
    and "job_state env (s_queue st) (base_key (a_id app) (e_branch ev)) \<noteq> Some ''active''"
    and "job_state env (s_queue st) (base_key (a_id app) (e_branch ev)) \<noteq> Some []"
    and "fresh_ids env st"
  shows "\<exists>b. s_builds (push_app env now ev did app st) = s_builds st @ [b] \<and> new_build now ev app b
    \<and> job_data env (s_queue (push_app env now ev did app st)) =
        (job_data env (s_queue st))(base_key (a_id app) (e_branch ev) \<mapsto>
          \<lparr>dj_build_id = b_id b, dj_commit_sha = e_commit_sha ev,
           dj_commit_message = e_commit_message ev, dj_tag = None\<rparr>)
    \<and> job_state env (s_queue (push_app env now ev did app st)) (base_key (a_id app) (e_branch ev)) = Some ''waiting''"
proof -
  obtain j st1 rs where c: "coalesce_push env ev app st = (j, st1)"
    and p: "push_app env now ev did app st = enqueue_deploy env now ev did app rs j st1"
    by (rule push_branch_accepted [OF assms(3,4)])
  have q: "j = base_key (a_id app) (e_branch ev)"
    "job_data env (s_queue st1) = (job_data env (s_queue st))(base_key (a_id app) (e_branch ev) := None)"
    using coalesce_push_queue [OF assms(1,2,5,6) c] by auto
  have "s_builds st1 = s_builds st" using coalesce_push_effect [OF assms(7) c] by blast
  moreover have "job_data env (s_queue st1) j = None" using q by simp
  ultimately show ?thesis
    using enqueue_deploy_queue [of env now ev did app rs j st1] q assms(1)
    by (auto simp: p bullmq_laws_def)
qed



text \<open>
  Replays: the number of rows with a given parent grows by one with each
  successful replay, since the rows the handler itself logs have no parent.
\<close>

definition replay_count :: "ident \<Rightarrow> delivery_row table \<Rightarrow> nat" where
  "replay_count parent t = length (select_where (\<lambda>r. w_parent_delivery_id r = Some parent) t)"

lemma superseded_parent:
  "list_all2 kept_or_coalesced t u \<Longrightarrow> replay_count d u = replay_count d t"
  by (induction rule: list_all2_induct) (auto simp: replay_count_def select_where_def kept_or_coalesced_def)

lemma logged_no_parent:
  assumes "list_all2 (\<lambda>a r. log_entry now ev a (dec a) r) as new"
  shows "replay_count d new = 0"
proof -
  have "w_parent_delivery_id r = None" if r: "r \<in> set new" for r
  proof -
    obtain a where "log_entry now ev a (dec a) r" using list_all2_right_member [OF assms r] by blast
    then show ?thesis by (simp add: log_entry_def)
  qed
  then show ?thesis by (auto simp: replay_count_def select_where_def filter_empty_conv)
qed

lemma replay_count_append [simp]: "replay_count d (t @ u) = replay_count d t + replay_count d u"
  by (simp add: replay_count_def select_where_def)

lemma push_replay_count:
  assumes "fresh_ids env st" and "keyed a_id apps"
  shows "replay_count d (s_deliveries (handlePushGeneric env now apps ev did st)) = replay_count d (s_deliveries st)"
proof (cases "matching_apps apps ev")
  case Nil
  then show ?thesis
    by (auto simp: handlePushGeneric_def Let_def insertDelivery_def replay_count_def select_where_def split: option.splits)
next
  case (Cons a as)
  have "push_effect env now ev (matching_apps apps ev) st (handlePushGeneric env now apps ev did st)"
    using Cons by (intro handlePush_effect [OF assms]) simp
  then show ?thesis
    by (auto simp: push_effect_def logged_no_parent superseded_parent)
qed

section \<open>Properties of the pipeline\<close>

text \<open>
  C7. A push leaves a complete log: for the apps connected to the repository,
  in order, it appends exactly one delivery row with the decision of the filter
  chain and one pending build per accepted app; of the older rows it only turns
  enqueued ones into coalesced ones, and no older build changes.
\<close>

theorem push_logs_every_app:
  assumes "fresh_ids env st" and "keyed a_id apps" and "matching_apps apps ev \<noteq> []"
    and "st' = handlePushGeneric env now apps ev did st"
  shows "\<exists>old new newb. s_deliveries st' = old @ new
    \<and> list_all2 kept_or_coalesced (s_deliveries st) old
    \<and> list_all2 (\<lambda>a r. log_entry now ev a (push_outcome env ev a) r) (matching_apps apps ev) new
    \<and> s_builds st' = s_builds st @ newb
    \<and> list_all2 (new_build now ev)
        (filter (\<lambda>a. push_outcome env ev a = D_enqueued) (matching_apps apps ev)) newb"
  using handlePush_effect [OF assms(1-3), of now did] assms(4) by (simp add: push_effect_def)

text \<open>The concrete environment of the witnesses: the queue is a finite map.\<close>

type_synonym map_queue = "string \<Rightarrow> (string \<times> deploy_job) option"

definition map_env :: "map_queue wh_env" where
  "map_env = \<lparr>nanoid = (\<lambda>n. ''id'' @ nat_str n), json_patterns = (\<lambda>s. Some (Some [s])),
     glob_match = (\<lambda>p s. p = s), regexp_test = (\<lambda>p s. Some (p = s)), stringify = (\<lambda>r. i_event r),
     gzip = (\<lambda>s. s), job_state = (\<lambda>q i. map_option fst (q i)), job_data = (\<lambda>q i. map_option snd (q i)),
     job_remove = (\<lambda>i q. q(i := None)),
     job_add = (\<lambda>i j q. if q i = None then q(i := Some (''waiting'', j)) else q)\<rparr>"

lemma map_env_laws: "bullmq_laws map_env"
  by (auto simp: bullmq_laws_def map_env_def fun_eq_iff)

abbreviation empty_state :: "map_queue wh_state" where
  "empty_state \<equiv> \<lparr>s_deliveries = [], s_builds = [], s_queue = (\<lambda>_. None), s_seed = 0\<rparr>"

lemma empty_fresh: "fresh_ids map_env empty_state"
  by (auto simp: fresh_ids_def map_env_def keyed_def inj_def)

abbreviation web_app :: app_row where
  "web_app \<equiv> (default_app ''a1'' ''p1'' ''web'' 0)\<lparr>a_git_provider := Some Gp_github,
     a_repo_full_name := Some ''o/r'', a_branch := Some ''main''\<rparr>"

abbreviation main_push :: "string \<Rightarrow> push_event" where
  "main_push sha \<equiv> \<lparr>e_provider = Wp_github, e_repo_full_name = ''o/r'', e_ref = Some ''refs/heads/main'',
     e_branch = ''main'', e_commit_sha = sha, e_commit_message = ''fix'', e_changed_files = None,
     e_payload_hash = Some ''h'', e_raw_body = None\<rparr>"

theorem push_logs_every_app_witness:
  "\<exists>old new newb. s_deliveries (handlePushGeneric map_env 5 [web_app] (main_push ''c1'') ''d'' empty_state) = old @ new
    \<and> s_builds (handlePushGeneric map_env 5 [web_app] (main_push ''c1'') ''d'' empty_state) = newb
    \<and> length old = 0 \<and> length new = 1 \<and> length newb = 1"
proof -
  have k: "keyed a_id [web_app]" by (simp add: keyed_def)
  have m: "matching_apps [web_app] (main_push ''c1'') = [web_app]" by code_simp
  have e: "push_outcome map_env (main_push ''c1'') web_app = D_enqueued" by code_simp
  obtain old new newb where
    "s_deliveries (handlePushGeneric map_env 5 [web_app] (main_push ''c1'') ''d'' empty_state) = old @ new"
    "list_all2 kept_or_coalesced (s_deliveries empty_state) old"
    "list_all2 (\<lambda>a r. log_entry 5 (main_push ''c1'') a (push_outcome map_env (main_push ''c1'') a) r)
       (matching_apps [web_app] (main_push ''c1'')) new"
    "s_builds (handlePushGeneric map_env 5 [web_app] (main_push ''c1'') ''d'' empty_state) = s_builds empty_state @ newb"
    "list_all2 (new_build 5 (main_push ''c1''))
        (filter (\<lambda>a. push_outcome map_env (main_push ''c1'') a = D_enqueued) (matching_apps [web_app] (main_push ''c1''))) newb"
    using push_logs_every_app [OF empty_fresh k _ refl, of "main_push ''c1''" 5 "''d''"] m by auto
  then show ?thesis unfolding m by (auto simp: e dest!: list_all2_lengthD)
qed



text \<open>
  A deploy that is being worked on is not disturbed by a new push: its
  job and every other job stay in the queue, and the push gets a job id of its
  own, under which its build is waiting whenever that id is free.
\<close>

theorem active_deploy_not_disturbed:
  assumes "bullmq_laws env" and "a_coalesce_pushes app" and "tag_name ev = None"
    and "push_outcome env ev app = D_enqueued"
    and "job_state env (s_queue st) (base_key (a_id app) (e_branch ev)) = Some ''active''"
    and "j = base_key (a_id app) (e_branch ev) @ ''_r'' @ nat_str (countDeliveriesByApp (s_deliveries st) (a_id app))"
    and "job_data env (s_queue st) j = None"
  shows "\<exists>b. s_builds (push_app env now ev did app st) = s_builds st @ [b] \<and> b_status b = B_pending
    \<and> job_data env (s_queue (push_app env now ev did app st)) = (job_data env (s_queue st))(j \<mapsto>
        \<lparr>dj_build_id = b_id b, dj_commit_sha = e_commit_sha ev,
         dj_commit_message = e_commit_message ev, dj_tag = None\<rparr>)"
proof -
  obtain j' st1 rs where c: "coalesce_push env ev app st = (j', st1)"
    and p: "push_app env now ev did app st = enqueue_deploy env now ev did app rs j' st1"
    by (rule push_branch_accepted [OF assms(3,4)])
  with coalesce_push_active [OF assms(2,5)] assms(6) have "j' = j" "st1 = st" by auto
  then show ?thesis
    using enqueue_deploy_queue [of env now ev did app rs j st] assms(1,7)
    by (auto simp: p bullmq_laws_def new_build_def fresh_build_def)
qed

abbreviation busy_state :: "map_queue wh_state" where
  "busy_state \<equiv> empty_state\<lparr>s_queue := (\<lambda>_. None)(''deploy:a1:main'' \<mapsto>
     (''active'', \<lparr>dj_build_id = ''b0'', dj_commit_sha = ''c0'', dj_commit_message = ''x'', dj_tag = None\<rparr>))\<rparr>"

theorem active_deploy_not_disturbed_witness:
  "\<exists>b. s_builds (push_app map_env 5 (main_push ''c1'') ''d'' web_app busy_state) = [b]
    \<and> map_option dj_build_id
        (job_data map_env (s_queue (push_app map_env 5 (main_push ''c1'') ''d'' web_app busy_state)) ''deploy:a1:main'')
        = Some ''b0''
    \<and> map_option dj_build_id
        (job_data map_env (s_queue (push_app map_env 5 (main_push ''c1'') ''d'' web_app busy_state)) ''deploy:a1:main_r0'')
        = Some (b_id b)"
proof -
  have 1: "a_coalesce_pushes web_app" by code_simp
  have 2: "tag_name (main_push ''c1'') = None" by code_simp
  have 3: "push_outcome map_env (main_push ''c1'') web_app = D_enqueued" by code_simp
  have 5: "base_key (a_id web_app) (e_branch (main_push ''c1'')) = ''deploy:a1:main''" by code_simp
  have 4: "job_state map_env (s_queue busy_state) (base_key (a_id web_app) (e_branch (main_push ''c1''))) = Some ''active''"
    unfolding 5 by (simp add: map_env_def)
  have 6: "''deploy:a1:main_r0'' = base_key (a_id web_app) (e_branch (main_push ''c1'')) @ ''_r'' @
      nat_str (countDeliveriesByApp (s_deliveries busy_state) (a_id web_app))" by code_simp
  have 7: "job_data map_env (s_queue busy_state) ''deploy:a1:main_r0'' = None" by (simp add: map_env_def)
  have 8: "map_option dj_build_id (job_data map_env (s_queue busy_state) ''deploy:a1:main'') = Some ''b0''"
    by (simp add: map_env_def)
  show ?thesis
    using active_deploy_not_disturbed [OF map_env_laws 1 2 3 4 6 7, of 5 "''d''"] 8 by auto
qed


abbreviation plain_hmac :: "string \<Rightarrow> string \<Rightarrow> string" where "plain_hmac \<equiv> \<lambda>k b. k @ b"

abbreviation parse_main :: "string \<Rightarrow> github_push_payload option" where
  "parse_main \<equiv> \<lambda>b. Some \<lparr>gh_ref = ''refs/heads/main'', gh_after = b, gh_full_name = ''o/r'',
     gh_head_message = None, gh_commits = None\<rparr>"


text \<open>
  C23. Only authentic deliveries have an effect: when the state changes, or the
  reply is positive, the signature header is the HMAC of the body under the
  configured, non-empty secret.
\<close>

theorem unsigned_webhook_has_no_effect:
  assumes "githubWebhook env hmac sha parse apps secret now body sig did st = (reply, st')"
    and "st' \<noteq> st \<or> reply = Reply_ok \<or> reply = Reply_dedup"
  shows "\<exists>sec. secret = Some sec \<and> sec \<noteq> [] \<and> sig = Some (''sha256='' @ hmac sec body)"
  using assms
  by (auto simp: githubWebhook_def verifySignature_def Let_def split: option.splits if_splits)

theorem unsigned_webhook_has_no_effect_witness:
  "\<exists>sec. Some ''k'' = Some sec \<and> sec \<noteq> [] \<and> Some ''sha256=kbody'' = Some (''sha256='' @ plain_hmac sec ''body'')"
proof -
  let ?r = "githubWebhook map_env plain_hmac (\<lambda>b. b) parse_main [web_app] (Some ''k'') 0 ''body''
        (Some ''sha256=kbody'') ''d1'' empty_state"
  have "fst ?r = Reply_ok"
    by (simp add: githubWebhook_def verifySignature_def findRecentByPayloadHash_def select_first_def starts_with_def)
  then have "?r = (Reply_ok, snd ?r)" by (cases ?r) auto
  from unsigned_webhook_has_no_effect [OF this] show ?thesis by blast
qed

text \<open>
  A delivery is replayed at most ten times: a replay succeeds only while
  fewer than ten replays of it are recorded, and then records exactly one more.
\<close>

theorem replay_limit:
  assumes "replayDelivery env decode now apps did app st = Inr (new, st')"
    and "fresh_ids env st" and "keyed a_id apps"
  shows "replay_count did (s_deliveries st) < 10
    \<and> replay_count did (s_deliveries st') = replay_count did (s_deliveries st) + 1"
proof -
  obtain row ev st1 where st1: "st' = handlePushGeneric env now apps ev new st1"
    "s_deliveries st1 = s_deliveries st @ [row]" "w_parent_delivery_id row = Some did"
    "w_id row = nanoid env (s_seed st)" "st1 = st\<lparr>s_seed := s_seed st + 1, s_deliveries := s_deliveries st @ [row]\<rparr>"
    and lim: "replay_count did (s_deliveries st) < 10"
    using assms(1)
    by (auto simp: replayDelivery_def Let_def MAX_REPLAYS_PER_DELIVERY_def replay_count_def
        split: option.splits if_splits prod.splits)
  have "fresh_ids env st1" unfolding st1(5) by (rule fresh_ids_insert [OF assms(2) st1(4)])
  then have "replay_count did (s_deliveries st') = replay_count did (s_deliveries st @ [row])"
    unfolding st1(1) by (simp add: push_replay_count [OF _ assms(3)] st1(2))
  moreover have "replay_count did [row] = 1" using st1(3) by (simp add: replay_count_def select_where_def)
  ultimately show ?thesis using lim by simp
qed

abbreviation stored_delivery :: delivery_row where
  "stored_delivery \<equiv> \<lparr>w_id = ''d0'', w_app_id = Some ''a1'', w_provider = Wp_github,
     w_delivery_external_id = None, w_event = ''push'', w_ref = Some ''refs/heads/main'',
     w_commit_sha = Some ''c'', w_commit_message = Some ''m'', w_signature_valid = True,
     w_decision = D_enqueued, w_decision_reason = None, w_build_id = None, w_payload_hash = ''h'',
     w_payload_sample = None, w_payload_raw = Some ''raw'', w_payload_raw_expires_at = None,
     w_payload_truncated = False, w_source = Ds_webhook, w_parent_delivery_id = None,
     w_retry_count = 0, w_received_at = 0, w_processed_at = None\<rparr>"

abbreviation stored_state :: "map_queue wh_state" where
  "stored_state \<equiv> empty_state\<lparr>s_deliveries := [stored_delivery]\<rparr>"

lemma stored_fresh: "fresh_ids map_env stored_state"
  by (auto simp: fresh_ids_def map_env_def keyed_def inj_def)

theorem replay_limit_witness:
  "replay_count ''d0'' (s_deliveries (snd (projr
      (replayDelivery map_env (\<lambda>raw. Some (raw, ''o/r'')) 9 [web_app] ''d0'' ''a1'' stored_state)))) = 1"
proof -
  let ?r = "replayDelivery map_env (\<lambda>raw. Some (raw, ''o/r'')) 9 [web_app] ''d0'' ''a1'' stored_state"
  have ok: "?r = Inr (fst (projr ?r), snd (projr ?r))"
    by (simp add: replayDelivery_def Let_def select_first_def select_where_def MAX_REPLAYS_PER_DELIVERY_def)
  have k: "keyed a_id [web_app]" by (simp add: keyed_def)
  from replay_limit [OF ok stored_fresh k]
  show ?thesis by (simp add: replay_count_def select_where_def)
qed

text \<open>
  No row written by the pipeline carries its payload, so a replay of such a
  row always fails for want of a payload.
\<close>

lemma logged_rows_not_replayable:
  assumes "\<forall>r\<in>set (s_deliveries st). w_payload_raw r = None"
  shows "\<exists>e. replayDelivery env decode now apps did app st = Inl e \<and> e \<in> {Replay_not_found, Replay_payload_missing}"
proof (cases "select_first (\<lambda>r. w_id r = did \<and> w_app_id r = Some app) (s_deliveries st)")
  case None
  then show ?thesis by (simp add: replayDelivery_def)
next
  case (Some row)
  then have "row \<in> set (s_deliveries st)" by (auto dest: select_first_Some)
  with assms Some show ?thesis by (simp add: replayDelivery_def)
qed

text \<open>
  A replay passes the stored ref as the branch. A branch push is stored with
  its full ref, so its replay is skipped by the branch filter of an app that
  deploys that branch.
\<close>

lemma replay_of_branch_push_is_skipped:
  assumes "a_auto_deploy_enabled app" and "a_branch app = Some br" and "br \<noteq> []"
  shows "fst (filterPushEvent parse glob app (''refs/heads/'' @ br) msg files) = D_skipped_branch"
  using assms by (simp add: filterPushEvent_def)

text \<open>
  Coalescing removes the superseded job but not its build. When the slot
  holds the only job of a pending build, an accepted push leaves that build
  pending with no job of the queue referring to it; only the reaper will end it.
\<close>

theorem superseded_build_is_orphaned:
  assumes "bullmq_laws env" and "a_coalesce_pushes app" and "tag_name ev = None"
    and "push_outcome env ev app = D_enqueued"
    and "job_state env (s_queue st) (base_key (a_id app) (e_branch ev)) = Some ''waiting''"
    and "fresh_ids env st" and "b0 \<in> set (s_builds st)" and "b_status b0 = B_pending"
    and "\<forall>i j. job_data env (s_queue st) i = Some j \<and> i \<noteq> base_key (a_id app) (e_branch ev) \<longrightarrow> dj_build_id j \<noteq> b_id b0"
  shows "b0 \<in> set (s_builds (push_app env now ev did app st))
    \<and> (\<forall>i j. job_data env (s_queue (push_app env now ev did app st)) i = Some j \<longrightarrow> dj_build_id j \<noteq> b_id b0)"
proof -
  let ?st' = "push_app env now ev did app st" and ?slot = "base_key (a_id app) (e_branch ev)"
  obtain b where b: "s_builds ?st' = s_builds st @ [b]"
    "job_data env (s_queue ?st') = (job_data env (s_queue st))(?slot \<mapsto>
       \<lparr>dj_build_id = b_id b, dj_commit_sha = e_commit_sha ev,
        dj_commit_message = e_commit_message ev, dj_tag = None\<rparr>)"
    using push_takes_slot [OF assms(1-4) _ _ assms(6)] assms(5) by auto
  have "fresh_ids env ?st'" using push_app_effect [OF assms(6)] by (auto simp: app_effect_def)
  then have "keyed b_id (s_builds st @ [b])" using b(1) by (simp add: fresh_ids_def)
  then have "b_id b \<noteq> b_id b0" using assms(7) by (auto simp: keyed_snoc)
  then show ?thesis using b assms(7,9) by auto
qed

abbreviation waiting_state :: "map_queue wh_state" where
  "waiting_state \<equiv> empty_state\<lparr>s_builds := [fresh_build ''b0'' ''a1'' 0], s_queue := (\<lambda>_. None)(''deploy:a1:main'' \<mapsto>
     (''waiting'', \<lparr>dj_build_id = ''b0'', dj_commit_sha = ''c0'', dj_commit_message = ''x'', dj_tag = None\<rparr>))\<rparr>"

lemma waiting_fresh: "fresh_ids map_env waiting_state"
  by (auto simp: fresh_ids_def map_env_def keyed_def inj_def fresh_build_def)

theorem superseded_build_is_orphaned_witness:
  "fresh_build ''b0'' ''a1'' 0 \<in> set (s_builds (push_app map_env 5 (main_push ''c1'') ''d'' web_app waiting_state))"
proof -
  have 1: "a_coalesce_pushes web_app" by code_simp
  have 2: "tag_name (main_push ''c1'') = None" by code_simp
  have 3: "push_outcome map_env (main_push ''c1'') web_app = D_enqueued" by code_simp
  have 5: "base_key (a_id web_app) (e_branch (main_push ''c1'')) = ''deploy:a1:main''" by code_simp
  have 4: "job_state map_env (s_queue waiting_state) (base_key (a_id web_app) (e_branch (main_push ''c1''))) = Some ''waiting''"
    unfolding 5 by (simp add: map_env_def)
  have 6: "fresh_build ''b0'' ''a1'' 0 \<in> set (s_builds waiting_state)"
    "b_status (fresh_build ''b0'' ''a1'' 0) = B_pending" by (simp_all add: fresh_build_def)
  have 7: "\<forall>i j. job_data map_env (s_queue waiting_state) i = Some j \<and>
      i \<noteq> base_key (a_id web_app) (e_branch (main_push ''c1'')) \<longrightarrow> dj_build_id j \<noteq> b_id (fresh_build ''b0'' ''a1'' 0)"
    unfolding 5 by (simp add: map_env_def)
  show ?thesis
    using superseded_build_is_orphaned [OF map_env_laws 1 2 3 4 waiting_fresh 6 7] by blast
qed

end
