(* ===== verification/Runtime_Names.thy ===== *)
theory Runtime_Names
  imports App_Rows
begin

text \<open>
  Names of runtime containers and image repositories, and the choice of the
  container of an app among the snapshots of the agent
  (\<^verbatim>\<open>services/runtime-containers.ts\<close>), with the name rule the agent enforces
  on them (\<^verbatim>\<open>agent/ploydok-agent/src/validator.rs\<close>).
\<close>

section \<open>Definitions\<close>

datatype container_color = Blue | Green

fun color_str :: "container_color \<Rightarrow> string" where
  "color_str Blue = ''blue''"
| "color_str Green = ''green''"

definition is_alnum :: "char \<Rightarrow> bool" where
  "is_alnum c \<longleftrightarrow> is_lower c \<or> is_digit c"

definition is_dash :: "char \<Rightarrow> bool" where
  "is_dash c \<longleftrightarrow> c = CHR ''-''"

text \<open>\<^verbatim>\<open>s.replace(/P+/g, "-")\<close>: every maximal run of characters with \<open>P\<close> becomes one dash.\<close>

function (sequential) replace_runs :: "(char \<Rightarrow> bool) \<Rightarrow> string \<Rightarrow> string" where
  "replace_runs P [] = []"
| "replace_runs P (c # s) =
     (if P c then CHR ''-'' # replace_runs P (dropWhile P s) else c # replace_runs P s)"
  by pat_completeness auto
termination
  by (relation "measure (\<lambda>(P, s). length s)") (auto simp: le_imp_less_Suc length_dropWhile_le)

definition trim_dashes :: "string \<Rightarrow> string" where
  "trim_dashes s = rev (dropWhile is_dash (rev (dropWhile is_dash s)))"

definition normalizeRuntimeContainerSlug :: "string \<Rightarrow> string" where
  "normalizeRuntimeContainerSlug slug =
     (let normalized = take 32 (trim_dashes (replace_runs is_dash
            (replace_runs (\<lambda>c. \<not> (is_alnum c \<or> is_dash c)) (to_lower slug))))
      in if normalized = [] then ''app'' else normalized)"

definition imageRepoForApp :: "ident \<Rightarrow> string" where
  "imageRepoForApp appId =
     (let sanitized = trim_dashes (replace_runs (\<lambda>c. \<not> is_alnum c) (to_lower appId))
      in ''app-'' @ (if sanitized = [] then ''anon'' else sanitized))"

definition runtimeContainerShortId :: "ident \<Rightarrow> string" where
  "runtimeContainerShortId appId =
     take 8 (dropWhile is_dash (replace_runs (\<lambda>c. \<not> (is_alnum c \<or> is_dash c)) (to_lower appId)))"

definition runtimeContainerName :: "app_row \<Rightarrow> container_color \<Rightarrow> string" where
  "runtimeContainerName app color =
     ''ploydok-app-'' @ normalizeRuntimeContainerSlug (a_slug app) @ ''-'' @
     runtimeContainerShortId (a_id app) @ ''-'' @ color_str color"

definition legacyRuntimeContainerName :: "ident \<Rightarrow> container_color \<Rightarrow> string" where
  "legacyRuntimeContainerName appId color = ''ploydok-app-'' @ to_lower appId @ ''-'' @ color_str color"

definition runtimeContainerNameCandidates :: "app_row \<Rightarrow> container_color \<Rightarrow> string list" where
  "runtimeContainerNameCandidates app color =
     (let a = runtimeContainerName app color; b = legacyRuntimeContainerName (a_id app) color
      in if a = b then [a] else [a, b])"

definition inferContainerColor :: "string option \<Rightarrow> container_color option" where
  "inferContainerColor containerRef =
     (case containerRef of
        None \<Rightarrow> None
      | Some s \<Rightarrow>
          if s = [] then None
          else if str_includes ''-blue'' s then Some Blue
          else if str_includes ''-green'' s then Some Green
          else None)"

section \<open>Snapshots\<close>

datatype container_status = C_running | C_starting | C_unhealthy | C_stopped | C_unknown

datatype container_kind = Ck_app | Ck_infra | Ck_agent | Ck_database

record container_snapshot =
  k_id :: string
  k_name :: string
  k_image :: string
  k_status :: container_status
  k_restart_count :: nat
  k_kind :: "container_kind option"
  k_app_id :: "ident option"
  k_color :: "container_color option"
  k_last_seen_ms :: instant

fun STATUS_PRIORITY :: "container_status \<Rightarrow> nat" where
  "STATUS_PRIORITY C_running = 4"
| "STATUS_PRIORITY C_unhealthy = 3"
| "STATUS_PRIORITY C_starting = 2"
| "STATUS_PRIORITY C_stopped = 1"
| "STATUS_PRIORITY C_unknown = 0"

definition is_app_container :: "ident \<Rightarrow> container_snapshot \<Rightarrow> bool" where
  "is_app_container appId c \<longleftrightarrow> k_app_id c = Some appId \<and> (k_kind c = None \<or> k_kind c = Some Ck_app)"

definition better_container :: "container_snapshot \<Rightarrow> container_snapshot \<Rightarrow> bool" where
  "better_container c selected \<longleftrightarrow>
     STATUS_PRIORITY (k_status c) > STATUS_PRIORITY (k_status selected)
     \<or> (STATUS_PRIORITY (k_status c) = STATUS_PRIORITY (k_status selected)
        \<and> k_last_seen_ms c > k_last_seen_ms selected)"

fun select_best :: "ident \<Rightarrow> container_snapshot option \<Rightarrow> container_snapshot list \<Rightarrow> container_snapshot option" where
  "select_best appId selected [] = selected"
| "select_best appId selected (c # cs) =
     (if \<not> is_app_container appId c then select_best appId selected cs
      else case selected of
             None \<Rightarrow> select_best appId (Some c) cs
           | Some s \<Rightarrow> select_best appId (Some (if better_container c s then c else s)) cs)"

definition selectBestAppContainer :: "container_snapshot list \<Rightarrow> ident \<Rightarrow> container_snapshot option" where
  "selectBestAppContainer containers appId = select_best appId None containers"

definition resolveRuntimeContainer ::
  "container_snapshot list \<Rightarrow> ident \<Rightarrow> string option \<Rightarrow> container_snapshot option" where
  "resolveRuntimeContainer snapshots appId preferred =
     (case (if truthy preferred
            then find (\<lambda>c. k_id c = the preferred \<or> k_name c = the preferred) snapshots else None) of
        Some c \<Rightarrow> Some c
      | None \<Rightarrow> selectBestAppContainer snapshots appId)"

section \<open>The agent's name rule\<close>

text \<open>\<^verbatim>\<open>^ploydok-[a-z0-9][a-z0-9-]{0,62}$\<close>\<close>

definition agent_container_name :: "string \<Rightarrow> bool" where
  "agent_container_name name \<longleftrightarrow>
     starts_with ''ploydok-'' name
     \<and> (case drop 8 name of
          [] \<Rightarrow> False
        | c # rest \<Rightarrow> is_alnum c \<and> length rest \<le> 62 \<and> list_all (\<lambda>x. is_alnum x \<or> is_dash x) rest)"

section \<open>Lemmas on normalisation\<close>

lemma is_dash_simps [simp]: "is_dash CHR ''-''"
  by (simp add: is_dash_def)

lemma replace_runs_chars:
  "x \<in> set (replace_runs P s) \<Longrightarrow> x = CHR ''-'' \<or> (\<not> P x \<and> x \<in> set s)"
  by (induction P s rule: replace_runs.induct) (auto split: if_splits dest: set_dropWhileD)

lemma trim_dashes_set: "set (trim_dashes s) \<subseteq> set s"
  by (auto simp: trim_dashes_def dest!: set_dropWhileD)

lemma slug_chars:
  "x \<in> set (normalizeRuntimeContainerSlug slug) \<Longrightarrow> is_alnum x \<or> is_dash x"
  by (auto simp: normalizeRuntimeContainerSlug_def Let_def is_alnum_def is_lower_def is_dash_def split: if_splits
      dest!: in_set_takeD subsetD [OF trim_dashes_set] replace_runs_chars)

lemma short_id_chars: "x \<in> set (runtimeContainerShortId i) \<Longrightarrow> is_alnum x \<or> is_dash x"
  by (auto simp: runtimeContainerShortId_def is_dash_def dest!: in_set_takeD set_dropWhileD replace_runs_chars)

lemma slug_length: "length (normalizeRuntimeContainerSlug slug) \<le> 32" "normalizeRuntimeContainerSlug slug \<noteq> []"
  by (auto simp: normalizeRuntimeContainerSlug_def Let_def)

lemma short_id_length: "length (runtimeContainerShortId i) \<le> 8"
  by (simp add: runtimeContainerShortId_def)

lemma color_str_chars: "x \<in> set (color_str c) \<Longrightarrow> is_alnum x"
  by (cases c) (auto simp: is_alnum_def is_lower_def)

lemma color_str_length: "length (color_str c) \<le> 5"
  by (cases c) auto

lemma names_by_color:
  "n \<in> set (runtimeContainerNameCandidates app Blue) \<Longrightarrow> last n = CHR ''e''"
  "n \<in> set (runtimeContainerNameCandidates app Green) \<Longrightarrow> last n = CHR ''n''"
  by (auto simp: runtimeContainerNameCandidates_def runtimeContainerName_def legacyRuntimeContainerName_def
      Let_def split: if_splits)

lemma names_of_other_color:
  assumes "c \<noteq> d"
  shows "runtimeContainerName app c \<notin> set (runtimeContainerNameCandidates app d)"
proof -
  have own: "runtimeContainerName app c \<in> set (runtimeContainerNameCandidates app c)"
    by (simp add: runtimeContainerNameCandidates_def Let_def)
  show ?thesis
    using own assms names_by_color [of _ app] by (cases c; cases d) fastforce+
qed

text \<open>
  An occurrence of \<^verbatim>\<open>-blue\<close> cannot straddle the start of \<^verbatim>\<open>-green\<close>: the
  pattern has its only dash in front.
\<close>

lemma dash_pattern_straddle:
  assumes "str_includes (CHR ''-'' # p) (u @ CHR ''-'' # v)" and "CHR ''-'' \<notin> set p"
  shows "str_includes (CHR ''-'' # p) u \<or> str_includes (CHR ''-'' # p) (CHR ''-'' # v)"
proof -
  obtain x y where xy: "u @ CHR ''-'' # v = x @ (CHR ''-'' # p) @ y"
    using assms(1) by (auto simp: str_includes_iff)
  show ?thesis
  proof (cases "length x < length u")
    case False
    then obtain z where "x = u @ z" using xy
      by (metis append_eq_append_conv_if append_take_drop_id linorder_not_less)
    with xy have "CHR ''-'' # v = z @ (CHR ''-'' # p) @ y" by simp
    then have "str_includes (CHR ''-'' # p) (CHR ''-'' # v)" unfolding str_includes_iff by blast
    then show ?thesis ..
  next
    case True
    with xy obtain z where z: "u = x @ z" "z \<noteq> []"
      by (metis append_eq_append_conv2 append_take_drop_id length_append linorder_not_less not_add_less1
          append_eq_append_conv_if le_add1 nat_less_le self_append_conv)
    with xy have "z @ CHR ''-'' # v = CHR ''-'' # p @ y" by simp
    with z(2) obtain z' where z': "z = CHR ''-'' # z'" "z' @ CHR ''-'' # v = p @ y" by (cases z) auto
    have "length p \<le> length z'"
    proof (rule ccontr)
      assume "\<not> length p \<le> length z'"
      then have "p ! length z' = CHR ''-''" using z'(2)
        by (metis leI nth_append nth_append_length)
      then show False using assms(2) \<open>\<not> length p \<le> length z'\<close> by (metis leI nth_mem)
    qed
    then obtain w where "z' = p @ w" using z'(2) by (metis append_eq_append_conv_if append_take_drop_id)
    then show ?thesis using z z' by (auto simp: str_includes_iff)
  qed
qed

definition name_stem :: "app_row \<Rightarrow> string" where
  "name_stem app = ''ploydok-app-'' @ normalizeRuntimeContainerSlug (a_slug app) @ ''-'' @
     runtimeContainerShortId (a_id app)"

lemma runtimeContainerName_stem: "runtimeContainerName app c = name_stem app @ CHR ''-'' # color_str c"
  by (simp add: runtimeContainerName_def name_stem_def)

lemma includes_green_suffix: "str_includes ''-blue'' (u @ ''-green'') \<longleftrightarrow> str_includes ''-blue'' u"
proof
  assume "str_includes ''-blue'' (u @ ''-green'')"
  then have "str_includes ''-blue'' u \<or> str_includes ''-blue'' ''-green''"
    using dash_pattern_straddle [of "''blue''" u "''green''"] by simp
  then show "str_includes ''-blue'' u" by (simp add: starts_with_def)
qed (rule str_includes_prefix)

lemma runtime_name_accepted:
  "agent_container_name (runtimeContainerName app color)"
proof -
  let ?rest = "''pp-'' @ normalizeRuntimeContainerSlug (a_slug app) @ ''-'' @
     runtimeContainerShortId (a_id app) @ ''-'' @ color_str color"
  have "list_all (\<lambda>x. is_alnum x \<or> is_dash x) ?rest"
    using slug_chars short_id_chars color_str_chars
    by (auto simp: list_all_iff) (auto simp: is_alnum_def is_lower_def)
  moreover have "length ?rest \<le> 62"
    using slug_length(1) [of "a_slug app"] short_id_length [of "a_id app"] color_str_length [of color] by simp
  moreover have "is_alnum CHR ''a''" by (simp add: is_alnum_def is_lower_def)
  ultimately show ?thesis
    by (simp add: agent_container_name_def runtimeContainerName_def starts_with_def)
qed

section \<open>Lemmas on the choice of a container\<close>

lemma better_trans: "better_container a b \<Longrightarrow> better_container b c \<Longrightarrow> better_container a c"
  by (auto simp: better_container_def)

lemma not_better_trans: "\<not> better_container a b \<Longrightarrow> \<not> better_container b c \<Longrightarrow> \<not> better_container a c"
  by (auto simp: better_container_def)

lemma select_best_spec:
  "select_best appId sel cs = Some best \<Longrightarrow>
     (sel = Some best \<or> (best \<in> set cs \<and> is_app_container appId best))
     \<and> (\<forall>c\<in>set cs. is_app_container appId c \<longrightarrow> \<not> better_container c best)
     \<and> (\<forall>s. sel = Some s \<longrightarrow> \<not> better_container s best)"
proof (induction cs arbitrary: sel)
  case Nil
  then show ?case by (auto simp: better_container_def)
next
  case (Cons c cs)
  show ?case
  proof (cases "is_app_container appId c")
    case False
    with Cons show ?thesis by auto
  next
    case True
    show ?thesis
    proof (cases sel)
      case None
      with True Cons.prems have "select_best appId (Some c) cs = Some best" by simp
      with Cons.IH [of "Some c"] True None show ?thesis by auto
    next
      case (Some s)
      let ?n = "if better_container c s then c else s"
      have "select_best appId (Some ?n) cs = Some best" using True Some Cons.prems by simp
      note IH = Cons.IH [OF this]
      then have n: "\<not> better_container ?n best" by blast
      have "\<not> better_container c best" "\<not> better_container s best"
        using n by (cases "better_container c s"; auto dest: better_trans not_better_trans)+
      moreover have "best = ?n \<or> best \<in> set cs \<and> is_app_container appId best" using IH by blast
      ultimately show ?thesis using IH Some True by (cases "better_container c s") auto
    qed
  qed
qed

lemma select_best_None: "select_best appId sel cs = None \<longleftrightarrow> sel = None \<and> (\<forall>c\<in>set cs. \<not> is_app_container appId c)"
  by (induction cs arbitrary: sel) (auto split: option.splits)

section \<open>Properties of names\<close>

text \<open>
  Every container name the API builds is accepted by the agent, whatever
  the slug and the id of the app.
\<close>

theorem runtime_names_pass_agent:
  "agent_container_name (runtimeContainerName app color)"
  by (rule runtime_name_accepted)

text \<open>
  The colour a container was named with is read back from its name when
  the part of the name before the colour does not contain \<^verbatim>\<open>-blue\<close>; when it
  does, the answer is always blue. The name of the green container of an app whose slug begins with
  \<^verbatim>\<open>blue\<close>, or contains \<^verbatim>\<open>-blue\<close>, is read as blue.
\<close>

theorem color_read_back_iff:
  "inferContainerColor (Some (runtimeContainerName app c)) =
     Some (if str_includes ''-blue'' (name_stem app) then Blue else c)"
proof (cases c)
  case Blue
  then show ?thesis
    using str_includes_suffix [of "''-blue''" "name_stem app"]
    by (simp add: inferContainerColor_def runtimeContainerName_stem)
next
  case Green
  then show ?thesis
    using str_includes_suffix [of "''-green''" "name_stem app"] includes_green_suffix [of "name_stem app"]
    by (simp add: inferContainerColor_def runtimeContainerName_stem)
qed

text \<open>
  Among the containers of an app the most alive one is chosen: the
  result is a container of the app, and none of the app's containers has a
  better status or the same status and a later sighting; nothing is returned
  only when the app has no container.
\<close>

theorem best_container_is_maximal:
  "case selectBestAppContainer containers appId of
     Some best \<Rightarrow> best \<in> set containers \<and> is_app_container appId best
       \<and> list_all (\<lambda>c. is_app_container appId c \<longrightarrow> \<not> better_container c best) containers
   | None \<Rightarrow> list_all (\<lambda>c. \<not> is_app_container appId c) containers"
proof (cases "selectBestAppContainer containers appId")
  case None
  then have "\<forall>c\<in>set containers. \<not> is_app_container appId c"
    by (simp add: selectBestAppContainer_def select_best_None)
  with None show ?thesis by (simp add: list_all_iff)
next
  case (Some best)
  then have "select_best appId None containers = Some best" by (simp add: selectBestAppContainer_def)
  with select_best_spec [OF this] Some show ?thesis by (simp add: list_all_iff)
qed

theorem best_container_is_maximal_witness:
  "let k = \<lambda>i st seen. \<lparr>k_id = i, k_name = i, k_image = ''img'', k_status = st, k_restart_count = 0,
        k_kind = Some Ck_app, k_app_id = Some ''a1'', k_color = None, k_last_seen_ms = seen\<rparr>
   in \<not> better_container (k ''old'' C_stopped 9)
        (the (selectBestAppContainer [k ''old'' C_stopped 9, k ''new'' C_running 5] ''a1''))"
proof -
  let ?k = "\<lambda>i st seen. \<lparr>k_id = i, k_name = i, k_image = ''img'', k_status = st, k_restart_count = 0,
        k_kind = Some Ck_app, k_app_id = Some ''a1'', k_color = None, k_last_seen_ms = seen\<rparr>"
  let ?cs = "[?k ''old'' C_stopped 9, ?k ''new'' C_running 5]"
  have "selectBestAppContainer ?cs ''a1'' \<noteq> None"
    by (simp add: selectBestAppContainer_def is_app_container_def)
  then obtain b where b: "selectBestAppContainer ?cs ''a1'' = Some b" by blast
  have "is_app_container ''a1'' (?k ''old'' C_stopped 9)" by (simp add: is_app_container_def)
  with best_container_is_maximal [of "''a1''" ?cs] b show ?thesis by (simp add: Let_def)
qed

end
