(* ===== verification/Blue_Green.thy ===== *)
theory Blue_Green
  imports Runtime_Names Build_Queue
begin

text \<open>
  The blue-green runner (\<^verbatim>\<open>worker/runner.ts\<close>): deploy, stop, rollback and
  restart of an app. The agent, Docker and Caddy are outside: a call is
  answered by an environment that may depend on the whole history of calls and
  answers, and every call is recorded in the trace of the run. The theorems
  quantify over all environments, so they hold whatever fails and whenever.
\<close>

section \<open>Calls, answers and state\<close>

record resource_limits =
  rl_cpu :: rat
  rl_memory_bytes :: int
  rl_pids_limit :: int

text \<open>A volume of an app, as \<^verbatim>\<open>services/app-volumes.ts\<close> lists it for the runner.\<close>

record runtime_volume =
  rv_id :: ident
  rv_name :: string
  rv_mount_path :: string
  rv_host_path :: string
  rv_size_limit_bytes :: "int option"
  rv_read_only :: bool

record create_request =
  cr_name :: string
  cr_image :: string
  cr_env :: "(string \<times> string) list"
  cr_app_id :: ident
  cr_owner_id :: ident
  cr_color :: container_color
  cr_rollback :: bool
  cr_networks :: "string list"
  cr_volumes :: "runtime_volume list"
  cr_restart_policy :: restart_policy
  cr_limits :: "resource_limits option"
  cr_hc_path :: string
  cr_hc_port :: int
  cr_hc_interval_s :: int
  cr_hc_timeout_s :: int
  cr_hc_retries :: int
  cr_hc_start_period_s :: int

datatype call =
  Pull string
| EnsureNetwork ident
| AttachCaddy string
| VolumeMounts ident
| Create create_request
| Start string
| InspectHealth string
| Logs string
| ReadFile string string
| Stop string
| Remove string
| GetUpstream ident
| SetUpstream ident string "string \<times> int"
| RemoveUpstream ident
| PurgeCdn ident
| Sleep int

datatype grpc_code = G_already_exists | G_not_found | G_internal | G_other

datatype health_status = H_healthy | H_unhealthy | H_starting | H_none

datatype response =
  R_ok
| R_err grpc_code string
| R_created string
| R_health bool health_status
| R_upstream "(string \<times> int) option"
| R_network string
| R_volumes "runtime_volume list"

type_synonym history = "(call \<times> response) list"

type_synonym environment = "history \<Rightarrow> call \<Rightarrow> response"

record run_state =
  rs_trace :: history
  rs_apps :: "app_row table"
  rs_builds :: "build_row table"
  rs_owners :: "(ident \<times> ident) list"

datatype run_error =
  E_app_not_found | E_agent | E_unhealthy | E_caddy | E_build_not_found | E_need_two_builds
| E_no_image | E_env

section \<open>Runs\<close>

text \<open>
  A run passes the state along and may throw. \<open>try_call\<close> makes a call and
  returns whatever the environment answers; \<open>expect\<close> throws when the answer is
  not the one the source awaits.
\<close>

type_synonym 'a run = "run_state \<Rightarrow> (run_error + 'a) \<times> run_state"

definition return_run :: "'a \<Rightarrow> 'a run" where
  "return_run x st = (Inr x, st)"

definition throw :: "run_error \<Rightarrow> 'a run" where
  "throw e st = (Inl e, st)"

definition bind_run :: "'a run \<Rightarrow> ('a \<Rightarrow> 'b run) \<Rightarrow> 'b run" where
  "bind_run m f st = (case m st of (Inl e, st') \<Rightarrow> (Inl e, st') | (Inr x, st') \<Rightarrow> f x st')"

definition try_call :: "environment \<Rightarrow> call \<Rightarrow> response run" where
  "try_call env c st = (let r = env (rs_trace st) c in (Inr r, st\<lparr>rs_trace := rs_trace st @ [(c, r)]\<rparr>))"

definition update_run :: "(run_state \<Rightarrow> run_state) \<Rightarrow> unit run" where
  "update_run f st = (Inr (), f st)"

fun ok_of :: "response \<Rightarrow> unit option" where
  "ok_of R_ok = Some ()"
| "ok_of _ = None"

fun created_of :: "response \<Rightarrow> string option" where
  "created_of (R_created i) = Some i"
| "created_of _ = None"

fun network_of :: "response \<Rightarrow> string option" where
  "network_of (R_network n) = Some n"
| "network_of _ = None"

fun volumes_of :: "response \<Rightarrow> runtime_volume list option" where
  "volumes_of (R_volumes vs) = Some vs"
| "volumes_of _ = None"

definition expect :: "environment \<Rightarrow> call \<Rightarrow> (response \<Rightarrow> 'a option) \<Rightarrow> run_error \<Rightarrow> 'a run" where
  "expect env c sel e =
     bind_run (try_call env c) (\<lambda>r. case sel r of Some x \<Rightarrow> return_run x | None \<Rightarrow> throw e)"

fun each_run :: "('a \<Rightarrow> unit run) \<Rightarrow> 'a list \<Rightarrow> unit run" where
  "each_run f [] = return_run ()"
| "each_run f (x # xs) = bind_run (f x) (\<lambda>_. each_run f xs)"

section \<open>Helpers\<close>

definition GRACE_MS :: int where "GRACE_MS = 30000"

definition KNOWN_APP_LOG_PATHS :: "string list" where
  "KNOWN_APP_LOG_PATHS =
     [''/app/storage/logs/laravel.log'', ''/app/var/log/prod.log'', ''/app/var/log/dev.log'']"

fun oppositeColor :: "container_color \<Rightarrow> container_color" where
  "oppositeColor Blue = Green"
| "oppositeColor Green = Blue"

fun PLANS :: "plan_name \<Rightarrow> (rat \<times> int \<times> int) option" where
  "PLANS Pl_nano = Some (1/4, 256, 128)"
| "PLANS Pl_small = Some (1/2, 512, 256)"
| "PLANS Pl_medium = Some (1, 1024, 512)"
| "PLANS Pl_large = Some (2, 2048, 1024)"
| "PLANS Pl_custom = None"

definition or_default :: "'a option \<Rightarrow> 'a \<Rightarrow> 'a" where
  "or_default x d = (case x of None \<Rightarrow> d | Some v \<Rightarrow> v)"

definition resolveResourceLimits :: "app_row \<Rightarrow> resource_limits option" where
  "resolveResourceLimits app =
     (let planLimits = PLANS (a_plan app);
          cpu = or_default (a_cpu_limit app) (case planLimits of None \<Rightarrow> 0 | Some (c, _, _) \<Rightarrow> c);
          memMB = (case planLimits of None \<Rightarrow> 0 | Some (_, mb, _) \<Rightarrow> mb);
          memoryBytes = or_default (a_mem_limit_bytes app) (if memMB > 0 then memMB * 1024 * 1024 else 0);
          pidsLimit = or_default (a_pids_limit app) (case planLimits of None \<Rightarrow> 0 | Some (_, _, p) \<Rightarrow> p)
      in if cpu = 0 \<and> memoryBytes = 0 \<and> pidsLimit = 0 then None
         else Some \<lparr>rl_cpu = cpu, rl_memory_bytes = memoryBytes, rl_pids_limit = pidsLimit\<rparr>)"

definition int_str :: "int \<Rightarrow> string" where
  "int_str n = (if n < 0 then CHR ''-'' # nat_str (nat (- n)) else nat_str (nat n))"

fun env_set :: "string \<Rightarrow> string \<Rightarrow> (string \<times> string) list \<Rightarrow> (string \<times> string) list" where
  "env_set k v [] = [(k, v)]"
| "env_set k v ((k', v') # e) = (if k' = k then (k, v) # e else (k', v') # env_set k v e)"

definition containerEnvWithPort :: "(string \<times> string) list \<Rightarrow> int \<Rightarrow> (string \<times> string) list" where
  "containerEnvWithPort e runtimePort = env_set ''PORT'' (int_str runtimePort) e"

fun isAlreadyExists :: "response \<Rightarrow> bool" where
  "isAlreadyExists (R_err G_already_exists _) = True"
| "isAlreadyExists (R_err G_internal details) = str_includes ''already exists'' (to_lower details)"
| "isAlreadyExists _ = False"

fun isNotFound :: "response \<Rightarrow> bool" where
  "isNotFound (R_err G_not_found _) = True"
| "isNotFound (R_err G_internal details) =
     (str_includes ''no such'' (to_lower details) \<or> str_includes ''not found'' (to_lower details)
      \<or> str_includes ''is not connected'' (to_lower details))"
| "isNotFound _ = False"

text \<open>
  The probe loop. \<open>n\<close> attempts remain; a failed call, a starting and an
  unhealthy container are retried, a missing container or one without a
  health check ends the loop.
\<close>

fun poll_attempts :: "environment \<Rightarrow> string \<Rightarrow> int \<Rightarrow> nat \<Rightarrow> bool run" where
  "poll_attempts env cid intervalMs 0 = return_run False"
| "poll_attempts env cid intervalMs (Suc n) =
     bind_run (try_call env (Sleep intervalMs)) (\<lambda>_.
     bind_run (try_call env (InspectHealth cid)) (\<lambda>r.
       case r of
         R_health missing status \<Rightarrow>
           if missing then return_run False
           else (case status of
                   H_healthy \<Rightarrow> return_run True
                 | H_unhealthy \<Rightarrow> poll_attempts env cid intervalMs n
                 | H_starting \<Rightarrow> poll_attempts env cid intervalMs n
                 | H_none \<Rightarrow> return_run False)
       | _ \<Rightarrow> poll_attempts env cid intervalMs n))"

definition pollHealthcheck :: "environment \<Rightarrow> string \<Rightarrow> int \<Rightarrow> int \<Rightarrow> int \<Rightarrow> bool run" where
  "pollHealthcheck env cid intervalMs retries startPeriodMs =
     bind_run (if startPeriodMs > 0 then bind_run (try_call env (Sleep startPeriodMs)) (\<lambda>_. return_run ())
               else return_run ())
       (\<lambda>_. poll_attempts env cid intervalMs (nat retries))"

definition getCurrentColor :: "run_state \<Rightarrow> ident \<Rightarrow> container_color" where
  "getCurrentColor st appId =
     (case inferContainerColor (Option.bind (app_by_id (rs_apps st) appId) a_container_id) of
        Some c \<Rightarrow> c
      | None \<Rightarrow>
          (case inferContainerColor (Option.bind
                  (first_row (order_desc b_created_at
                     (select_where (\<lambda>b. b_app_id b = appId \<and> b_status b = B_succeeded) (rs_builds st))))
                  b_container_id) of
             Some c \<Rightarrow> c
           | None \<Rightarrow> Green))"

text \<open>Stop and remove; a failure of either is logged and swallowed.\<close>

definition stopContainer :: "environment \<Rightarrow> string \<Rightarrow> unit run" where
  "stopContainer env name =
     bind_run (try_call env (Stop name)) (\<lambda>_.
     bind_run (try_call env (Remove name)) (\<lambda>_. return_run ()))"

definition stopContainerCandidates :: "environment \<Rightarrow> string list \<Rightarrow> unit run" where
  "stopContainerCandidates env names = each_run (stopContainer env) names"

definition publishContainerLogTail :: "environment \<Rightarrow> string \<Rightarrow> unit run" where
  "publishContainerLogTail env cid = bind_run (try_call env (Logs cid)) (\<lambda>_. return_run ())"

definition publishKnownAppLogFiles :: "environment \<Rightarrow> string \<Rightarrow> unit run" where
  "publishKnownAppLogFiles env cid =
     each_run (\<lambda>p. bind_run (try_call env (ReadFile cid p)) (\<lambda>_. return_run ())) KNOWN_APP_LOG_PATHS"

text \<open>
  A name that is already taken is freed and tried again once, unless the route
  of the app points to it or the route cannot be read.
\<close>

definition createContainerWithStaleSlotRecovery ::
  "environment \<Rightarrow> ident \<Rightarrow> string \<Rightarrow> create_request \<Rightarrow> string run" where
  "createContainerWithStaleSlotRecovery env appId containerName request =
     bind_run (try_call env (Create request)) (\<lambda>r.
       case created_of r of
         Some cid \<Rightarrow> return_run cid
       | None \<Rightarrow>
           if \<not> isAlreadyExists r then throw E_agent
           else bind_run (try_call env (GetUpstream appId)) (\<lambda>u.
             case u of
               R_upstream upstream \<Rightarrow>
                 if map_option fst upstream = Some containerName then throw E_agent
                 else bind_run (stopContainer env containerName) (\<lambda>_.
                        expect env (Create request) created_of E_agent)
             | _ \<Rightarrow> throw E_agent))"

section \<open>Deploy\<close>

record hc_override =
  ho_path :: "string option"
  ho_port :: "int option"
  ho_interval_s :: "int option"
  ho_timeout_s :: "int option"
  ho_retries :: "int option"
  ho_start_period_s :: "int option"

definition no_override :: hc_override where
  "no_override = \<lparr>ho_path = None, ho_port = None, ho_interval_s = None, ho_timeout_s = None,
     ho_retries = None, ho_start_period_s = None\<rparr>"

record bg_opts =
  o_app_id :: ident
  o_image_ref :: string
  o_env :: "(string \<times> string) list"
  o_runtime_port :: "int option"
  o_healthcheck :: hc_override

record bg_config =
  g_hc_path :: string
  g_runtime_port :: int
  g_hc_port :: int
  g_hc_interval_s :: int
  g_hc_timeout_s :: int
  g_hc_retries :: int
  g_hc_start_period_s :: int
  g_domain :: string
  g_new_color :: container_color
  g_new_name :: string
  g_old_names :: "string list"

definition find_app :: "run_state \<Rightarrow> ident \<Rightarrow> (app_row \<times> ident) option" where
  "find_app st appId =
     (case app_by_id (rs_apps st) appId of
        None \<Rightarrow> None
      | Some app \<Rightarrow> map_option (\<lambda>(_, owner). (app, owner)) (find (\<lambda>(p, _). p = a_project_id app) (rs_owners st)))"

text \<open>\<^verbatim>\<open>a ?? b ?? c\<close>\<close>

definition coalesce3 :: "'a option \<Rightarrow> 'a option \<Rightarrow> 'a \<Rightarrow> 'a" where
  "coalesce3 a b d = (case a of Some v \<Rightarrow> v | None \<Rightarrow> or_default b d)"

definition resolve_config :: "run_state \<Rightarrow> app_row \<Rightarrow> ident \<Rightarrow> int option \<Rightarrow> hc_override \<Rightarrow> bg_config" where
  "resolve_config st app appId port hc =
     (let runtimePort = coalesce3 port (a_runtime_port app) 3000;
          currentColor = getCurrentColor st appId;
          newColor = oppositeColor currentColor
      in \<lparr>g_hc_path = coalesce3 (ho_path hc) (a_healthcheck_path app) ''/'',
          g_runtime_port = runtimePort,
          g_hc_port = coalesce3 (ho_port hc) (a_healthcheck_port app) runtimePort,
          g_hc_interval_s = coalesce3 (ho_interval_s hc) (a_healthcheck_interval_s app) 5,
          g_hc_timeout_s = coalesce3 (ho_timeout_s hc) (a_healthcheck_timeout_s app) 3,
          g_hc_retries = coalesce3 (ho_retries hc) (a_healthcheck_retries app) 6,
          g_hc_start_period_s = coalesce3 (ho_start_period_s hc) (a_healthcheck_start_period_s app) 30,
          g_domain = or_default (a_domain app) (appId @ ''.ploydok.local''),
          g_new_color = newColor,
          g_new_name = runtimeContainerName app newColor,
          g_old_names = runtimeContainerNameCandidates app currentColor\<rparr>)"

definition create_request_of ::
  "app_row \<Rightarrow> ident \<Rightarrow> ident \<Rightarrow> bg_config \<Rightarrow> string \<Rightarrow> (string \<times> string) list \<Rightarrow> bool \<Rightarrow> string \<Rightarrow>
   runtime_volume list \<Rightarrow> create_request" where
  "create_request_of app appId owner cfg img e rollback net vols =
     \<lparr>cr_name = g_new_name cfg, cr_image = img, cr_env = e, cr_app_id = appId, cr_owner_id = owner,
      cr_color = g_new_color cfg, cr_rollback = rollback, cr_networks = [net], cr_volumes = vols,
      cr_restart_policy = a_restart_policy app, cr_limits = resolveResourceLimits app,
      cr_hc_path = g_hc_path cfg, cr_hc_port = g_hc_port cfg, cr_hc_interval_s = g_hc_interval_s cfg,
      cr_hc_timeout_s = g_hc_timeout_s cfg, cr_hc_retries = g_hc_retries cfg,
      cr_hc_start_period_s = g_hc_start_period_s cfg\<rparr>"

text \<open>Pull the image, make sure of the project network, attach Caddy, read the volumes.\<close>

definition prepare_runtime :: "environment \<Rightarrow> app_row \<Rightarrow> ident \<Rightarrow> string \<Rightarrow> (string \<times> runtime_volume list) run" where
  "prepare_runtime env app appId img =
     bind_run (expect env (Pull img) ok_of E_agent) (\<lambda>_.
     bind_run (expect env (EnsureNetwork (a_project_id app)) network_of E_agent) (\<lambda>net.
     bind_run (expect env (AttachCaddy net) ok_of E_agent) (\<lambda>_.
     bind_run (expect env (VolumeMounts appId) volumes_of E_agent) (\<lambda>vols.
       return_run (net, vols)))))"

text \<open>Create, start and probe the new container; an unhealthy one is stopped and removed.\<close>

definition launch_container :: "environment \<Rightarrow> ident \<Rightarrow> bg_config \<Rightarrow> create_request \<Rightarrow> string run" where
  "launch_container env appId cfg req =
     bind_run (createContainerWithStaleSlotRecovery env appId (g_new_name cfg) req) (\<lambda>cid.
     bind_run (expect env (Start cid) ok_of E_agent) (\<lambda>_.
     bind_run (pollHealthcheck env cid (g_hc_interval_s cfg * 1000) (g_hc_retries cfg)
                 (g_hc_start_period_s cfg * 1000)) (\<lambda>healthy.
       if healthy then return_run cid
       else bind_run (publishContainerLogTail env cid) (\<lambda>_.
            bind_run (publishKnownAppLogFiles env cid) (\<lambda>_.
            bind_run (stopContainer env cid) (\<lambda>_. throw E_unhealthy))))))"

definition mark_live :: "instant \<Rightarrow> ident \<Rightarrow> string \<Rightarrow> run_state \<Rightarrow> run_state" where
  "mark_live now appId name st =
     st\<lparr>rs_apps := set_app appId
          (\<lambda>a. a\<lparr>a_container_id := Some name, a_status := A_running, a_updated_at := now\<rparr>) (rs_apps st)\<rparr>"

text \<open>
  Switch the traffic, mark the app live, notify, wait out the grace period and
  stop the old container. \<open>onLive\<close> is the caller's hook; it may write to the
  database but makes no call, and its failures are swallowed.
\<close>

definition switch_traffic ::
  "environment \<Rightarrow> instant \<Rightarrow> (string \<times> container_color \<Rightarrow> run_state \<Rightarrow> run_state) \<Rightarrow> ident \<Rightarrow> bg_config \<Rightarrow>
   string \<Rightarrow> (string \<times> container_color) run" where
  "switch_traffic env now onLive appId cfg cid =
     (let live = (cid, g_new_color cfg) in
      bind_run (expect env (SetUpstream appId (g_domain cfg) (g_new_name cfg, g_runtime_port cfg)) ok_of E_caddy) (\<lambda>_.
      bind_run (try_call env (PurgeCdn appId)) (\<lambda>_.
      bind_run (update_run (mark_live now appId (g_new_name cfg))) (\<lambda>_.
      bind_run (update_run (onLive live)) (\<lambda>_.
      bind_run (try_call env (Sleep GRACE_MS)) (\<lambda>_.
      bind_run (stopContainerCandidates env (g_old_names cfg)) (\<lambda>_.
        return_run live)))))))"

definition runBlueGreen ::
  "environment \<Rightarrow> instant \<Rightarrow> (string \<times> container_color \<Rightarrow> run_state \<Rightarrow> run_state) \<Rightarrow> bg_opts \<Rightarrow>
   (string \<times> container_color) run" where
  "runBlueGreen env now onLive opts st =
     (case find_app st (o_app_id opts) of
        None \<Rightarrow> throw E_app_not_found st
      | Some (app, owner) \<Rightarrow>
          let cfg = resolve_config st app (o_app_id opts) (o_runtime_port opts) (o_healthcheck opts);
              containerEnv = containerEnvWithPort (o_env opts) (g_runtime_port cfg)
          in bind_run (prepare_runtime env app (o_app_id opts) (o_image_ref opts)) (\<lambda>(net, vols).
             bind_run (launch_container env (o_app_id opts) cfg
               (create_request_of app (o_app_id opts) owner cfg (o_image_ref opts) containerEnv False net vols)) (\<lambda>cid.
             switch_traffic env now onLive (o_app_id opts) cfg cid)) st)"

section \<open>Stop, rollback, restart\<close>

text \<open>The two colours are stopped concurrently in the source; here blue goes first.\<close>

definition stop_both :: "environment \<Rightarrow> app_row \<Rightarrow> unit run" where
  "stop_both env app =
     bind_run (stopContainerCandidates env (runtimeContainerNameCandidates app Blue)) (\<lambda>_.
       stopContainerCandidates env (runtimeContainerNameCandidates app Green))"

definition mark_stopped :: "instant \<Rightarrow> ident \<Rightarrow> run_state \<Rightarrow> run_state" where
  "mark_stopped now appId st =
     st\<lparr>rs_apps := set_app appId
          (\<lambda>a. a\<lparr>a_status := A_stopped, a_container_id := None, a_updated_at := now\<rparr>) (rs_apps st)\<rparr>"

definition stopApp :: "environment \<Rightarrow> instant \<Rightarrow> ident \<Rightarrow> unit run" where
  "stopApp env now appId st =
     (case app_by_id (rs_apps st) appId of
        None \<Rightarrow> throw E_app_not_found st
      | Some app \<Rightarrow>
          bind_run (stop_both env app) (\<lambda>_.
          bind_run (expect env (RemoveUpstream appId) ok_of E_caddy) (\<lambda>_.
            update_run (mark_stopped now appId))) st)"



definition runRestartHeavyWork ::
  "environment \<Rightarrow> instant \<Rightarrow> (string \<times> string) list option \<Rightarrow> ident \<Rightarrow> string \<Rightarrow> unit run" where
  "runRestartHeavyWork env now renv appId imageRef st =
     (case app_by_id (rs_apps st) appId of
        None \<Rightarrow> throw E_app_not_found st
      | Some app \<Rightarrow>
          bind_run (stop_both env app) (\<lambda>_.
          bind_run (expect env (RemoveUpstream appId) ok_of E_caddy) (\<lambda>_.
            case renv of
              None \<Rightarrow> throw E_env
            | Some e \<Rightarrow>
                let runtimePort = or_default (a_runtime_port app) 3000
                in bind_run (runBlueGreen env now (\<lambda>_ s. s)
                     \<lparr>o_app_id = appId, o_image_ref = imageRef, o_env = containerEnvWithPort e runtimePort,
                      o_runtime_port = Some runtimePort, o_healthcheck = no_override\<rparr>) (\<lambda>_.
                   return_run ()))) st)"

definition mark_restarting :: "instant \<Rightarrow> ident \<Rightarrow> run_state \<Rightarrow> run_state" where
  "mark_restarting now appId st =
     st\<lparr>rs_apps := set_app appId (\<lambda>a. a\<lparr>a_status := A_restarting, a_updated_at := now\<rparr>) (rs_apps st)\<rparr>"

definition restartApp ::
  "environment \<Rightarrow> instant \<Rightarrow> (string \<times> string) list option \<Rightarrow> ident \<Rightarrow> unit run" where
  "restartApp env now renv appId st =
     (case Option.bind (first_row (order_desc b_created_at
              (select_where (\<lambda>b. b_app_id b = appId \<and> b_status b = B_succeeded) (rs_builds st)))) b_image_tag of
        None \<Rightarrow> throw E_no_image st
      | Some img \<Rightarrow>
          if img = [] then throw E_no_image st
          else bind_run (update_run (mark_restarting now appId)) (\<lambda>_.
                 runRestartHeavyWork env now renv appId img) st)"

section \<open>Extending the trace\<close>

text \<open>
  A phase of a run extends the trace by events that satisfy \<open>P\<close> and leaves
  the database alone.
\<close>

definition extends :: "(call \<times> response \<Rightarrow> bool) \<Rightarrow> run_state \<Rightarrow> run_state \<Rightarrow> bool" where
  "extends P st st' \<longleftrightarrow> (\<exists>xs. rs_trace st' = rs_trace st @ xs \<and> (\<forall>ev\<in>set xs. P ev))
     \<and> rs_apps st' = rs_apps st \<and> rs_builds st' = rs_builds st \<and> rs_owners st' = rs_owners st"

text \<open>
  Events that leave the live slot alone: none of its containers is stopped or
  removed, and the route of the app is neither switched nor dropped.
\<close>

fun keeps_live :: "string set \<Rightarrow> call \<times> response \<Rightarrow> bool" where
  "keeps_live old (Stop n, _) = (n \<notin> old)"
| "keeps_live old (Remove n, _) = (n \<notin> old)"
| "keeps_live old (SetUpstream _ _ _, r) = (r \<noteq> R_ok)"
| "keeps_live old (RemoveUpstream _, _) = False"
| "keeps_live old _ = True"

lemma extends_refl [simp]: "extends P st st"
  by (simp add: extends_def)

lemma extends_trans [trans]: "extends P a b \<Longrightarrow> extends P b c \<Longrightarrow> extends P a c"
  by (auto simp: extends_def)

text \<open>A run keeps \<open>P\<close> when, from any state and with any result, it extends the trace by \<open>P\<close>-events.\<close>

definition keeps :: "(call \<times> response \<Rightarrow> bool) \<Rightarrow> 'a run \<Rightarrow> bool" where
  "keeps P m \<longleftrightarrow> (\<forall>st. extends P st (snd (m st)))"

lemma keepsD: "keeps P m \<Longrightarrow> m st = (res, st') \<Longrightarrow> extends P st st'"
  by (metis keeps_def snd_conv)

lemma keeps_return [simp]: "keeps P (return_run x)"
  by (simp add: keeps_def return_run_def)

lemma keeps_throw [simp]: "keeps P (throw e)"
  by (simp add: keeps_def throw_def)

lemma keeps_bind_result:
  assumes "keeps P m" and "\<And>x st st'. m st = (Inr x, st') \<Longrightarrow> keeps P (f x)"
  shows "keeps P (bind_run m f)"
  unfolding keeps_def
proof
  fix st
  obtain res st1 where m: "m st = (res, st1)" by fastforce
  note e = keepsD [OF assms(1) m]
  show "extends P st (snd (bind_run m f st))"
  proof (cases res)
    case (Inl err)
    with m e show ?thesis by (simp add: bind_run_def)
  next
    case (Inr x)
    with m assms(2) have "extends P st1 (snd (f x st1))" by (auto simp: keeps_def)
    with m e Inr show ?thesis by (auto simp: bind_run_def intro: extends_trans)
  qed
qed

lemma keeps_bind: "keeps P m \<Longrightarrow> (\<And>x. keeps P (f x)) \<Longrightarrow> keeps P (bind_run m f)"
  by (rule keeps_bind_result)

lemma keeps_try: "(\<And>r. P (c, r)) \<Longrightarrow> keeps P (try_call env c)"
  by (auto simp: keeps_def try_call_def Let_def extends_def)

lemma keeps_expect: "(\<And>r. P (c, r)) \<Longrightarrow> keeps P (expect env c sel e)"
  unfolding expect_def by (intro keeps_bind keeps_try) (auto split: option.splits)

lemma keeps_each: "(\<And>x. x \<in> set xs \<Longrightarrow> keeps P (f x)) \<Longrightarrow> keeps P (each_run f xs)"
  by (induction xs) (auto intro: keeps_bind)

lemma keeps_if: "(b \<Longrightarrow> keeps P m) \<Longrightarrow> (\<not> b \<Longrightarrow> keeps P n) \<Longrightarrow> keeps P (if b then m else n)"
  by simp

lemmas keeps_intros = keeps_bind keeps_try keeps_expect keeps_each keeps_return keeps_throw keeps_if

lemma keeps_stop: "(\<And>r. P (Stop n, r)) \<Longrightarrow> (\<And>r. P (Remove n, r)) \<Longrightarrow> keeps P (stopContainer env n)"
  unfolding stopContainer_def by (intro keeps_intros) auto

lemma keeps_stop_all:
  "(\<And>n r. n \<in> set ns \<Longrightarrow> P (Stop n, r) \<and> P (Remove n, r)) \<Longrightarrow> keeps P (stopContainerCandidates env ns)"
  unfolding stopContainerCandidates_def by (intro keeps_each keeps_stop) auto

lemma keeps_poll_attempts:
  assumes "\<And>i r. P (Sleep i, r)" and "\<And>r. P (InspectHealth cid, r)"
  shows "keeps P (poll_attempts env cid iv n)"
proof (induction n)
  case 0
  then show ?case by simp
next
  case (Suc n)
  then show ?case
    using assms by (auto intro!: keeps_bind keeps_try split: response.splits health_status.splits)
qed

lemma keeps_poll:
  assumes "\<And>i r. P (Sleep i, r)" and "\<And>r. P (InspectHealth cid, r)"
  shows "keeps P (pollHealthcheck env cid iv n sp)"
  unfolding pollHealthcheck_def
  by (intro keeps_intros keeps_poll_attempts) (use assms in auto)

text \<open>Evaluating a run step by step: the state after a call, and the binds over basic runs.\<close>

definition after :: "environment \<Rightarrow> call \<Rightarrow> run_state \<Rightarrow> run_state" where
  "after env c st = st\<lparr>rs_trace := rs_trace st @ [(c, env (rs_trace st) c)]\<rparr>"

lemma after_simps [simp]:
  "rs_trace (after env c st) = rs_trace st @ [(c, env (rs_trace st) c)]"
  "rs_apps (after env c st) = rs_apps st" "rs_builds (after env c st) = rs_builds st"
  "rs_owners (after env c st) = rs_owners st"
  by (simp_all add: after_def)

lemma bind_try: "bind_run (try_call env c) f st = f (env (rs_trace st) c) (after env c st)"
  by (simp add: bind_run_def try_call_def after_def Let_def)

lemma bind_update: "bind_run (update_run g) f st = f () (g st)"
  by (simp add: bind_run_def update_run_def)

lemma bind_return: "bind_run (return_run x) f st = f x st"
  by (simp add: bind_run_def return_run_def)

lemma bind_expect:
  "bind_run (expect env c sel e) f st =
     (case sel (env (rs_trace st) c) of Some x \<Rightarrow> f x (after env c st) | None \<Rightarrow> (Inl e, after env c st))"
  by (auto simp: expect_def bind_run_def try_call_def after_def return_run_def throw_def Let_def split: option.splits)

lemma bind_assoc: "bind_run (bind_run m f) g st = bind_run m (\<lambda>x. bind_run (f x) g) st"
  by (auto simp: bind_run_def split: prod.splits sum.splits)

lemma bind_throw: "bind_run (throw e) f st = (Inl e, st)"
  by (simp add: bind_run_def throw_def)

lemmas run_steps = bind_try bind_update bind_return bind_expect bind_assoc bind_throw

text \<open>Reading a successful run backwards.\<close>

lemma bind_run_Inr:
  assumes "bind_run m f st = (Inr y, st')"
  obtains x st1 where "m st = (Inr x, st1)" "f x st1 = (Inr y, st')"
  using assms by (auto simp: bind_run_def split: prod.splits sum.splits)

lemma bind_run_Inl:
  assumes "bind_run m f st = (Inl e, st')"
  obtains "m st = (Inl e, st')" | x st1 where "m st = (Inr x, st1)" "f x st1 = (Inl e, st')"
  using assms by (auto simp: bind_run_def split: prod.splits sum.splits)

lemma try_call_Inr:
  assumes "try_call env c st = (Inr r, st')"
  shows "rs_trace st' = rs_trace st @ [(c, r)]" and "rs_apps st' = rs_apps st"
  using assms by (auto simp: try_call_def Let_def)

lemma try_call_not_Inl [simp]: "try_call env c st \<noteq> (Inl e, st')"
  by (simp add: try_call_def Let_def)

lemma expect_Inr:
  assumes "expect env c sel e st = (Inr x, st')"
  obtains r where "sel r = Some x" "rs_trace st' = rs_trace st @ [(c, r)]" "rs_apps st' = rs_apps st"
    "\<exists>h. env h c = r"
proof -
  let ?r = "env (rs_trace st) c"
  have "sel ?r = Some x \<and> st' = st\<lparr>rs_trace := rs_trace st @ [(c, ?r)]\<rparr>"
    using assms
    by (auto simp: expect_def bind_run_def try_call_def return_run_def throw_def Let_def split: option.splits)
  then show ?thesis using that [of ?r] by auto
qed

lemma ok_of_Some [simp]: "ok_of r = Some x \<longleftrightarrow> r = R_ok"
  by (cases r) auto

lemma created_of_Some [simp]: "created_of r = Some i \<longleftrightarrow> r = R_created i"
  by (cases r) auto

text \<open>Runs that never throw: calls whose answer is ignored, writes, and stopping containers.\<close>

definition no_throw :: "'a run \<Rightarrow> bool" where
  "no_throw m \<longleftrightarrow> (\<forall>st e st'. m st \<noteq> (Inl e, st'))"

lemma no_throw_basic [simp]:
  "no_throw (return_run x)" "no_throw (try_call env c)" "no_throw (update_run f)"
  by (simp_all add: no_throw_def return_run_def try_call_def update_run_def Let_def)

lemma no_throw_bind: "no_throw m \<Longrightarrow> (\<And>x. no_throw (f x)) \<Longrightarrow> no_throw (bind_run m f)"
  unfolding no_throw_def by (auto elim!: bind_run_Inl)

lemma no_throw_stop: "no_throw (stopContainer env n)"
  unfolding stopContainer_def by (intro no_throw_bind) simp_all

lemma no_throw_each: "(\<And>x. no_throw (f x)) \<Longrightarrow> no_throw (each_run f xs)"
  by (induction xs) (auto intro: no_throw_bind)

lemma no_throw_stop_all: "no_throw (stopContainerCandidates env ns)"
  unfolding stopContainerCandidates_def by (intro no_throw_each no_throw_stop)

lemma bind_run_Inl_first:
  assumes "bind_run m f st = (Inl e, st')" and "\<And>x. no_throw (f x)"
  shows "m st = (Inl e, st')"
  using assms(1)
proof (rule bind_run_Inl)
  fix x st1 assume "f x st1 = (Inl e, st')"
  then show ?thesis using assms(2) [of x] by (simp add: no_throw_def)
qed

lemma stop_trace:
  assumes "stopContainer env n st = (Inr x, st')"
  shows "\<exists>r1 r2. rs_trace st' = rs_trace st @ [(Stop n, r1), (Remove n, r2)] \<and> rs_apps st' = rs_apps st"
  using assms by (auto simp: stopContainer_def bind_run_def try_call_def return_run_def Let_def)

lemma stop_all_trace:
  assumes "stopContainerCandidates env ns st = (Inr x, st')"
  shows "\<exists>xs. rs_trace st' = rs_trace st @ xs \<and> rs_apps st' = rs_apps st
    \<and> (\<forall>n\<in>set ns. (\<exists>r. (Stop n, r) \<in> set xs) \<and> (\<exists>r. (Remove n, r) \<in> set xs))"
  using assms unfolding stopContainerCandidates_def
proof (induction ns arbitrary: st)
  case Nil
  then show ?case by (simp add: return_run_def)
next
  case (Cons n ns)
  from Cons.prems obtain u st1 where c: "stopContainer env n st = (Inr u, st1)"
    "each_run (stopContainer env) ns st1 = (Inr x, st')" unfolding each_run.simps by (rule bind_run_Inr)
  from stop_trace [OF c(1)] obtain r1 r2 where
    t: "rs_trace st1 = rs_trace st @ [(Stop n, r1), (Remove n, r2)]" "rs_apps st1 = rs_apps st" by blast
  from Cons.IH [OF c(2)] obtain xs where xs: "rs_trace st' = rs_trace st1 @ xs" "rs_apps st' = rs_apps st1"
    "\<forall>m\<in>set ns. (\<exists>r. (Stop m, r) \<in> set xs) \<and> (\<exists>r. (Remove m, r) \<in> set xs)" by blast
  show ?case
    by (intro exI [of _ "[(Stop n, r1), (Remove n, r2)] @ xs"]) (use t xs in auto)
qed

section \<open>The phases\<close>

abbreviation healthy_event :: "string \<Rightarrow> call \<times> response" where
  "healthy_event cid \<equiv> (InspectHealth cid, R_health False H_healthy)"

text \<open>The ids Docker gives to new containers are not the names of the live slot.\<close>

definition fresh_cids :: "environment \<Rightarrow> string set \<Rightarrow> bool" where
  "fresh_cids env old \<longleftrightarrow> (\<forall>h req i. env h (Create req) = R_created i \<longrightarrow> i \<notin> old)"

lemma keeps_prepare: "keeps (keeps_live old) (prepare_runtime env app i img)"
  unfolding prepare_runtime_def by (intro keeps_bind keeps_expect keeps_return) auto

lemma keeps_create:
  assumes "name \<notin> old"
  shows "keeps (keeps_live old) (createContainerWithStaleSlotRecovery env i name req)"
  unfolding createContainerWithStaleSlotRecovery_def
  using assms
  by (auto intro!: keeps_bind keeps_try keeps_expect keeps_stop split: option.splits response.splits)

lemma create_result:
  assumes "createContainerWithStaleSlotRecovery env i name req st = (Inr cid, st')"
  shows "\<exists>h. env h (Create req) = R_created cid"
proof -
  obtain r st1 where r: "try_call env (Create req) st = (Inr r, st1)" and
    rest: "(case created_of r of Some cid \<Rightarrow> return_run cid
       | None \<Rightarrow> if \<not> isAlreadyExists r then throw E_agent
           else bind_run (try_call env (GetUpstream i)) (\<lambda>u. case u of
               R_upstream upstream \<Rightarrow>
                 if map_option fst upstream = Some name then throw E_agent
                 else bind_run (stopContainer env name) (\<lambda>_. expect env (Create req) created_of E_agent)
             | _ \<Rightarrow> throw E_agent)) st1 = (Inr cid, st')"
    using assms unfolding createContainerWithStaleSlotRecovery_def by (rule bind_run_Inr)
  show ?thesis
  proof (cases "created_of r")
    case (Some c)
    with rest r show ?thesis by (auto simp: return_run_def try_call_def Let_def)
  next
    case None
    with rest obtain st2 where "expect env (Create req) created_of E_agent st2 = (Inr cid, st')"
      by (auto simp: throw_def split: if_splits response.splits elim!: bind_run_Inr)
    then show ?thesis
    proof (rule expect_Inr)
      fix r assume "created_of r = Some cid" "\<exists>h. env h (Create req) = r"
      then show ?thesis by simp
    qed
  qed
qed

lemma keeps_launch:
  assumes "g_new_name cfg \<notin> old" and "fresh_cids env old"
  shows "keeps (keeps_live old) (launch_container env i cfg req)"
  unfolding launch_container_def
proof (intro keeps_bind_result [OF keeps_create [OF assms(1)]])
  fix cid st st'
  assume "createContainerWithStaleSlotRecovery env i (g_new_name cfg) req st = (Inr cid, st')"
  then obtain h where "env h (Create req) = R_created cid" using create_result by blast
  with assms(2) have cid: "cid \<notin> old" unfolding fresh_cids_def by blast
  show "keeps (keeps_live old) (bind_run (expect env (Start cid) ok_of E_agent) (\<lambda>_.
     bind_run (pollHealthcheck env cid (g_hc_interval_s cfg * 1000) (g_hc_retries cfg)
                 (g_hc_start_period_s cfg * 1000)) (\<lambda>healthy.
       if healthy then return_run cid
       else bind_run (publishContainerLogTail env cid) (\<lambda>_.
            bind_run (publishKnownAppLogFiles env cid) (\<lambda>_.
            bind_run (stopContainer env cid) (\<lambda>_. throw E_unhealthy))))))"
    unfolding publishContainerLogTail_def publishKnownAppLogFiles_def
    by (intro keeps_intros keeps_poll keeps_stop) (use cid in auto)
qed

lemma poll_attempts_healthy:
  "poll_attempts env cid iv n st = (Inr True, st') \<Longrightarrow> \<exists>xs. rs_trace st' = rs_trace st @ xs @ [healthy_event cid]"
proof (induction n arbitrary: st)
  case 0
  then show ?case by (simp add: return_run_def)
next
  case (Suc n)
  obtain r1 st1 r2 st2 where c: "try_call env (Sleep iv) st = (Inr r1, st1)"
    "try_call env (InspectHealth cid) st1 = (Inr r2, st2)"
    "(case r2 of
         R_health missing status \<Rightarrow>
           if missing then return_run False
           else (case status of
                   H_healthy \<Rightarrow> return_run True
                 | H_unhealthy \<Rightarrow> poll_attempts env cid iv n
                 | H_starting \<Rightarrow> poll_attempts env cid iv n
                 | H_none \<Rightarrow> return_run False)
       | _ \<Rightarrow> poll_attempts env cid iv n) st2 = (Inr True, st')"
    using Suc.prems by (auto elim!: bind_run_Inr)
  have t: "rs_trace st2 = rs_trace st @ [(Sleep iv, r1), (InspectHealth cid, r2)]"
    using try_call_Inr(1) [OF c(1)] try_call_Inr(1) [OF c(2)] by simp
  have "(r2 = R_health False H_healthy \<and> st' = st2) \<or> poll_attempts env cid iv n st2 = (Inr True, st')"
    using c(3) by (auto simp: return_run_def split: response.splits if_splits health_status.splits)
  then show ?case
  proof
    assume "poll_attempts env cid iv n st2 = (Inr True, st')"
    from Suc.IH [OF this] t show ?thesis by auto
  qed (use t in auto)
qed

lemma poll_healthy:
  assumes "pollHealthcheck env cid iv n sp st = (Inr True, st')"
  shows "\<exists>xs. rs_trace st' = rs_trace st @ xs @ [healthy_event cid]"
proof -
  obtain st0 where "extends (\<lambda>_. True) st st0" "poll_attempts env cid iv (nat n) st0 = (Inr True, st')"
  proof (rule bind_run_Inr [OF assms [unfolded pollHealthcheck_def]])
    fix x st1
    assume m: "(if 0 < sp then bind_run (try_call env (Sleep sp)) (\<lambda>_. return_run ()) else return_run ()) st = (Inr x, st1)"
      and "poll_attempts env cid iv (nat n) st1 = (Inr True, st')"
    moreover have "keeps (\<lambda>_. True) (if 0 < sp then bind_run (try_call env (Sleep sp)) (\<lambda>_. return_run ()) else return_run ())"
      by (intro keeps_intros) auto
    ultimately show thesis using that keepsD by blast
  qed
  then show ?thesis using poll_attempts_healthy by (fastforce simp: extends_def)
qed

lemma launch_success:
  assumes "launch_container env i cfg req st = (Inr cid, st')"
  shows "\<exists>xs ys. rs_trace st' = rs_trace st @ xs @ (Start cid, R_ok) # ys @ [healthy_event cid]"
proof -
  obtain st1 st2 where c: "createContainerWithStaleSlotRecovery env i (g_new_name cfg) req st = (Inr cid, st1)"
    "expect env (Start cid) ok_of E_agent st1 = (Inr (), st2)"
    "pollHealthcheck env cid (g_hc_interval_s cfg * 1000) (g_hc_retries cfg) (g_hc_start_period_s cfg * 1000) st2
      = (Inr True, st')"
    using assms unfolding launch_container_def
    by (auto simp: return_run_def throw_def elim!: bind_run_Inr split: if_splits)
  have "keeps (\<lambda>_. True) (createContainerWithStaleSlotRecovery env i (g_new_name cfg) req)"
    unfolding createContainerWithStaleSlotRecovery_def
    by (auto intro!: keeps_bind keeps_try keeps_expect keeps_stop split: option.splits response.splits)
  then obtain xs where "rs_trace st1 = rs_trace st @ xs" using c(1) keepsD by (fastforce simp: extends_def)
  moreover have "rs_trace st2 = rs_trace st1 @ [(Start cid, R_ok)]" using c(2) by (auto elim: expect_Inr)
  moreover obtain ys where "rs_trace st' = rs_trace st2 @ ys @ [healthy_event cid]"
    using poll_healthy [OF c(3)] by blast
  ultimately show ?thesis by auto
qed

lemma switch_failure:
  assumes "switch_traffic env now onLive i cfg cid st = (Inl e, st')"
  shows "extends (keeps_live old) st st'"
proof -
  have "expect env (SetUpstream i (g_domain cfg) (g_new_name cfg, g_runtime_port cfg)) ok_of E_caddy st = (Inl e, st')"
    using assms unfolding switch_traffic_def Let_def
    by (rule bind_run_Inl_first) (intro no_throw_bind no_throw_stop_all no_throw_basic)
  then show ?thesis
    by (auto simp: expect_def bind_run_def try_call_def return_run_def throw_def Let_def extends_def
        split: option.splits)
qed

lemma switch_success:
  assumes "switch_traffic env now onLive i cfg cid st = (Inr res, st')"
    and hook: "\<And>l s. rs_trace (onLive l s) = rs_trace s" "\<And>l s. rs_apps (onLive l s) = rs_apps s"
  shows "res = (cid, g_new_color cfg)
    \<and> rs_apps st' = set_app i (\<lambda>a. a\<lparr>a_container_id := Some (g_new_name cfg), a_status := A_running, a_updated_at := now\<rparr>) (rs_apps st)
    \<and> (\<exists>post. rs_trace st' = rs_trace st @ (SetUpstream i (g_domain cfg) (g_new_name cfg, g_runtime_port cfg), R_ok) # post
        \<and> (\<forall>n\<in>set (g_old_names cfg). (\<exists>r. (Stop n, r) \<in> set post) \<and> (\<exists>r. (Remove n, r) \<in> set post)))"
proof -
  let ?up = "SetUpstream i (g_domain cfg) (g_new_name cfg, g_runtime_port cfg)" and ?live = "(cid, g_new_color cfg)"
  let ?st2 = "after env (PurgeCdn i) (after env ?up st)"
  let ?st5 = "after env (Sleep GRACE_MS) (onLive ?live (mark_live now i (g_new_name cfg) ?st2))"
  have ok: "env (rs_trace st) ?up = R_ok"
    using assms(1) by (auto simp: switch_traffic_def Let_def run_steps split: option.splits)
  then have "bind_run (stopContainerCandidates env (g_old_names cfg)) (\<lambda>_. return_run ?live) ?st5 = (Inr res, st')"
    using assms(1) by (simp add: switch_traffic_def Let_def run_steps)
  then obtain u st6 where c: "stopContainerCandidates env (g_old_names cfg) ?st5 = (Inr u, st6)"
    "return_run ?live st6 = (Inr res, st')" by (rule bind_run_Inr)
  obtain xs where xs: "rs_trace st' = rs_trace ?st5 @ xs" "rs_apps st' = rs_apps ?st5"
    "\<forall>n\<in>set (g_old_names cfg). (\<exists>r. (Stop n, r) \<in> set xs) \<and> (\<exists>r. (Remove n, r) \<in> set xs)"
    using stop_all_trace [OF c(1)] c(2) by (auto simp: return_run_def)
  obtain p1 p2 where t: "rs_trace ?st5 = rs_trace st @ (?up, R_ok) # [p1, p2]"
    by (simp add: ok hook mark_live_def)
  have a: "rs_apps ?st5 = set_app i (\<lambda>a. a\<lparr>a_container_id := Some (g_new_name cfg), a_status := A_running,
      a_updated_at := now\<rparr>) (rs_apps st)" by (simp add: hook mark_live_def)
  show ?thesis
  proof (intro conjI exI)
    show "res = ?live" using c(2) by (simp add: return_run_def)
    show "rs_trace st' = rs_trace st @ (?up, R_ok) # ([p1, p2] @ xs)" unfolding xs(1) t by simp
  qed (use a xs in auto)
qed

abbreviation live_names :: "run_state \<Rightarrow> app_row \<Rightarrow> string list" where
  "live_names st app \<equiv> runtimeContainerNameCandidates app (getCurrentColor st (a_id app))"

lemma opposite_neq [simp]: "oppositeColor c \<noteq> c" "c \<noteq> oppositeColor c"
  by (cases c; simp)+

lemma config_names [simp]:
  "g_new_name (resolve_config st app i port hc) = runtimeContainerName app (oppositeColor (getCurrentColor st i))"
  "g_old_names (resolve_config st app i port hc) = runtimeContainerNameCandidates app (getCurrentColor st i)"
  "g_new_color (resolve_config st app i port hc) = oppositeColor (getCurrentColor st i)"
  by (simp_all add: resolve_config_def Let_def)

lemma find_app_id: "find_app st i = Some (app, owner) \<Longrightarrow> a_id app = i"
  by (auto simp: find_app_def split: option.splits dest: select_first_Some)

text \<open>
  A phase that keeps \<open>P\<close>, followed by the rest of the run: either the phase
  threw, or the rest ran from a state that extends the first one.
\<close>

lemma keeps_then:
  assumes "bind_run m f st = (res, st')" and "keeps P m"
  obtains e where "res = Inl e" "extends P st st'"
  | x st1 where "m st = (Inr x, st1)" "f x st1 = (res, st')" "extends P st st1"
proof (cases "m st")
  case (Pair r st1)
  note e = keepsD [OF assms(2) Pair]
  show ?thesis
    by (cases r) (use assms(1) Pair e that in \<open>auto simp: bind_run_def\<close>)
qed

lemma no_throw_Inr:
  assumes "no_throw m"
  obtains x st' where "m st = (Inr x, st')"
  using assms by (cases "m st"; cases "fst (m st)") (auto simp: no_throw_def)

lemma failed_run_extends:
  assumes "runBlueGreen env now onLive opts st = (Inl e, st')"
    and "\<And>app owner. find_app st (o_app_id opts) = Some (app, owner) \<Longrightarrow>
      runtimeContainerName app (oppositeColor (getCurrentColor st (o_app_id opts))) \<notin> old"
    and "fresh_cids env old"
  shows "extends (keeps_live old) st st'"
proof (cases "find_app st (o_app_id opts)")
  case None
  with assms(1) show ?thesis by (simp add: runBlueGreen_def throw_def)
next
  case (Some ao)
  obtain app owner where ao: "ao = (app, owner)" by fastforce
  define cfg where "cfg = resolve_config st app (o_app_id opts) (o_runtime_port opts) (o_healthcheck opts)"
  have new: "g_new_name cfg \<notin> old" using assms(2) Some ao by (simp add: cfg_def)
  have run: "bind_run (prepare_runtime env app (o_app_id opts) (o_image_ref opts)) (\<lambda>(net, vols).
      bind_run (launch_container env (o_app_id opts) cfg
        (create_request_of app (o_app_id opts) owner cfg (o_image_ref opts)
           (containerEnvWithPort (o_env opts) (g_runtime_port cfg)) False net vols))
      (switch_traffic env now onLive (o_app_id opts) cfg)) st = (Inl e, st')"
    using assms(1) Some ao by (simp add: runBlueGreen_def cfg_def Let_def)
  show ?thesis
  proof (rule keeps_then [OF run keeps_prepare])
    fix nv st1
    assume rest: "(case nv of (net, vols) \<Rightarrow> bind_run (launch_container env (o_app_id opts) cfg
        (create_request_of app (o_app_id opts) owner cfg (o_image_ref opts)
           (containerEnvWithPort (o_env opts) (g_runtime_port cfg)) False net vols))
      (switch_traffic env now onLive (o_app_id opts) cfg)) st1 = (Inl e, st')"
      and e1: "extends (keeps_live old) st st1"
    obtain net vols where nv: "nv = (net, vols)" by (cases nv)
    from rest [unfolded nv prod.case] keeps_launch [OF new assms(3)] show ?thesis
    proof (rule keeps_then)
      assume "extends (keeps_live old) st1 st'"
      with e1 show ?thesis by (rule extends_trans)
    next
      fix cid st2
      assume "switch_traffic env now onLive (o_app_id opts) cfg cid st2 = (Inl e, st')"
        and "extends (keeps_live old) st1 st2"
      then show ?thesis using e1 switch_failure extends_trans by meson
    qed
  qed
qed

section \<open>Properties of the runner\<close>


text \<open>
  An environment for the witnesses: every call succeeds, except that the health
  status and the answers about the route and the creation are parameters.
\<close>

fun answer :: "health_status \<Rightarrow> (string \<times> int) option \<Rightarrow> response \<Rightarrow> call \<Rightarrow> response" where
  "answer h up cr (EnsureNetwork p) = R_network ''net''"
| "answer h up cr (VolumeMounts a) = R_volumes []"
| "answer h up cr (Create req) = cr"
| "answer h up cr (InspectHealth c) = R_health False h"
| "answer h up cr (GetUpstream a) = R_upstream up"
| "answer h up cr c = R_ok"

abbreviation quiet_env :: "health_status \<Rightarrow> environment" where
  "quiet_env h \<equiv> \<lambda>_ c. answer h None (R_created ''cid-0'') c"

abbreviation demo_app :: app_row where
  "demo_app \<equiv> (default_app ''a1'' ''p1'' ''web'' 0)\<lparr>a_healthcheck_retries := Some 1\<rparr>"

abbreviation demo_state :: run_state where
  "demo_state \<equiv> \<lparr>rs_trace = [], rs_apps = [demo_app], rs_builds = [], rs_owners = [(''p1'', ''u1'')]\<rparr>"

abbreviation demo_opts :: bg_opts where
  "demo_opts \<equiv> \<lparr>o_app_id = ''a1'', o_image_ref = ''img'', o_env = [], o_runtime_port = None,
     o_healthcheck = no_override\<rparr>"

lemma demo_find: "find_app demo_state ''a1'' = Some (demo_app, ''u1'')"
  by (simp add: find_app_def select_first_def default_app_def)

lemma names_have_prefix: "n \<in> set (runtimeContainerNameCandidates app c) \<Longrightarrow> starts_with ''ploydok-app-'' n"
  by (auto simp: runtimeContainerNameCandidates_def runtimeContainerName_def legacyRuntimeContainerName_def
      Let_def starts_with_def split: if_splits)

lemma quiet_fresh: "fresh_cids (quiet_env h) (set (live_names demo_state demo_app))"
  unfolding fresh_cids_def
  by (auto dest!: names_have_prefix simp: starts_with_def)

lemma quiet_prepare:
  "\<exists>st'. bind_run (prepare_runtime (quiet_env h) app i img) f st = f (''net'', []) st'"
  by (simp add: prepare_runtime_def run_steps) blast

lemma bind_no_throw: "no_throw m \<Longrightarrow> \<exists>x st'. bind_run m f st = f x st'"
  by (cases "m st"; cases "fst (m st)") (auto simp: no_throw_def bind_run_def)

lemma quiet_launch:
  assumes "0 < g_hc_retries cfg"
  shows "\<exists>st'. bind_run (launch_container (quiet_env H_healthy) i cfg req) f st = f ''cid-0'' st'"
proof -
  obtain n where "nat (g_hc_retries cfg) = Suc n" using assms by (cases "nat (g_hc_retries cfg)") auto
  then show ?thesis
    by (cases "0 < g_hc_start_period_s cfg")
      (simp_all add: launch_container_def createContainerWithStaleSlotRecovery_def pollHealthcheck_def run_steps; blast)+
qed


lemma quiet_switch:
  "\<exists>st'. switch_traffic (quiet_env h) now onLive i cfg cid st = (Inr (cid, g_new_color cfg), st')"
proof -
  have "\<exists>st'. bind_run (stopContainerCandidates (quiet_env h) (g_old_names cfg)) (\<lambda>_. return_run x) s = (Inr x, st')"
    for x :: "string \<times> container_color" and s
    using bind_no_throw [OF no_throw_stop_all, where f = "\<lambda>_. return_run x" and st = s] by (auto simp: return_run_def)
  then show ?thesis by (simp add: switch_traffic_def Let_def run_steps)
qed

lemma quiet_run:
  assumes "find_app st (o_app_id opts) = Some (app, owner)"
    and cfg: "cfg = resolve_config st app (o_app_id opts) (o_runtime_port opts) (o_healthcheck opts)"
  shows "\<exists>req st1. runBlueGreen (quiet_env h) now onLive opts st =
      bind_run (launch_container (quiet_env h) (o_app_id opts) cfg req)
        (switch_traffic (quiet_env h) now onLive (o_app_id opts) cfg) st1"
proof -
  define f where "f = (\<lambda>(net, vols). bind_run (launch_container (quiet_env h) (o_app_id opts) cfg
        (create_request_of app (o_app_id opts) owner cfg (o_image_ref opts)
          (containerEnvWithPort (o_env opts) (g_runtime_port cfg)) False net vols))
        (switch_traffic (quiet_env h) now onLive (o_app_id opts) cfg))"
  have "runBlueGreen (quiet_env h) now onLive opts st =
      bind_run (prepare_runtime (quiet_env h) app (o_app_id opts) (o_image_ref opts)) f st"
    using assms(1) by (simp add: runBlueGreen_def Let_def f_def cfg)
  then obtain st1 where "runBlueGreen (quiet_env h) now onLive opts st = f (''net'', []) st1"
    using quiet_prepare [of h app "o_app_id opts" "o_image_ref opts" f st] by metis
  then show ?thesis unfolding f_def prod.case by blast
qed


lemma quiet_deploy_healthy:
  assumes "find_app st (o_app_id opts) = Some (app, owner)"
    and "0 < g_hc_retries (resolve_config st app (o_app_id opts) (o_runtime_port opts) (o_healthcheck opts))"
  shows "\<exists>live st'. runBlueGreen (quiet_env H_healthy) now onLive opts st = (Inr live, st')"
  using quiet_run [OF assms(1) refl, of H_healthy now onLive] quiet_launch [OF assms(2)] quiet_switch by metis

lemma demo_found: "find_app demo_state (o_app_id demo_opts) = Some (demo_app, ''u1'')"
  by (simp add: demo_find)


lemma runBlueGreen_phases:
  assumes "runBlueGreen env now onLive opts st = (Inr res, st')"
    and "find_app st (o_app_id opts) = Some (app, owner)"
  obtains nv st1 req cid st2 where
    "prepare_runtime env app (o_app_id opts) (o_image_ref opts) st = (Inr nv, st1)"
    "launch_container env (o_app_id opts)
       (resolve_config st app (o_app_id opts) (o_runtime_port opts) (o_healthcheck opts)) req st1 = (Inr cid, st2)"
    "switch_traffic env now onLive (o_app_id opts)
       (resolve_config st app (o_app_id opts) (o_runtime_port opts) (o_healthcheck opts)) cid st2 = (Inr res, st')"
proof -
  let ?cfg = "resolve_config st app (o_app_id opts) (o_runtime_port opts) (o_healthcheck opts)"
  have "bind_run (prepare_runtime env app (o_app_id opts) (o_image_ref opts)) (\<lambda>(net, vols).
      bind_run (launch_container env (o_app_id opts) ?cfg
        (create_request_of app (o_app_id opts) owner ?cfg (o_image_ref opts)
           (containerEnvWithPort (o_env opts) (g_runtime_port ?cfg)) False net vols)) (\<lambda>cid.
      switch_traffic env now onLive (o_app_id opts) ?cfg cid)) st = (Inr res, st')"
    using assms by (simp add: runBlueGreen_def Let_def)
  then obtain nv st1 where p: "prepare_runtime env app (o_app_id opts) (o_image_ref opts) st = (Inr nv, st1)"
    and rest: "(case nv of (net, vols) \<Rightarrow> bind_run (launch_container env (o_app_id opts) ?cfg
        (create_request_of app (o_app_id opts) owner ?cfg (o_image_ref opts)
           (containerEnvWithPort (o_env opts) (g_runtime_port ?cfg)) False net vols)) (\<lambda>cid.
      switch_traffic env now onLive (o_app_id opts) ?cfg cid)) st1 = (Inr res, st')"
    by (rule bind_run_Inr)
  obtain net vols where nv: "nv = (net, vols)" by (cases nv)
  from rest [unfolded nv prod.case] show thesis by (rule bind_run_Inr) (rule that [OF p])
qed

text \<open>
  C3. Zero downtime. When a blue-green run succeeds, its calls read: first
  calls that leave the live slot alone, among them the start of the new
  container and a healthy answer of its probe; then the successful switch of
  the route to the new container; and only after it the stop and the removal of
  the containers of the old colour. The app row then names the new container
  and is running.
\<close>

theorem deploy_switches_only_when_healthy:
  assumes "runBlueGreen env now onLive opts st = (Inr (cid, col), st')"
    and "find_app st (o_app_id opts) = Some (app, owner)"
    and "fresh_cids env (set (live_names st app))"
    and "\<And>l s. rs_trace (onLive l s) = rs_trace s" and "\<And>l s. rs_apps (onLive l s) = rs_apps s"
  shows "\<exists>pre post dom port. rs_trace st' = rs_trace st @ pre @
      (SetUpstream (a_id app) dom (runtimeContainerName app col, port), R_ok) # post
    \<and> col = oppositeColor (getCurrentColor st (a_id app))
    \<and> (\<forall>ev\<in>set pre. keeps_live (set (live_names st app)) ev)
    \<and> (Start cid, R_ok) \<in> set pre \<and> healthy_event cid \<in> set pre
    \<and> (\<forall>n\<in>set (live_names st app). (\<exists>r. (Stop n, r) \<in> set post) \<and> (\<exists>r. (Remove n, r) \<in> set post))
    \<and> rs_apps st' = set_app (a_id app) (\<lambda>a. a\<lparr>a_container_id := Some (runtimeContainerName app col),
        a_status := A_running, a_updated_at := now\<rparr>) (rs_apps st)"
proof -
  let ?old = "set (live_names st app)"
  have i: "o_app_id opts = a_id app" using find_app_id [OF assms(2)] by simp
  define cfg where "cfg = resolve_config st app (a_id app) (o_runtime_port opts) (o_healthcheck opts)"
  have cfg: "g_new_name cfg = runtimeContainerName app (g_new_color cfg)" "set (g_old_names cfg) = ?old"
    "g_new_color cfg = oppositeColor (getCurrentColor st (a_id app))" by (simp_all add: cfg_def)
  have new: "g_new_name cfg \<notin> ?old" unfolding cfg_def by (simp add: names_of_other_color)
  obtain nv st1 req cid' st2 where c:
    "prepare_runtime env app (a_id app) (o_image_ref opts) st = (Inr nv, st1)"
    "launch_container env (a_id app) cfg req st1 = (Inr cid', st2)"
    "switch_traffic env now onLive (a_id app) cfg cid' st2 = (Inr (cid, col), st')"
    using runBlueGreen_phases [OF assms(1,2)] unfolding cfg_def i by blast
  note sw = switch_success [OF c(3) assms(4,5)]
  have same: "cid' = cid" "col = g_new_color cfg" using sw by simp_all
  obtain p1 where p1: "rs_trace st1 = rs_trace st @ p1" "\<forall>ev\<in>set p1. keeps_live ?old ev" "rs_apps st1 = rs_apps st"
    using keepsD [OF keeps_prepare c(1), of ?old] by (auto simp: extends_def)
  obtain p2 where p2: "rs_trace st2 = rs_trace st1 @ p2" "\<forall>ev\<in>set p2. keeps_live ?old ev" "rs_apps st2 = rs_apps st1"
    using keepsD [OF keeps_launch [OF new assms(3)] c(2)] by (auto simp: extends_def)
  have start: "(Start cid, R_ok) \<in> set p2" "healthy_event cid \<in> set p2"
    using launch_success [OF c(2)] p2(1) same(1) by auto
  obtain post where post: "rs_trace st' = rs_trace st2 @
      (SetUpstream (a_id app) (g_domain cfg) (g_new_name cfg, g_runtime_port cfg), R_ok) # post"
    "\<forall>n\<in>?old. (\<exists>r. (Stop n, r) \<in> set post) \<and> (\<exists>r. (Remove n, r) \<in> set post)"
    using sw unfolding cfg(2) by blast
  show ?thesis
  proof (intro exI conjI)
    show "rs_trace st' = rs_trace st @ (p1 @ p2) @
      (SetUpstream (a_id app) (g_domain cfg) (runtimeContainerName app col, g_runtime_port cfg), R_ok) # post"
      using post(1) p1(1) p2(1) cfg(1) same(2) by simp
    show "rs_apps st' = set_app (a_id app) (\<lambda>a. a\<lparr>a_container_id := Some (runtimeContainerName app col),
        a_status := A_running, a_updated_at := now\<rparr>) (rs_apps st)"
      using sw p1(3) p2(3) cfg(1) same(2) by simp
  qed (use same(2) cfg(3) p1(2) p2(2) start post(2) in auto)
qed

theorem deploy_switches_only_when_healthy_witness:
  "\<exists>cid col st'. runBlueGreen (quiet_env H_healthy) 9 (\<lambda>_ s. s) demo_opts demo_state = (Inr (cid, col), st')
    \<and> (\<exists>pre post dom port. rs_trace st' = pre @ (SetUpstream ''a1'' dom (runtimeContainerName demo_app col, port), R_ok) # post
      \<and> healthy_event cid \<in> set pre)"
proof -
  have "0 < g_hc_retries (resolve_config demo_state demo_app (o_app_id demo_opts) (o_runtime_port demo_opts) (o_healthcheck demo_opts))"
    by (simp add: resolve_config_def Let_def no_override_def coalesce3_def default_app_def or_default_def)
  from quiet_deploy_healthy [OF demo_found this]
  obtain cid col st' where r: "runBlueGreen (quiet_env H_healthy) 9 (\<lambda>_ s. s) demo_opts demo_state = (Inr (cid, col), st')"
    by (metis surj_pair)
  have i: "a_id demo_app = ''a1''" and t: "rs_trace demo_state = []" by (simp_all add: default_app_def)
  obtain pre post dom port where "rs_trace st' = pre @ (SetUpstream ''a1'' dom (runtimeContainerName demo_app col, port), R_ok) # post"
    "healthy_event cid \<in> set pre"
    using deploy_switches_only_when_healthy [OF r demo_found quiet_fresh refl refl] unfolding i t append_Nil by blast
  with r show ?thesis by blast
qed

subsection \<open>The probe loop\<close>

abbreviation inspections :: "string \<Rightarrow> history \<Rightarrow> nat" where
  "inspections cid xs \<equiv> length (filter (\<lambda>ev. fst ev = InspectHealth cid) xs)"

definition probe_result :: "string \<Rightarrow> nat \<Rightarrow> run_state \<Rightarrow> (run_error + bool) \<times> run_state \<Rightarrow> bool" where
  "probe_result cid n st r \<longleftrightarrow> (\<exists>xs. rs_trace (snd r) = rs_trace st @ xs \<and> inspections cid xs \<le> n
     \<and> fst r = Inr (healthy_event cid \<in> set xs))"

lemma probe_result_skip:
  assumes "probe_result cid n st1 r" and "rs_trace st1 = rs_trace st @ [(Sleep i, a), (InspectHealth cid, b)]"
    and "b \<noteq> R_health False H_healthy"
  shows "probe_result cid (Suc n) st r"
proof -
  from assms(1) obtain xs where xs: "rs_trace (snd r) = rs_trace st1 @ xs" "inspections cid xs \<le> n"
    "fst r = Inr (healthy_event cid \<in> set xs)" by (auto simp: probe_result_def)
  show ?thesis unfolding probe_result_def
    by (rule exI [of _ "[(Sleep i, a), (InspectHealth cid, b)] @ xs"]) (use xs assms(2,3) in auto)
qed

lemma poll_attempts_result: "probe_result cid n st (poll_attempts env cid iv n st)"
proof (induction n arbitrary: st)
  case 0
  show ?case by (simp add: probe_result_def return_run_def)
next
  case (Suc n)
  let ?st1 = "after env (Sleep iv) st"
  let ?b = "env (rs_trace ?st1) (InspectHealth cid)"
  let ?st2 = "after env (InspectHealth cid) ?st1"
  have t: "rs_trace ?st2 = rs_trace st @ [(Sleep iv, env (rs_trace st) (Sleep iv)), (InspectHealth cid, ?b)]" by simp
  have end_here: "probe_result cid (Suc n) st (Inr (?b = R_health False H_healthy), ?st2)"
    unfolding probe_result_def by (rule exI [of _ "[(Sleep iv, env (rs_trace st) (Sleep iv)), (InspectHealth cid, ?b)]"]) auto
  have "poll_attempts env cid iv (Suc n) st = (Inr (?b = R_health False H_healthy), ?st2)
    \<or> poll_attempts env cid iv (Suc n) st = poll_attempts env cid iv n ?st2 \<and> ?b \<noteq> R_health False H_healthy"
  proof (cases ?b)
    case (R_health missing h)
    then show ?thesis by (cases missing; cases h) (simp_all add: bind_try return_run_def)
  qed (simp_all add: bind_try)
  then show ?case using end_here probe_result_skip [OF Suc.IH t] by (elim disjE conjE) simp_all
qed

text \<open>
  C33. The probe of a new container ends: it asks the agent at most as often as
  the configured number of retries, never throws, and answers yes exactly when
  one of its calls was answered with a present and healthy container.
\<close>

theorem probe_is_bounded:
  "\<exists>xs. rs_trace (snd (pollHealthcheck env cid iv n sp st)) = rs_trace st @ xs
     \<and> inspections cid xs \<le> nat n
     \<and> fst (pollHealthcheck env cid iv n sp st) = Inr (healthy_event cid \<in> set xs)"
proof (cases "0 < sp")
  case True
  let ?st1 = "after env (Sleep sp) st"
  from poll_attempts_result [of cid "nat n" ?st1 env iv] obtain xs where
    "rs_trace (snd (poll_attempts env cid iv (nat n) ?st1)) = rs_trace ?st1 @ xs" "inspections cid xs \<le> nat n"
    "fst (poll_attempts env cid iv (nat n) ?st1) = Inr (healthy_event cid \<in> set xs)" by (auto simp: probe_result_def)
  with True show ?thesis
    by (intro exI [of _ "(Sleep sp, env (rs_trace st) (Sleep sp)) # xs"]) (auto simp: pollHealthcheck_def run_steps)
next
  case False
  then show ?thesis
    using poll_attempts_result [of cid "nat n" st env iv] by (auto simp: pollHealthcheck_def run_steps probe_result_def)
qed

subsection \<open>Recovery of a stale slot\<close>

text \<open>
  C18. Freeing a taken container name never stops the container the traffic goes
  to. Whenever creating a container stops or removes anything, it is the
  container of the requested name, and before that the route of the app was
  read and pointed elsewhere.
\<close>

theorem recovery_spares_routed_container:
  "\<exists>xs. rs_trace (snd (createContainerWithStaleSlotRecovery env i name req st)) = rs_trace st @ xs
    \<and> ((\<exists>n r. (Stop n, r) \<in> set xs \<or> (Remove n, r) \<in> set xs) =
       (\<exists>r up. xs ! 0 = (Create req, r) \<and> isAlreadyExists r
          \<and> xs ! 1 = (GetUpstream i, R_upstream up) \<and> map_option fst up \<noteq> Some name
          \<and> (\<exists>r1 r2 r3. xs = [xs ! 0, xs ! 1, (Stop name, r1), (Remove name, r2), (Create req, r3)])))"
proof -
  let ?r = "env (rs_trace st) (Create req)"
  let ?st1 = "after env (Create req) st"
  let ?u = "env (rs_trace ?st1) (GetUpstream i)"
  let ?st2 = "after env (GetUpstream i) ?st1"
  have run: "createContainerWithStaleSlotRecovery env i name req st =
     (case created_of ?r of Some cid \<Rightarrow> return_run cid ?st1
      | None \<Rightarrow> if \<not> isAlreadyExists ?r then throw E_agent ?st1
          else (case ?u of
               R_upstream upstream \<Rightarrow>
                 if map_option fst upstream = Some name then throw E_agent ?st2
                 else bind_run (stopContainer env name) (\<lambda>_. expect env (Create req) created_of E_agent) ?st2
             | _ \<Rightarrow> throw E_agent ?st2))"
    by (simp add: createContainerWithStaleSlotRecovery_def run_steps split: option.splits response.splits)
  have tail: "\<exists>r1 r2 r3. rs_trace (snd (bind_run (stopContainer env name)
      (\<lambda>_. expect env (Create req) created_of E_agent) s))
    = rs_trace s @ [(Stop name, r1), (Remove name, r2), (Create req, r3)]" for s
    by (simp add: stopContainer_def run_steps expect_def split: option.splits)
      (auto simp: return_run_def throw_def)
  show ?thesis
  proof (cases "created_of ?r = None \<and> isAlreadyExists ?r \<and> (\<exists>up. ?u = R_upstream up \<and> map_option fst up \<noteq> Some name)")
    case True
    then obtain up where up: "?u = R_upstream up" "map_option fst up \<noteq> Some name" by blast
    obtain r1 r2 r3 where "rs_trace (snd (createContainerWithStaleSlotRecovery env i name req st)) =
        rs_trace ?st2 @ [(Stop name, r1), (Remove name, r2), (Create req, r3)]"
      using tail [of ?st2] True up by (auto simp: run)
    then have "rs_trace (snd (createContainerWithStaleSlotRecovery env i name req st)) = rs_trace st @
        [(Create req, ?r), (GetUpstream i, ?u), (Stop name, r1), (Remove name, r2), (Create req, r3)]" by simp
    then show ?thesis using True up by (intro exI conjI) (assumption, auto)
  next
    case False
    then have "rs_trace (snd (createContainerWithStaleSlotRecovery env i name req st)) = rs_trace st @ [(Create req, ?r)]
      \<or> rs_trace (snd (createContainerWithStaleSlotRecovery env i name req st)) = rs_trace st @ [(Create req, ?r), (GetUpstream i, ?u)]"
      unfolding run by (auto simp: return_run_def throw_def split: option.splits response.splits)
    then show ?thesis by (elim disjE; intro exI conjI) auto
  qed
qed

subsection \<open>Stop\<close>

lemma stop_both_run:
  obtains xs st1 where "stop_both env app st = (Inr (), st1)" "rs_trace st1 = rs_trace st @ xs"
    "rs_apps st1 = rs_apps st"
    "\<And>c n. n \<in> set (runtimeContainerNameCandidates app c) \<Longrightarrow>
       (\<exists>r. (Stop n, r) \<in> set xs) \<and> (\<exists>r. (Remove n, r) \<in> set xs)"
proof -
  obtain u s1 where b: "stopContainerCandidates env (runtimeContainerNameCandidates app Blue) st = (Inr u, s1)"
    using no_throw_Inr [OF no_throw_stop_all] by blast
  obtain v s2 where g: "stopContainerCandidates env (runtimeContainerNameCandidates app Green) s1 = (Inr v, s2)"
    using no_throw_Inr [OF no_throw_stop_all] by blast
  obtain xs where xs: "rs_trace s1 = rs_trace st @ xs" "rs_apps s1 = rs_apps st"
    "\<forall>n\<in>set (runtimeContainerNameCandidates app Blue). (\<exists>r. (Stop n, r) \<in> set xs) \<and> (\<exists>r. (Remove n, r) \<in> set xs)"
    using stop_all_trace [OF b] by blast
  obtain ys where ys: "rs_trace s2 = rs_trace s1 @ ys" "rs_apps s2 = rs_apps s1"
    "\<forall>n\<in>set (runtimeContainerNameCandidates app Green). (\<exists>r. (Stop n, r) \<in> set ys) \<and> (\<exists>r. (Remove n, r) \<in> set ys)"
    using stop_all_trace [OF g] by blast
  have run: "stop_both env app st = (Inr (), s2)" using b g by (simp add: stop_both_def bind_run_def)
  have all: "(\<exists>r. (Stop n, r) \<in> set (xs @ ys)) \<and> (\<exists>r. (Remove n, r) \<in> set (xs @ ys))"
    if "n \<in> set (runtimeContainerNameCandidates app c)" for c n
    using that xs(3) ys(3) by (cases c) fastforce+
  show thesis by (rule that [OF run _ _ all]) (simp_all add: xs ys)
qed

text \<open>
  Stopping an app is complete: every name either colour may run under is
  stopped and removed, whatever the agent answers, and then the route is
  dropped. The row becomes stopped, without a container, exactly when the
  route was dropped; otherwise the call fails and the row is unchanged.
\<close>

theorem stop_app_is_complete:
  assumes "app_by_id (rs_apps st) i = Some app" and "stopApp env now i st = (res, st')"
  shows "\<exists>xs r. rs_trace st' = rs_trace st @ xs @ [(RemoveUpstream i, r)]
    \<and> (\<forall>c. \<forall>n\<in>set (runtimeContainerNameCandidates app c).
         (\<exists>r. (Stop n, r) \<in> set xs) \<and> (\<exists>r. (Remove n, r) \<in> set xs))
    \<and> (if r = R_ok then res = Inr () \<and> rs_apps st' =
          set_app i (\<lambda>a. a\<lparr>a_status := A_stopped, a_container_id := None, a_updated_at := now\<rparr>) (rs_apps st)
       else res = Inl E_caddy \<and> rs_apps st' = rs_apps st)"
proof -
  obtain xs st1 where c: "stop_both env app st = (Inr (), st1)" "rs_trace st1 = rs_trace st @ xs"
    "rs_apps st1 = rs_apps st"
    "\<And>c n. n \<in> set (runtimeContainerNameCandidates app c) \<Longrightarrow>
       (\<exists>r. (Stop n, r) \<in> set xs) \<and> (\<exists>r. (Remove n, r) \<in> set xs)"
    by (rule stop_both_run [of env app st]) blast
  let ?r = "env (rs_trace st1) (RemoveUpstream i)"
  have run: "stopApp env now i st = (case ok_of ?r of
      Some _ \<Rightarrow> (Inr (), mark_stopped now i (after env (RemoveUpstream i) st1))
    | None \<Rightarrow> (Inl E_caddy, after env (RemoveUpstream i) st1))"
    using assms(1) c(1) by (simp add: stopApp_def bind_run_def [of "stop_both env app"] bind_expect update_run_def split: option.splits)
  show ?thesis
  proof (intro exI conjI)
    show "rs_trace st' = rs_trace st @ xs @ [(RemoveUpstream i, ?r)]"
      using assms(2) run c(2) by (auto simp: mark_stopped_def split: option.splits)
    show "if ?r = R_ok then res = Inr () \<and> rs_apps st' =
          set_app i (\<lambda>a. a\<lparr>a_status := A_stopped, a_container_id := None, a_updated_at := now\<rparr>) (rs_apps st)
       else res = Inl E_caddy \<and> rs_apps st' = rs_apps st"
      using assms(2) run c(3) by (auto simp: mark_stopped_def split: option.splits)
  qed (use c(4) in blast)
qed

theorem stop_app_is_complete_witness:
  "\<exists>xs r. rs_trace (snd (stopApp (quiet_env H_none) 9 ''a1'' demo_state)) = xs @ [(RemoveUpstream ''a1'', r)]
     \<and> (\<exists>r. (Stop (runtimeContainerName demo_app Green), r) \<in> set xs)"
proof -
  have f: "app_by_id (rs_apps demo_state) ''a1'' = Some demo_app" by (simp add: select_first_def default_app_def)
  obtain res st' where r: "stopApp (quiet_env H_none) 9 ''a1'' demo_state = (res, st')" by fastforce
  have n: "runtimeContainerName demo_app Green \<in> set (runtimeContainerNameCandidates demo_app Green)"
    by (simp add: runtimeContainerNameCandidates_def Let_def)
  have t: "rs_trace demo_state = []" by simp
  from stop_app_is_complete [OF f r] obtain xs ev where
    "rs_trace st' = xs @ [(RemoveUpstream ''a1'', ev)]" "\<exists>r. (Stop (runtimeContainerName demo_app Green), r) \<in> set xs"
    unfolding t append_Nil using n by blast
  with r show ?thesis by auto
qed

subsection \<open>Restart\<close>

text \<open>
  A restart that fails after it began leaves the row in \<open>restarting\<close>. The
  status is written before the work and no path of the failure writes it
  again, although the containers of both colours have been stopped and removed.
\<close>

theorem failed_restart_stays_restarting:
  assumes "restartApp env now renv i st = (Inl e, st')" and "e \<noteq> E_no_image"
    and "app_by_id (rs_apps st) i = Some app"
  shows "rs_apps st' = set_app i (\<lambda>a. a\<lparr>a_status := A_restarting, a_updated_at := now\<rparr>) (rs_apps st)
    \<and> (\<exists>xs. rs_trace st' = rs_trace st @ xs \<and> (\<forall>c. \<forall>n\<in>set (runtimeContainerNameCandidates app c).
         (\<exists>r. (Stop n, r) \<in> set xs) \<and> (\<exists>r. (Remove n, r) \<in> set xs)))"
proof -
  let ?st0 = "mark_restarting now i st"
  let ?app = "app\<lparr>a_status := A_restarting, a_updated_at := now\<rparr>"
  obtain img where heavy: "runRestartHeavyWork env now renv i img ?st0 = (Inl e, st')"
    using assms(1,2)
    by (auto simp: restartApp_def throw_def bind_update split: option.splits if_splits)
  have app: "app_by_id (rs_apps ?st0) i = Some ?app"
    using assms(3) by (simp add: mark_restarting_def select_first_update_where)
  have names: "runtimeContainerNameCandidates ?app = runtimeContainerNameCandidates app"
    by (simp add: fun_eq_iff runtimeContainerNameCandidates_def runtimeContainerName_def
        legacyRuntimeContainerName_def Let_def)
  obtain xs st1 where c: "stop_both env ?app ?st0 = (Inr (), st1)" "rs_trace st1 = rs_trace ?st0 @ xs"
    "rs_apps st1 = rs_apps ?st0"
    "\<And>c n. n \<in> set (runtimeContainerNameCandidates ?app c) \<Longrightarrow>
       (\<exists>r. (Stop n, r) \<in> set xs) \<and> (\<exists>r. (Remove n, r) \<in> set xs)"
    by (rule stop_both_run [of env ?app ?st0]) blast
  let ?st2 = "after env (RemoveUpstream i) st1"
  have "st' = ?st2 \<or> (\<exists>opts. runBlueGreen env now (\<lambda>_ s. s) opts ?st2 = (Inl e, st'))"
    using heavy app c(1)
    by (auto simp: runRestartHeavyWork_def bind_run_def [of "stop_both env ?app"] bind_expect throw_def Let_def
        return_run_def split: option.splits elim!: bind_run_Inl)
  then have "extends (keeps_live {}) ?st2 st'"
  proof
    assume "\<exists>opts. runBlueGreen env now (\<lambda>_ s. s) opts ?st2 = (Inl e, st')"
    then obtain opts where b: "runBlueGreen env now (\<lambda>_ s. s) opts ?st2 = (Inl e, st')" ..
    show ?thesis by (rule failed_run_extends [OF b]) (simp_all add: fresh_cids_def)
  qed simp
  then obtain ys where ys: "rs_trace st' = rs_trace ?st2 @ ys" "rs_apps st' = rs_apps ?st2"
    by (auto simp: extends_def)
  show ?thesis
  proof (intro conjI exI)
    show "rs_trace st' = rs_trace st @ (xs @ (RemoveUpstream i, env (rs_trace st1) (RemoveUpstream i)) # ys)"
      using ys(1) c(2) by (simp add: mark_restarting_def)
    show "rs_apps st' = set_app i (\<lambda>a. a\<lparr>a_status := A_restarting, a_updated_at := now\<rparr>) (rs_apps st)"
      using ys(2) c(3) by (simp add: mark_restarting_def)
  qed (use c(4) names in fastforce)
qed

theorem failed_restart_stays_restarting_witness:
  "map a_status (rs_apps (snd (restartApp (quiet_env H_none) 9 None ''a1'' (demo_state\<lparr>rs_builds :=
     [(fresh_build ''b1'' ''a1'' 0)\<lparr>b_status := B_succeeded, b_image_tag := Some ''img''\<rparr>]\<rparr>)))) = [A_restarting]"
proof -
  let ?st = "demo_state\<lparr>rs_builds := [(fresh_build ''b1'' ''a1'' 0)\<lparr>b_status := B_succeeded, b_image_tag := Some ''img''\<rparr>]\<rparr>"
  let ?mk = "mark_restarting 9 ''a1'' ?st"
  let ?app = "demo_app\<lparr>a_status := A_restarting, a_updated_at := 9\<rparr>"
  have f: "app_by_id (rs_apps ?st) ''a1'' = Some demo_app" by (simp add: select_first_def default_app_def)
  have g: "app_by_id (rs_apps ?mk) ''a1'' = Some ?app"
    by (simp add: mark_restarting_def select_first_def default_app_def update_where_def)
  obtain xs st1 where "stop_both (quiet_env H_none) ?app ?mk = (Inr (), st1)"
    by (rule stop_both_run [of "quiet_env H_none" ?app ?mk]) blast
  then have "runRestartHeavyWork (quiet_env H_none) 9 None ''a1'' ''img'' ?mk =
      (Inl E_env, after (quiet_env H_none) (RemoveUpstream ''a1'') st1)"
    using g by (simp add: runRestartHeavyWork_def bind_run_def [of "stop_both (quiet_env H_none) ?app"] bind_expect throw_def)
  moreover have "restartApp (quiet_env H_none) 9 None ''a1'' ?st = runRestartHeavyWork (quiet_env H_none) 9 None ''a1'' ''img'' ?mk"
    by (simp add: restartApp_def bind_update first_row_def order_desc_def select_where_def fresh_build_def)
  ultimately obtain st' where r: "restartApp (quiet_env H_none) 9 None ''a1'' ?st = (Inl E_env, st')" by simp
  have "rs_apps st' = [?app]"
    using failed_restart_stays_restarting [OF r _ f] by (simp add: update_where_def default_app_def)
  then show ?thesis unfolding r by simp
qed

subsection \<open>Rollback\<close>









end
