(* ===== verification/Agent_Validator.thy ===== *)
theory Agent_Validator
  imports Runtime_Names
begin

text \<open>
  The allowlist the agent checks before every Docker operation
  (\<^verbatim>\<open>agent/ploydok-agent/src/validator.rs\<close>, \<^verbatim>\<open>StrictValidator\<close>). A check
  answers \<open>None\<close> for \<^verbatim>\<open>Ok(())\<close> and otherwise the gRPC code and the name of the
  violated rule; the JSON detail of the message is left out. A Rust string is a
  list of Latin-1 characters here; its \<^verbatim>\<open>len()\<close> counts UTF-8 bytes. A CPU
  limit is a finite number.
\<close>

section \<open>Verdicts\<close>

datatype tonic_code = InvalidArgument | PermissionDenied

type_synonym verdict = "(tonic_code \<times> string) option"

definition deny_if :: "bool \<Rightarrow> tonic_code \<Rightarrow> string \<Rightarrow> verdict" where
  "deny_if b code rule = (if b then Some (code, rule) else None)"

text \<open>Checks in sequence: the first denial is returned early.\<close>

fun first_denial :: "verdict list \<Rightarrow> verdict" where
  "first_denial [] = None"
| "first_denial (v # vs) = (case v of Some d \<Rightarrow> Some d | None \<Rightarrow> first_denial vs)"

section \<open>Requests and configuration\<close>

record agent_limits =
  al_cpu :: rat
  al_memory_bytes :: int
  al_pids_limit :: int

record agent_healthcheck =
  ah_test :: "string list"
  ah_interval_seconds :: int
  ah_timeout_seconds :: int
  ah_retries :: int
  ah_start_period_seconds :: int

record volume_mount =
  vm_host_path :: string
  vm_container_path :: string
  vm_read_only :: bool

record container_create_request =
  ac_name :: string
  ac_image :: string
  ac_env :: "(string \<times> string) list"
  ac_labels :: "(string \<times> string) list"
  ac_network :: string
  ac_volumes :: "volume_mount list"
  ac_restart_policy :: string
  ac_resource_limits :: "agent_limits option"
  ac_command :: "string list"
  ac_user :: string
  ac_networks :: "string list"
  ac_healthcheck :: "agent_healthcheck option"

record network_create_request =
  an_name :: string
  an_driver :: string
  an_attachable :: bool

record exec_start =
  ae_container_id :: string
  ae_cmd :: "string list"
  ae_user :: string

record service_spec =
  as_name :: string
  as_image :: string
  as_labels :: "(string \<times> string) list"
  as_networks :: "string list"
  as_mounts :: "volume_mount list"
  as_resource_limits :: "agent_limits option"
  as_user :: string

record service_update =
  au_service_name :: string
  au_image :: string
  au_spec :: "service_spec option"

record validator_config =
  vc_allowed_registries :: "string list"
  vc_volume_prefix :: string
  vc_app_volume_prefix :: string
  vc_max_cpu :: rat
  vc_max_memory_bytes :: int

definition default_config :: validator_config where
  "default_config =
     \<lparr>vc_allowed_registries = [''docker.io'', ''ghcr.io'', ''registry.ploydok.io''],
      vc_volume_prefix = ''/var/lib/ploydok/volumes'',
      vc_app_volume_prefix = ''/var/lib/ploydok/app-volumes'',
      vc_max_cpu = 4,
      vc_max_memory_bytes = 8 * 1024 * 1024 * 1024\<rparr>"

section \<open>Helpers\<close>

definition utf8_len :: "string \<Rightarrow> nat" where
  "utf8_len s = sum_list (map (\<lambda>c. if of_char c < (128::nat) then 1 else 2) s)"

definition is_hex :: "char \<Rightarrow> bool" where
  "is_hex c \<longleftrightarrow> is_digit c \<or> c \<in> set ''abcdefABCDEF''"

definition looks_like_short_id :: "string \<Rightarrow> bool" where
  "looks_like_short_id s \<longleftrightarrow> (utf8_len s = 12 \<or> utf8_len s = 64) \<and> list_all is_hex s"

definition looks_like_network_id :: "string \<Rightarrow> bool" where
  "looks_like_network_id s \<longleftrightarrow> utf8_len s = 64 \<and> list_all is_hex s"

text \<open>\<^verbatim>\<open>s.find(c)\<close> and the slice before it.\<close>

definition before_char :: "char \<Rightarrow> string \<Rightarrow> string option" where
  "before_char c s = (if c \<in> set s then Some (takeWhile (\<lambda>x. x \<noteq> c) s) else None)"

definition extract_registry :: "string \<Rightarrow> string" where
  "extract_registry img =
     (let without_tag = (case before_char CHR ''@'' img of Some u \<Rightarrow> u | None \<Rightarrow> img)
      in case before_char CHR ''/'' without_tag of
           Some candidate \<Rightarrow>
             if CHR ''.'' \<in> set candidate \<or> CHR '':'' \<in> set candidate \<or> candidate = ''localhost''
             then candidate else ''docker.io''
         | None \<Rightarrow> ''docker.io'')"

definition trim_end_slashes :: "string \<Rightarrow> string" where
  "trim_end_slashes s = rev (dropWhile (\<lambda>c. c = CHR ''/'') (rev s))"

definition validate_host_path :: "string \<Rightarrow> string list \<Rightarrow> bool" where
  "validate_host_path host_path allowed_prefixes \<longleftrightarrow>
     \<not> (CHR 0x00 \<in> set host_path \<or> str_includes ''..'' host_path)
     \<and> list_ex (\<lambda>pfx. starts_with (trim_end_slashes pfx @ ''/'') host_path \<or> host_path = trim_end_slashes pfx)
         allowed_prefixes"

definition registry_allowed :: "validator_config \<Rightarrow> string \<Rightarrow> bool" where
  "registry_allowed cfg img \<longleftrightarrow> list_ex (\<lambda>r. r = extract_registry img) (vc_allowed_registries cfg)"

definition has_label :: "(string \<times> string) list \<Rightarrow> string \<Rightarrow> bool" where
  "has_label labels key \<longleftrightarrow> (case map_of labels key of Some v \<Rightarrow> v \<noteq> [] | None \<Rightarrow> False)"

definition validate_container_id :: "string \<Rightarrow> verdict" where
  "validate_container_id i = first_denial
     [deny_if (i = []) InvalidArgument ''container_id_empty'',
      deny_if (\<not> starts_with ''sha256:'' i \<and> \<not> looks_like_short_id i \<and> \<not> starts_with ''ploydok-'' i)
        PermissionDenied ''container_name_prefix'']"

definition validate_network_name :: "string \<Rightarrow> verdict" where
  "validate_network_name network =
     deny_if (network = [] \<or> \<not> starts_with ''ploydok-'' network) PermissionDenied ''network_prefix''"

text \<open>\<^verbatim>\<open>^ploydok-app-[a-z0-9][a-z0-9-]{0,90}$\<close>\<close>

definition service_name_ok :: "string \<Rightarrow> bool" where
  "service_name_ok name \<longleftrightarrow> starts_with ''ploydok-app-'' name
     \<and> (case drop 12 name of
          [] \<Rightarrow> False
        | c # rest \<Rightarrow> is_alnum c \<and> length rest \<le> 90 \<and> list_all (\<lambda>x. is_alnum x \<or> is_dash x) rest)"

definition validate_service_name :: "string \<Rightarrow> verdict" where
  "validate_service_name name = deny_if (\<not> service_name_ok name) InvalidArgument ''service_name_prefix''"

definition validate_browse_path :: "string \<Rightarrow> verdict" where
  "validate_browse_path path = first_denial
     [deny_if (\<not> starts_with ''/'' path) InvalidArgument ''path_not_absolute'',
      deny_if (CHR 0x00 \<in> set path) InvalidArgument ''path_contains_nul'',
      deny_if (''..'' \<in> set (split_on CHR ''/'' path)) InvalidArgument ''path_contains_dotdot'',
      deny_if (utf8_len path > 4096) InvalidArgument ''path_too_long'']"

definition validate_age_recipient :: "string \<Rightarrow> verdict" where
  "validate_age_recipient recipient = first_denial
     [deny_if (\<not> starts_with ''age1'' recipient) InvalidArgument ''age_recipient_format'',
      deny_if (utf8_len recipient < 60 \<or> utf8_len recipient > 100) InvalidArgument ''age_recipient_length'',
      deny_if (\<not> list_all (\<lambda>c. is_lower c \<or> is_digit c) (drop 4 recipient)) InvalidArgument ''age_recipient_chars'']"

section \<open>The checks\<close>

definition validate_healthcheck :: "agent_healthcheck \<Rightarrow> verdict" where
  "validate_healthcheck h = first_denial
     [deny_if (ah_test h = []) InvalidArgument ''healthcheck_test_empty'',
      deny_if (hd (ah_test h) \<notin> {''CMD'', ''CMD-SHELL'', ''NONE''}) InvalidArgument ''healthcheck_mode_invalid'',
      deny_if (list_ex (\<lambda>v. v < 0) [ah_interval_seconds h, ah_timeout_seconds h, ah_start_period_seconds h])
        InvalidArgument ''healthcheck_negative_duration'']"

definition net_candidates :: "container_create_request \<Rightarrow> string list" where
  "net_candidates req = filter (\<lambda>n. n \<noteq> []) (ac_network req # ac_networks req)"

definition validate_create_network :: "string \<Rightarrow> verdict" where
  "validate_create_network n = first_denial
     [deny_if (n = ''host'') PermissionDenied ''network_host_forbidden'',
      deny_if (\<not> starts_with ''ploydok-'' n) PermissionDenied ''network_prefix'']"

definition root_user :: "string \<Rightarrow> bool" where
  "root_user u \<longleftrightarrow> u = ''root'' \<or> u = ''0'' \<or> starts_with ''0:'' u"

definition validate_limits :: "validator_config \<Rightarrow> agent_limits option \<Rightarrow> verdict" where
  "validate_limits cfg limits =
     (case limits of
        None \<Rightarrow> None
      | Some l \<Rightarrow> first_denial
          [deny_if (al_cpu l > vc_max_cpu cfg \<and> al_cpu l > 0) InvalidArgument ''resource_cpu_limit'',
           deny_if (al_memory_bytes l > vc_max_memory_bytes cfg \<and> al_memory_bytes l > 0)
             InvalidArgument ''resource_memory_limit''])"

definition validate_volumes :: "validator_config \<Rightarrow> volume_mount list \<Rightarrow> verdict" where
  "validate_volumes cfg vols =
     deny_if (\<not> list_all (\<lambda>v. validate_host_path (vm_host_path v) [vc_volume_prefix cfg, vc_app_volume_prefix cfg]) vols)
       PermissionDenied ''volume_host_path''"

definition validate_labels :: "(string \<times> string) list \<Rightarrow> verdict" where
  "validate_labels labels =
     deny_if (\<not> list_all (has_label labels) [''ploydok.app_id'', ''ploydok.owner_id'']) InvalidArgument ''required_labels''"

definition validate_container_create :: "validator_config \<Rightarrow> container_create_request \<Rightarrow> verdict" where
  "validate_container_create cfg req = first_denial
     ([deny_if (\<not> agent_container_name (ac_name req)) InvalidArgument ''container_name_prefix'',
       deny_if (\<not> registry_allowed cfg (ac_image req)) PermissionDenied ''image_registry_allowlist'',
       validate_volumes cfg (ac_volumes req),
       validate_labels (ac_labels req),
       (case ac_healthcheck req of None \<Rightarrow> None | Some h \<Rightarrow> validate_healthcheck h)]
      @ map validate_create_network (net_candidates req)
      @ [deny_if (ac_user req \<noteq> [] \<and> root_user (ac_user req)) PermissionDenied ''user_root_forbidden'',
         validate_limits cfg (ac_resource_limits req)])"

text \<open>Start, stop and remove share one check.\<close>

definition validate_container_start :: "string \<Rightarrow> verdict" where
  "validate_container_start container_id = validate_container_id container_id"

definition validate_container_stop :: "string \<Rightarrow> verdict" where
  "validate_container_stop container_id = validate_container_id container_id"

definition validate_container_remove :: "string \<Rightarrow> verdict" where
  "validate_container_remove container_id = validate_container_id container_id"

definition validate_image_pull :: "validator_config \<Rightarrow> string \<Rightarrow> verdict" where
  "validate_image_pull cfg img = deny_if (\<not> registry_allowed cfg img) PermissionDenied ''image_registry_allowlist''"

definition validate_image_build :: "string \<Rightarrow> verdict" where
  "validate_image_build tag = deny_if (\<not> starts_with ''ploydok-'' tag) PermissionDenied ''image_build_tag_prefix''"

definition validate_network_create :: "network_create_request \<Rightarrow> verdict" where
  "validate_network_create req =
     (let driver = (if an_driver req = [] then ''bridge'' else an_driver req)
      in first_denial
        [deny_if (\<not> starts_with ''ploydok-'' (an_name req)) PermissionDenied ''network_name_prefix'',
         deny_if (driver \<notin> {''bridge'', ''overlay''}) PermissionDenied ''network_driver_forbidden'',
         deny_if (driver = ''overlay'' \<and> \<not> an_attachable req) InvalidArgument ''overlay_network_must_be_attachable''])"

definition validate_network_remove :: "string \<Rightarrow> verdict" where
  "validate_network_remove network_id = first_denial
     [deny_if (network_id = []) InvalidArgument ''network_id_empty'',
      deny_if (\<not> looks_like_network_id network_id \<and> \<not> starts_with ''ploydok-'' network_id)
        PermissionDenied ''network_name_prefix'']"

definition validate_network_connect :: "string \<Rightarrow> string \<Rightarrow> verdict" where
  "validate_network_connect network_id container_id = first_denial
     [validate_network_remove network_id,
      deny_if (container_id = []) InvalidArgument ''container_id_empty'']"

definition validate_network_disconnect :: "string \<Rightarrow> string \<Rightarrow> verdict" where
  "validate_network_disconnect network_id container_id = first_denial
     [validate_network_remove network_id,
      deny_if (container_id = []) InvalidArgument ''container_id_empty'']"

text \<open>\<^verbatim>\<open>char::is_alphanumeric\<close> on Latin-1: the letters, the digits and the other numbers.\<close>

definition is_alphanumeric :: "char \<Rightarrow> bool" where
  "is_alphanumeric c \<longleftrightarrow> is_lower c \<or> is_upper c \<or> is_digit c
     \<or> (let n = of_char c :: nat in n \<in> {170, 178, 179, 181, 185, 186, 188, 189, 190}
          \<or> (192 \<le> n \<and> n \<noteq> 215 \<and> n \<noteq> 247))"

definition ALLOWED_SHELLS :: "string list" where
  "ALLOWED_SHELLS = [''/bin/sh'', ''/bin/bash'', ''sh'', ''bash'']"

definition validate_container_exec :: "exec_start \<Rightarrow> verdict" where
  "validate_container_exec req = first_denial
     [validate_container_id (ae_container_id req),
      deny_if (ae_cmd req = []) InvalidArgument ''exec_cmd_empty'',
      deny_if (hd (ae_cmd req) \<notin> set ALLOWED_SHELLS) PermissionDenied ''exec_cmd_not_allowed'',
      deny_if (ae_user req \<noteq> [] \<and> utf8_len (ae_user req) > 32) InvalidArgument ''exec_user_too_long'',
      deny_if (ae_user req \<noteq> [] \<and> \<not> list_all (\<lambda>c. is_alphanumeric c \<or> c = CHR '':'') (ae_user req))
        InvalidArgument ''exec_user_invalid_chars'']"

definition validate_list_container_files :: "string \<Rightarrow> string \<Rightarrow> verdict" where
  "validate_list_container_files container_id path =
     first_denial [validate_container_id container_id, validate_browse_path path]"

definition validate_read_container_file :: "string \<Rightarrow> string \<Rightarrow> verdict" where
  "validate_read_container_file container_id path =
     first_denial [validate_container_id container_id, validate_browse_path path]"

definition validate_inspect_container_health :: "string \<Rightarrow> verdict" where
  "validate_inspect_container_health container_id = validate_container_id container_id"

definition validate_service_create :: "validator_config \<Rightarrow> service_spec \<Rightarrow> verdict" where
  "validate_service_create cfg req = first_denial
     ([validate_service_name (as_name req),
       deny_if (\<not> registry_allowed cfg (as_image req)) PermissionDenied ''image_registry_allowlist'']
      @ map validate_network_name (as_networks req)
      @ [validate_volumes cfg (as_mounts req),
         validate_labels (as_labels req),
         validate_limits cfg (as_resource_limits req)])"

definition validate_service_update_image :: "validator_config \<Rightarrow> service_update \<Rightarrow> verdict" where
  "validate_service_update_image cfg req = first_denial
     ([validate_service_name (au_service_name req)]
      @ (case au_spec req of
           None \<Rightarrow> []
         | Some spec \<Rightarrow>
             [validate_service_create cfg spec,
              deny_if (as_name spec \<noteq> au_service_name req) InvalidArgument ''service_name_mismatch''])
      @ [deny_if (\<not> registry_allowed cfg (case au_spec req of Some spec \<Rightarrow> as_image spec | None \<Rightarrow> au_image req))
           PermissionDenied ''image_registry_allowlist''])"

definition validate_service_scale :: "string \<Rightarrow> verdict" where
  "validate_service_scale service_name = validate_service_name service_name"

definition validate_service_rollback :: "string \<Rightarrow> verdict" where
  "validate_service_rollback service_name = validate_service_name service_name"

definition validate_service_remove :: "string \<Rightarrow> verdict" where
  "validate_service_remove service_name = validate_service_name service_name"

definition validate_list_service_tasks :: "string \<Rightarrow> verdict" where
  "validate_list_service_tasks service_name = validate_service_name service_name"

section \<open>Lemmas on verdicts\<close>

lemma deny_if_None [simp]: "deny_if b code rule = None \<longleftrightarrow> \<not> b"
  by (simp add: deny_if_def)

lemma first_denial_None [simp]: "first_denial vs = None \<longleftrightarrow> (\<forall>v\<in>set vs. v = None)"
  by (induction vs) (auto split: option.splits)

declare first_denial.simps [simp del]

section \<open>Lexical resolution of paths\<close>

text \<open>
  The path a file system walks: empty and \<open>.\<close> segments stay, \<open>..\<close> goes up. It
  is what the checks of host paths are about; the agent itself never computes it.
\<close>

fun walk :: "string list \<Rightarrow> string list \<Rightarrow> string list" where
  "walk pos [] = pos"
| "walk pos (s # ss) =
     walk (if s = [] \<or> s = ''.'' then pos else if s = ''..'' then butlast pos else pos @ [s]) ss"

definition resolved :: "string \<Rightarrow> string list" where
  "resolved path = walk [] (split_on CHR ''/'' path)"

lemma walk_append: "walk pos (us @ vs) = walk (walk pos us) vs"
  by (induction us arbitrary: pos) auto

lemma walk_extends: "''..'' \<notin> set ss \<Longrightarrow> \<exists>more. walk pos ss = pos @ more"
proof (induction ss arbitrary: pos)
  case (Cons s ss)
  then obtain more where
    "walk (if s = [] \<or> s = ''.'' then pos else pos @ [s]) ss = (if s = [] \<or> s = ''.'' then pos else pos @ [s]) @ more"
    by fastforce
  with Cons.prems show ?case by (auto split: if_splits)
qed simp

lemma split_on_append: "split_on c (p @ c # s) = split_on c p @ split_on c s"
  by (induction p) (auto split: list.splits)

lemma split_on_join: "concat (map (\<lambda>p. c # p) (split_on c s)) = c # s"
  by (induction c s rule: split_on.induct) (auto split: list.splits)

lemma segment_included:
  assumes "p \<in> set (split_on c s)" shows "str_includes p s"
proof -
  from assms obtain us vs where s: "split_on c s = us @ p # vs" by (auto simp: in_set_conv_decomp)
  have "c # s = concat (map (\<lambda>p. c # p) us) @ c # p @ concat (map (\<lambda>p. c # p) vs)"
    using split_on_join [of c s] by (simp add: s)
  then have "\<exists>u v. s = u @ p @ v"
  proof (cases "concat (map (\<lambda>p. c # p) us)")
    case (Cons x list)
    with \<open>c # s = _\<close> have "s = (list @ [c]) @ p @ concat (map (\<lambda>p. c # p) vs)" by simp
    then show ?thesis by blast
  qed auto
  then show ?thesis by (simp add: str_includes_iff)
qed

lemma resolved_below:
  assumes "''..'' \<notin> set (split_on CHR ''/'' rest)"
  shows "\<exists>more. resolved (p @ CHR ''/'' # rest) = resolved p @ more"
  unfolding resolved_def split_on_append walk_append by (rule walk_extends [OF assms])

lemma resolved_trim: "resolved (trim_end_slashes p) = resolved p"
proof -
  have "resolved (s @ replicate n CHR ''/'') = resolved s" for s n
  proof (induction n)
    case (Suc n)
    have e: "s @ replicate (Suc n) CHR ''/'' = (s @ replicate n CHR ''/'') @ CHR ''/'' # []"
      by (simp add: replicate_app_Cons_same)
    show ?case unfolding e using Suc.IH by (simp only: resolved_def split_on_append walk_append split_on.simps walk.simps if_True simp_thms)
  qed simp
  moreover have "p = trim_end_slashes p @ rev (takeWhile (\<lambda>c. c = CHR ''/'') (rev p))"
    unfolding trim_end_slashes_def by (metis rev_append rev_rev_ident takeWhile_dropWhile_id)
  moreover have "rev (takeWhile (\<lambda>c. c = CHR ''/'') (rev p)) =
      replicate (length (takeWhile (\<lambda>c. c = CHR ''/'') (rev p))) CHR ''/''"
  proof -
    have "replicate (length (takeWhile (\<lambda>c. c = CHR ''/'') (rev p))) CHR ''/'' = takeWhile (\<lambda>c. c = CHR ''/'') (rev p)"
      by (rule replicate_length_same) (auto dest: set_takeWhileD)
    from this [symmetric] show ?thesis by (metis rev_replicate)
  qed
  ultimately show ?thesis by metis
qed

lemma host_path_below:
  assumes "validate_host_path path prefixes"
  shows "\<exists>pfx\<in>set prefixes. \<exists>more. resolved path = resolved pfx @ more"
proof -
  from assms obtain pfx where p: "pfx \<in> set prefixes" and nodots: "\<not> str_includes ''..'' path"
    and w: "starts_with (trim_end_slashes pfx @ ''/'') path \<or> path = trim_end_slashes pfx"
    by (auto simp: validate_host_path_def list_ex_iff)
  from w show ?thesis
  proof
    assume "starts_with (trim_end_slashes pfx @ ''/'') path"
    then obtain rest where rest: "path = trim_end_slashes pfx @ CHR ''/'' # rest" by (auto simp: starts_with_iff)
    have "\<not> str_includes ''..'' rest"
      using nodots str_includes_append [of "''..''" rest "trim_end_slashes pfx @ ''/''"] by (auto simp: rest)
    then have "''..'' \<notin> set (split_on CHR ''/'' rest)" using segment_included by blast
    with p show ?thesis using resolved_below [of rest "trim_end_slashes pfx"] by (auto simp: rest resolved_trim)
  next
    assume "path = trim_end_slashes pfx"
    with p show ?thesis by (auto simp: resolved_trim)
  qed
qed

lemma create_conditions:
  "validate_container_create cfg req = None \<longleftrightarrow>
     agent_container_name (ac_name req)
     \<and> extract_registry (ac_image req) \<in> set (vc_allowed_registries cfg)
     \<and> list_all (\<lambda>v. validate_host_path (vm_host_path v) [vc_volume_prefix cfg, vc_app_volume_prefix cfg]) (ac_volumes req)
     \<and> has_label (ac_labels req) ''ploydok.app_id'' \<and> has_label (ac_labels req) ''ploydok.owner_id''
     \<and> (case ac_healthcheck req of None \<Rightarrow> True
        | Some h \<Rightarrow> (case ah_test h of [] \<Rightarrow> False | mode # _ \<Rightarrow> mode \<in> {''CMD'', ''CMD-SHELL'', ''NONE''})
            \<and> 0 \<le> ah_interval_seconds h \<and> 0 \<le> ah_timeout_seconds h \<and> 0 \<le> ah_start_period_seconds h)
     \<and> list_all (\<lambda>n. n = [] \<or> starts_with ''ploydok-'' n) (ac_network req # ac_networks req)
     \<and> \<not> root_user (ac_user req)
     \<and> (case ac_resource_limits req of None \<Rightarrow> True
        | Some l \<Rightarrow> al_cpu l \<le> max (vc_max_cpu cfg) 0 \<and> al_memory_bytes l \<le> max (vc_max_memory_bytes cfg) 0)"
proof -
  have nets: "(\<forall>n\<in>set (net_candidates req). validate_create_network n = None) \<longleftrightarrow>
      (ac_network req = [] \<or> starts_with ''ploydok-'' (ac_network req))
      \<and> list_all (\<lambda>n. n = [] \<or> starts_with ''ploydok-'' n) (ac_networks req)"
    by (auto simp: net_candidates_def validate_create_network_def list_all_iff starts_with_def)
  have hc: "(case ac_healthcheck req of None \<Rightarrow> None | Some h \<Rightarrow> validate_healthcheck h) = None \<longleftrightarrow>
      (case ac_healthcheck req of None \<Rightarrow> True
        | Some h \<Rightarrow> (case ah_test h of [] \<Rightarrow> False | mode # _ \<Rightarrow> mode \<in> {''CMD'', ''CMD-SHELL'', ''NONE''})
            \<and> 0 \<le> ah_interval_seconds h \<and> 0 \<le> ah_timeout_seconds h \<and> 0 \<le> ah_start_period_seconds h)"
    by (auto simp: validate_healthcheck_def not_less split: option.splits list.splits)
  have lim: "validate_limits cfg (ac_resource_limits req) = None \<longleftrightarrow>
      (case ac_resource_limits req of None \<Rightarrow> True
        | Some l \<Rightarrow> al_cpu l \<le> max (vc_max_cpu cfg) 0 \<and> al_memory_bytes l \<le> max (vc_max_memory_bytes cfg) 0)"
    by (auto simp: validate_limits_def split: option.splits)
  have user: "(ac_user req \<noteq> [] \<and> root_user (ac_user req)) \<longleftrightarrow> root_user (ac_user req)"
    by (auto simp: root_user_def starts_with_def)
  have reg: "registry_allowed cfg (ac_image req) \<longleftrightarrow> extract_registry (ac_image req) \<in> set (vc_allowed_registries cfg)"
    by (auto simp: registry_allowed_def list_ex_iff)
  show ?thesis
    unfolding validate_container_create_def first_denial_None
    by (simp add: hc lim user reg validate_volumes_def validate_labels_def ball_Un nets) blast
qed

lemma create_volumes: "validate_container_create cfg req = None \<Longrightarrow> validate_volumes cfg (ac_volumes req) = None"
  unfolding validate_container_create_def first_denial_None by simp

lemma service_volumes: "validate_service_create cfg spec = None \<Longrightarrow> validate_volumes cfg (as_mounts spec) = None"
  unfolding validate_service_create_def first_denial_None by simp

section \<open>Properties of the allowlist\<close>

text \<open>
  A container is created exactly when its request meets all the rules: the
  chain of early returns accepts the conjunction of its rules, no more and no
  less, whatever their order.
\<close>

theorem create_accepted_iff:
  "validate_container_create cfg req = None \<longleftrightarrow>
     agent_container_name (ac_name req)
     \<and> extract_registry (ac_image req) \<in> set (vc_allowed_registries cfg)
     \<and> list_all (\<lambda>v. validate_host_path (vm_host_path v) [vc_volume_prefix cfg, vc_app_volume_prefix cfg]) (ac_volumes req)
     \<and> has_label (ac_labels req) ''ploydok.app_id'' \<and> has_label (ac_labels req) ''ploydok.owner_id''
     \<and> (case ac_healthcheck req of None \<Rightarrow> True
        | Some h \<Rightarrow> (case ah_test h of [] \<Rightarrow> False | mode # _ \<Rightarrow> mode \<in> {''CMD'', ''CMD-SHELL'', ''NONE''})
            \<and> 0 \<le> ah_interval_seconds h \<and> 0 \<le> ah_timeout_seconds h \<and> 0 \<le> ah_start_period_seconds h)
     \<and> list_all (\<lambda>n. n = [] \<or> starts_with ''ploydok-'' n) (ac_network req # ac_networks req)
     \<and> ac_user req \<noteq> ''root'' \<and> ac_user req \<noteq> ''0'' \<and> \<not> starts_with ''0:'' (ac_user req)
     \<and> (case ac_resource_limits req of None \<Rightarrow> True
        | Some l \<Rightarrow> al_cpu l \<le> max (vc_max_cpu cfg) 0 \<and> al_memory_bytes l \<le> max (vc_max_memory_bytes cfg) 0)"
  unfolding create_conditions root_user_def de_Morgan_disj conj_assoc by (rule refl)

text \<open>
  C24. No container and no service mounts a host directory outside the volume
  roots of the platform: every host path of an accepted request, walked
  segment by segment with its dots resolved, stays below one of the two roots.
\<close>

theorem accepted_mounts_stay_below_roots:
  assumes "validate_container_create cfg req = None \<and> v \<in> set (ac_volumes req)
    \<or> validate_service_create cfg spec = None \<and> v \<in> set (as_mounts spec)"
  shows "\<exists>more. resolved (vm_host_path v) = resolved (vc_volume_prefix cfg) @ more
     \<or> resolved (vm_host_path v) = resolved (vc_app_volume_prefix cfg) @ more"
proof -
  have "validate_volumes cfg vols = None \<Longrightarrow> v \<in> set vols \<Longrightarrow>
      validate_host_path (vm_host_path v) [vc_volume_prefix cfg, vc_app_volume_prefix cfg]" for vols
    by (simp add: validate_volumes_def list_all_iff)
  with assms have "validate_host_path (vm_host_path v) [vc_volume_prefix cfg, vc_app_volume_prefix cfg]"
    using create_volumes service_volumes by blast
  from host_path_below [OF this] show ?thesis by auto
qed

text \<open>A request for the witnesses.\<close>

abbreviation demo_request :: container_create_request where
  "demo_request \<equiv> \<lparr>ac_name = ''ploydok-app-web-1'', ac_image = ''nginx'', ac_env = [],
     ac_labels = [(''ploydok.app_id'', ''a1''), (''ploydok.owner_id'', ''u1'')], ac_network = [],
     ac_volumes = [\<lparr>vm_host_path = ''/var/lib/ploydok/volumes/a1'', vm_container_path = ''/data'', vm_read_only = False\<rparr>],
     ac_restart_policy = ''always'', ac_resource_limits = None, ac_command = [], ac_user = [],
     ac_networks = [''ploydok-p1''], ac_healthcheck = None\<rparr>"

lemma demo_request_accepted:
  assumes "\<not> root_user u"
  shows "validate_container_create default_config (demo_request\<lparr>ac_user := u\<rparr>) = None"
proof -
  have "agent_container_name ''ploydok-app-web-1''"
    by (simp add: agent_container_name_def starts_with_def is_alnum_def is_lower_def is_digit_def is_dash_def)
  moreover have "extract_registry ''nginx'' \<in> set (vc_allowed_registries default_config)"
    by (simp add: extract_registry_def before_char_def default_config_def)
  moreover have "validate_host_path ''/var/lib/ploydok/volumes/a1'' [vc_volume_prefix default_config, vc_app_volume_prefix default_config]"
    by (simp add: validate_host_path_def default_config_def trim_end_slashes_def starts_with_def)
  ultimately show ?thesis
    unfolding create_conditions using assms by (simp add: has_label_def starts_with_def)
qed

theorem accepted_mounts_stay_below_roots_witness:
  "\<exists>more. resolved ''/var/lib/ploydok/volumes/a1'' = resolved ''/var/lib/ploydok/volumes'' @ more
     \<or> resolved ''/var/lib/ploydok/volumes/a1'' = resolved ''/var/lib/ploydok/app-volumes'' @ more"
proof -
  have "validate_container_create default_config demo_request = None"
    using demo_request_accepted [of "[]"] by (simp add: root_user_def starts_with_def)
  then show ?thesis
    using accepted_mounts_stay_below_roots [of default_config demo_request "hd (ac_volumes demo_request)"]
    by (simp add: default_config_def)
qed

text \<open>
  Rule 7 means to keep root out. It knows \<^verbatim>\<open>root\<close>, \<^verbatim>\<open>0\<close> and \<^verbatim>\<open>0:\<close>\<open>gid\<close>, but not
  the name with a group, which Docker also runs as root.
\<close>

lemma root_with_group_accepted:
  "validate_container_create default_config (demo_request\<lparr>ac_user := ''root:root''\<rparr>) = None"
  by (rule demo_request_accepted) (simp add: root_user_def starts_with_def)

text \<open>
  A backup recipient the agent accepts is plain: its first characters are
  \<^verbatim>\<open>age1\<close> and it consists of lower-case letters and digits only, so it holds
  no character a shell would interpret.
\<close>

theorem age_recipient_is_plain:
  assumes "validate_age_recipient r = None"
  shows "starts_with ''age1'' r \<and> list_all (\<lambda>c. is_lower c \<or> is_digit c) r \<and> 60 \<le> length r \<and> length r \<le> 100"
proof -
  have s: "starts_with ''age1'' r" and d: "list_all (\<lambda>c. is_lower c \<or> is_digit c) (drop 4 r)"
    and n: "60 \<le> utf8_len r" "utf8_len r \<le> 100"
    using assms by (auto simp: validate_age_recipient_def)
  obtain t where t: "r = ''age1'' @ t" using s by (auto simp: starts_with_iff)
  have all: "list_all (\<lambda>c. is_lower c \<or> is_digit c) r"
    using d by (simp add: t is_lower_def is_digit_def)
  have "utf8_len r = length r"
  proof -
    have "map (\<lambda>c. if of_char c < (128::nat) then 1 else 2) r = map (\<lambda>_. 1 :: nat) r"
      using all by (auto simp: list_all_iff is_lower_def is_digit_def)
    then show ?thesis unfolding utf8_len_def by (simp only: sum_list_triv length_map) simp
  qed
  with s all n show ?thesis by simp
qed

theorem age_recipient_is_plain_witness:
  "list_all (\<lambda>c. is_lower c \<or> is_digit c) (''age1'' @ replicate 58 CHR ''q'')"
proof -
  have "validate_age_recipient (''age1'' @ replicate 58 CHR ''q'') = None"
    by (simp add: validate_age_recipient_def starts_with_def utf8_len_def is_lower_def sum_list_replicate list_all_length)
  from age_recipient_is_plain [OF this] show ?thesis by blast
qed

end
