(* ===== verification/Keyed_Lock.thy ===== *)
theory Keyed_Lock
  imports Ploydok_Prelude
begin

text \<open>
  The lock that serialises the deploys of an app
  (\<^verbatim>\<open>worker/app-deploy-lock.ts\<close>). A call of \<^verbatim>\<open>withLock\<close> is one entry of a list;
  its position stands for the promise \<^verbatim>\<open>current\<close> it creates, and
  \<^verbatim>\<open>tails\<close> maps a key to the promise of the last call. The event loop runs a
  call in three uninterrupted pieces, which are the steps of the machine: up to
  the \<^verbatim>\<open>await\<close> of the previous promise, the start of the task once that promise
  is settled, and the \<^verbatim>\<open>finally\<close> block once the task is settled, by a value or
  by an error.
\<close>

section \<open>The lock\<close>

datatype lock_phase = Waiting | Running | Done

record lock_call =
  lc_key :: string
  lc_previous :: "nat option"
  lc_phase :: lock_phase

record lock_state =
  lk_tails :: "string \<Rightarrow> nat option"
  lk_calls :: "lock_call list"

definition lock_init :: lock_state where
  "lock_init = \<lparr>lk_tails = \<lambda>_. None, lk_calls = []\<rparr>"

definition enter_lock :: "string \<Rightarrow> lock_state \<Rightarrow> lock_state" where
  "enter_lock key s =
     s\<lparr>lk_tails := (lk_tails s)(key := Some (length (lk_calls s))),
       lk_calls := lk_calls s @ [\<lparr>lc_key = key, lc_previous = lk_tails s key, lc_phase = Waiting\<rparr>]\<rparr>"

text \<open>The promise of a call is settled by its \<^verbatim>\<open>release()\<close>, in the \<^verbatim>\<open>finally\<close> block.\<close>

definition previous_settled :: "lock_state \<Rightarrow> lock_call \<Rightarrow> bool" where
  "previous_settled s c = (case lc_previous c of None \<Rightarrow> True | Some p \<Rightarrow> lc_phase (lk_calls s ! p) = Done)"

definition set_phase :: "nat \<Rightarrow> lock_phase \<Rightarrow> lock_state \<Rightarrow> lock_state" where
  "set_phase i ph s = s\<lparr>lk_calls := (lk_calls s)[i := (lk_calls s ! i)\<lparr>lc_phase := ph\<rparr>]\<rparr>"

definition start_task :: "nat \<Rightarrow> lock_state \<Rightarrow> lock_state option" where
  "start_task i s =
     (if i < length (lk_calls s) \<and> lc_phase (lk_calls s ! i) = Waiting \<and> previous_settled s (lk_calls s ! i)
      then Some (set_phase i Running s) else None)"

definition release_lock :: "nat \<Rightarrow> lock_state \<Rightarrow> lock_state" where
  "release_lock i s =
     (let key = lc_key (lk_calls s ! i) in
      if lk_tails s key = Some i then s\<lparr>lk_tails := (lk_tails s)(key := None)\<rparr> else s)"

definition finish_task :: "nat \<Rightarrow> lock_state \<Rightarrow> lock_state option" where
  "finish_task i s =
     (if i < length (lk_calls s) \<and> lc_phase (lk_calls s ! i) = Running
      then Some (release_lock i (set_phase i Done s)) else None)"

inductive lock_work :: "lock_state \<Rightarrow> lock_state \<Rightarrow> bool" where
  start: "start_task i s = Some s' \<Longrightarrow> lock_work s s'"
| finish: "finish_task i s = Some s' \<Longrightarrow> lock_work s s'"

inductive lock_step :: "lock_state \<Rightarrow> lock_state \<Rightarrow> bool" where
  enter: "lock_step s (enter_lock key s)"
| work: "lock_work s s' \<Longrightarrow> lock_step s s'"

inductive_simps lock_work_iff: "lock_work s s'"
inductive_simps lock_step_iff: "lock_step s s'"

abbreviation ncalls :: "lock_state \<Rightarrow> nat" where "ncalls s \<equiv> length (lk_calls s)"
abbreviation ckey :: "lock_state \<Rightarrow> nat \<Rightarrow> string" where "ckey s i \<equiv> lc_key (lk_calls s ! i)"
abbreviation cphase :: "lock_state \<Rightarrow> nat \<Rightarrow> lock_phase" where "cphase s i \<equiv> lc_phase (lk_calls s ! i)"
abbreviation cprev :: "lock_state \<Rightarrow> nat \<Rightarrow> nat option" where "cprev s i \<equiv> lc_previous (lk_calls s ! i)"

section \<open>The invariant\<close>

text \<open>All earlier calls with the key of call \<open>i\<close> are over.\<close>

definition earlier_done :: "lock_state \<Rightarrow> nat \<Rightarrow> bool" where
  "earlier_done s i \<longleftrightarrow> (\<forall>j<i. ckey s j = ckey s i \<longrightarrow> cphase s j = Done)"

definition chained :: "lock_state \<Rightarrow> nat \<Rightarrow> bool" where
  "chained s i \<longleftrightarrow> (case cprev s i of
      None \<Rightarrow> earlier_done s i
    | Some p \<Rightarrow> p < i \<and> ckey s p = ckey s i \<and> (\<forall>m. p < m \<and> m < i \<longrightarrow> ckey s m \<noteq> ckey s i))"

definition tail_ok :: "lock_state \<Rightarrow> string \<Rightarrow> bool" where
  "tail_ok s k \<longleftrightarrow> (case lk_tails s k of
      None \<Rightarrow> \<forall>i<ncalls s. ckey s i = k \<longrightarrow> cphase s i = Done
    | Some n \<Rightarrow> n < ncalls s \<and> ckey s n = k \<and> cphase s n \<noteq> Done \<and> (\<forall>m. n < m \<and> m < ncalls s \<longrightarrow> ckey s m \<noteq> k))"

definition lock_inv :: "lock_state \<Rightarrow> bool" where
  "lock_inv s \<longleftrightarrow> (\<forall>i<ncalls s. chained s i) \<and> (\<forall>i<ncalls s. cphase s i \<noteq> Waiting \<longrightarrow> earlier_done s i)
     \<and> (\<forall>k. tail_ok s k)"

lemmas lock_inv_defs = lock_inv_def chained_def earlier_done_def tail_ok_def

lemma lock_inv_init: "lock_inv lock_init"
  by (simp add: lock_inv_defs lock_init_def)

lemma enter_call:
  "lk_calls (enter_lock key s) ! i =
     (if i < ncalls s then lk_calls s ! i
      else ([\<lparr>lc_key = key, lc_previous = lk_tails s key, lc_phase = Waiting\<rparr>] ! (i - ncalls s)))"
  by (simp add: enter_lock_def nth_append)

lemma lock_inv_enter:
  assumes "lock_inv s" shows "lock_inv (enter_lock key s)"
proof -
  let ?t = "enter_lock key s"
  have len: "ncalls ?t = Suc (ncalls s)" by (simp add: enter_lock_def)
  have old: "lk_calls ?t ! i = lk_calls s ! i" if "i < ncalls s" for i using that by (simp add: enter_call)
  have new: "lk_calls ?t ! ncalls s = \<lparr>lc_key = key, lc_previous = lk_tails s key, lc_phase = Waiting\<rparr>"
    by (simp add: enter_call)
  have tails: "lk_tails ?t k = (if k = key then Some (ncalls s) else lk_tails s k)" for k by (simp add: enter_lock_def)
  have t: "tail_ok s key" using assms by (simp add: lock_inv_def)
  have ch: "chained ?t i" if "i < Suc (ncalls s)" for i
  proof (cases "i = ncalls s")
    case True
    then show ?thesis using t by (auto simp: chained_def earlier_done_def tail_ok_def new old split: option.splits)
  next
    case False
    with that have i: "i < ncalls s" by simp
    with assms have "chained s i" by (simp add: lock_inv_def)
    with i show ?thesis by (auto simp: chained_def earlier_done_def old split: option.splits)
  qed
  moreover have "earlier_done ?t i" if "i < Suc (ncalls s)" "cphase ?t i \<noteq> Waiting" for i
  proof -
    have i: "i < ncalls s" using that new by (cases "i = ncalls s") auto
    with that(2) assms show ?thesis by (auto simp: lock_inv_def earlier_done_def old)
  qed
  moreover have "tail_ok ?t k" for k
  proof (cases "k = key")
    case True
    then show ?thesis by (auto simp: tail_ok_def tails len new)
  next
    case False
    have "tail_ok s k" using assms by (simp add: lock_inv_def)
    with False show ?thesis by (auto simp: tail_ok_def tails len new old less_Suc_eq split: option.splits)
  qed
  ultimately show ?thesis by (simp add: lock_inv_def len)
qed

lemma set_phase_calls:
  "lk_calls (set_phase i ph s) ! j =
     (if j = i \<and> i < ncalls s then (lk_calls s ! i)\<lparr>lc_phase := ph\<rparr> else lk_calls s ! j)"
  by (cases "i < ncalls s") (auto simp: set_phase_def nth_list_update list_update_beyond)

lemma set_phase_simps [simp]:
  "ncalls (set_phase i ph s) = ncalls s" "lk_tails (set_phase i ph s) = lk_tails s"
  "ckey (set_phase i ph s) j = ckey s j" "cprev (set_phase i ph s) j = cprev s j"
  "i < ncalls s \<Longrightarrow> cphase (set_phase i ph s) j = (if j = i then ph else cphase s j)"
  by (simp_all add: set_phase_calls) (simp_all add: set_phase_def)

text \<open>When the promise a call awaits is settled, all earlier calls with its key are over.\<close>

lemma settled_earlier_done:
  assumes "lock_inv s" "i < ncalls s" "previous_settled s (lk_calls s ! i)"
  shows "earlier_done s i"
proof (cases "cprev s i")
  case None
  with assms show ?thesis by (auto simp: lock_inv_def chained_def)
next
  case (Some p)
  with assms(1,2) have p: "p < i" "ckey s p = ckey s i" "\<And>m. p < m \<Longrightarrow> m < i \<Longrightarrow> ckey s m \<noteq> ckey s i"
    by (auto simp: lock_inv_def chained_def)
  have done_p: "cphase s p = Done" using assms(3) Some by (simp add: previous_settled_def)
  with assms(1,2) p(1) have e: "earlier_done s p" by (auto simp: lock_inv_def)
  show ?thesis
    unfolding earlier_done_def
  proof (intro allI impI)
    fix j assume j: "j < i" "ckey s j = ckey s i"
    then consider "j < p" | "j = p" using p(3) by (meson linorder_neqE_nat)
    then show "cphase s j = Done" using e done_p j(2) p(2) by cases (auto simp: earlier_done_def)
  qed
qed

lemma lock_inv_start:
  assumes "lock_inv s" "start_task i s = Some t" shows "lock_inv t"
proof -
  from assms(2) have i: "i < ncalls s" "cphase s i = Waiting" "previous_settled s (lk_calls s ! i)"
    and t: "t = set_phase i Running s" by (auto simp: start_task_def split: if_splits)
  have e: "earlier_done s i" by (rule settled_earlier_done [OF assms(1) i(1,3)])
  have mono: "cphase s j = Done \<Longrightarrow> cphase t j = Done" for j using i(1,2) by (auto simp: t)
  have keep: "earlier_done s j \<Longrightarrow> earlier_done t j" for j using mono by (auto simp: earlier_done_def t)
  show ?thesis
    unfolding lock_inv_def
  proof (intro conjI allI impI)
    fix j assume "j < ncalls t"
    then have "chained s j" using assms(1) by (simp add: lock_inv_def t)
    then show "chained t j" using keep by (auto simp: chained_def t split: option.splits)
  next
    fix j assume "j < ncalls t" "cphase t j \<noteq> Waiting"
    then show "earlier_done t j" using assms(1) e keep i(1) by (cases "j = i") (auto simp: lock_inv_def t)
  next
    fix k
    have ok: "tail_ok s k" using assms(1) by (simp add: lock_inv_def)
    show "tail_ok t k"
    proof (cases "lk_tails s k")
      case None
      with ok mono show ?thesis by (simp add: tail_ok_def t)
    next
      case (Some n)
      with ok i show ?thesis by (auto simp: tail_ok_def t)
    qed
  qed
qed

lemma release_simps [simp]:
  "lk_calls (release_lock i s) = lk_calls s"
  "lk_tails (release_lock i s) k = (if k = ckey s i \<and> lk_tails s k = Some i then None else lk_tails s k)"
  by (auto simp: release_lock_def Let_def)

lemma lock_inv_finish:
  assumes "lock_inv s" "finish_task i s = Some t" shows "lock_inv t"
proof -
  let ?u = "set_phase i Done s"
  from assms(2) have i: "i < ncalls s" "cphase s i = Running"
    and t: "t = release_lock i ?u" by (auto simp: finish_task_def split: if_splits)
  have e: "earlier_done s i" using assms(1) i by (simp add: lock_inv_def)
  have ph: "cphase t j = (if j = i then Done else cphase s j)" "ckey t j = ckey s j" "cprev t j = cprev s j"
    "ncalls t = ncalls s" for j using i(1) by (simp_all add: t)
  have keep: "earlier_done s j \<Longrightarrow> earlier_done t j" for j by (auto simp: earlier_done_def ph)
  show ?thesis
    unfolding lock_inv_def
  proof (intro conjI allI impI)
    fix j assume "j < ncalls t"
    then have "chained s j" using assms(1) by (simp add: lock_inv_def ph)
    then show "chained t j" using keep by (auto simp: chained_def ph split: option.splits)
  next
    fix j assume "j < ncalls t" "cphase t j \<noteq> Waiting"
    then show "earlier_done t j" using assms(1) e keep i(1) by (cases "j = i") (auto simp: lock_inv_def ph)
  next
    fix k
    have ok: "tail_ok s k" using assms(1) by (simp add: lock_inv_def)
    show "tail_ok t k"
    proof (cases "k = ckey s i \<and> lk_tails s k = Some i")
      case True
      then have "lk_tails t k = None" by (auto simp: t)
      moreover have "cphase t j = Done" if "j < ncalls s" "ckey s j = k" for j
        using that True ok e by (cases j i rule: linorder_cases) (auto simp: ph tail_ok_def earlier_done_def)
      ultimately show ?thesis by (simp add: tail_ok_def ph)
    next
      case False
      then have "lk_tails t k = lk_tails s k" by (auto simp: t)
      with ok False show ?thesis by (auto simp: tail_ok_def ph split: option.splits)
    qed
  qed
qed

lemma lock_inv_step: "lock_inv s \<Longrightarrow> lock_step s t \<Longrightarrow> lock_inv t"
  by (auto simp: lock_step_iff lock_work_iff intro: lock_inv_enter lock_inv_start lock_inv_finish)

interpretation keyed_lock: step_machine "(=) lock_init" lock_step lock_inv
  by unfold_locales (auto intro: lock_inv_init lock_inv_step)

section \<open>Progress\<close>

fun weight :: "lock_phase \<Rightarrow> nat" where
  "weight Waiting = 2"
| "weight Running = 1"
| "weight Done = 0"

definition pending_work :: "lock_state \<Rightarrow> nat" where
  "pending_work s = sum_list (map (\<lambda>c. weight (lc_phase c)) (lk_calls s))"

lemma sum_list_update_add:
  fixes f :: "'a \<Rightarrow> nat"
  shows "i < length xs \<Longrightarrow> sum_list (map f (xs[i := x])) + f (xs ! i) = sum_list (map f xs) + f x"
  by (induction xs arbitrary: i) (auto split: nat.splits)

lemma phase_decreases:
  assumes "i < ncalls s" "weight ph < weight (cphase s i)"
  shows "pending_work (set_phase i ph s) < pending_work s"
  using sum_list_update_add [OF assms(1), of "\<lambda>c. weight (lc_phase c)" "(lk_calls s ! i)\<lparr>lc_phase := ph\<rparr>"] assms(2)
  by (simp add: pending_work_def set_phase_def)

lemma work_decreases: "lock_work s t \<Longrightarrow> pending_work t < pending_work s"
proof -
  have "pending_work (release_lock i u) = pending_work u" for i u by (simp add: pending_work_def)
  moreover assume "lock_work s t"
  ultimately show ?thesis
    by (auto simp: lock_work_iff start_task_def finish_task_def phase_decreases split: if_splits)
qed

lemma some_work:
  assumes "lock_inv s" "i < ncalls s" "cphase s i \<noteq> Done"
  shows "\<exists>t. lock_work s t"
proof -
  define i0 where "i0 = (LEAST j. j < ncalls s \<and> cphase s j \<noteq> Done)"
  have i0: "i0 < ncalls s" "cphase s i0 \<noteq> Done"
    using LeastI [of "\<lambda>j. j < ncalls s \<and> cphase s j \<noteq> Done" i] assms(2,3) by (auto simp: i0_def)
  have least: "cphase s j = Done" if "j < i0" for j
    using not_less_Least [of j "\<lambda>j. j < ncalls s \<and> cphase s j \<noteq> Done"] that i0(1) by (auto simp: i0_def)
  show ?thesis
  proof (cases "cphase s i0")
    case Waiting
    have "previous_settled s (lk_calls s ! i0)"
      using assms(1) i0(1) least by (auto simp: previous_settled_def lock_inv_def chained_def split: option.splits)
    with Waiting i0(1) show ?thesis by (auto simp: lock_work_iff start_task_def)
  next
    case Running
    with i0(1) show ?thesis by (auto simp: lock_work_iff finish_task_def)
  qed (use i0 in simp)
qed

lemma work_inv: "lock_inv s \<Longrightarrow> lock_work s t \<Longrightarrow> lock_inv t"
  using lock_inv_step lock_step.work by blast

lemma drains:
  assumes "lock_inv s"
  shows "\<exists>t. lock_work\<^sup>*\<^sup>* s t \<and> lock_inv t \<and> (\<forall>i<ncalls t. cphase t i = Done)"
  using assms
proof (induction "pending_work s" arbitrary: s rule: less_induct)
  case less
  show ?case
  proof (cases "\<exists>i<ncalls s. cphase s i \<noteq> Done")
    case True
    then obtain u where u: "lock_work s u" using some_work [OF less.prems] by blast
    from less.hyps [OF work_decreases [OF u] work_inv [OF less.prems u]] u show ?thesis
      by (meson converse_rtranclp_into_rtranclp)
  next
    case False
    with less.prems show ?thesis by blast
  qed
qed

section \<open>The queue the lock implements\<close>







section \<open>Properties of the lock\<close>

text \<open>
  C19. Mutual exclusion and order. In every reachable state at most one task per
  key runs, and a task that has started has seen the end of every task that
  entered before it with the same key, whether that one returned or threw.
\<close>

theorem lock_is_exclusive_and_fifo:
  assumes "reachable ((=) lock_init) lock_step s" and "j < i" and "i < ncalls s"
    and "ckey s j = ckey s i" and "cphase s i \<noteq> Waiting"
  shows "cphase s j = Done"
  using keyed_lock.inv_reachable [OF assms(1)] assms(2-5) by (auto simp: lock_inv_def earlier_done_def)

text \<open>
  C34. No deploy is locked out. From every reachable state, once tasks settle
  and no call enters any more, every call that entered runs to its end and the
  table of tails is empty again; and a state in which nothing can be done has no
  call left.
\<close>

theorem lock_drains:
  assumes "reachable ((=) lock_init) lock_step s"
  shows "(\<exists>t. lock_work\<^sup>*\<^sup>* s t \<and> (\<forall>i<ncalls t. cphase t i = Done) \<and> lk_tails t = (\<lambda>_. None))
    \<and> ((\<exists>t. lock_work s t) = (\<exists>i<ncalls s. cphase s i \<noteq> Done))"
proof -
  note inv = keyed_lock.inv_reachable [OF assms]
  obtain t where t: "lock_work\<^sup>*\<^sup>* s t" "lock_inv t" "\<forall>i<ncalls t. cphase t i = Done" using drains [OF inv] by blast
  have "lk_tails t k = None" for k
  proof -
    have "tail_ok t k" using t(2) by (simp add: lock_inv_def)
    with t(3) show ?thesis by (auto simp: tail_ok_def split: option.splits)
  qed
  then have "lk_tails t = (\<lambda>_. None)" by (rule ext)
  moreover have "\<exists>i<ncalls s. cphase s i \<noteq> Done" if "lock_work s u" for u
    using that by (auto simp: lock_work_iff start_task_def finish_task_def split: if_splits)
  ultimately show ?thesis using t some_work [OF inv] by blast
qed


text \<open>Two deploys of one app and a deploy of another: the second waits for the first.\<close>

definition demo_lock :: lock_state where
  "demo_lock = set_phase 0 Running (enter_lock ''b'' (enter_lock ''a'' (enter_lock ''a'' lock_init)))"

lemma demo_lock_reachable: "reachable ((=) lock_init) lock_step demo_lock"
proof -
  let ?e = "enter_lock ''b'' (enter_lock ''a'' (enter_lock ''a'' lock_init))"
  have enter: "reachable ((=) lock_init) lock_step s \<Longrightarrow> reachable ((=) lock_init) lock_step (enter_lock k s)" for k s
    by (erule reachable.next_state) (rule lock_step.enter)
  have e: "reachable ((=) lock_init) lock_step ?e"
    by (intro enter reachable.start) simp
  have "start_task 0 ?e = Some demo_lock"
    by (simp add: start_task_def demo_lock_def enter_lock_def lock_init_def previous_settled_def nth_append)
  then have "lock_step ?e demo_lock" by (auto simp: lock_step_iff lock_work_iff)
  with e show ?thesis by (rule reachable.next_state)
qed

theorem lock_drains_witness:
  "\<exists>t. lock_work\<^sup>*\<^sup>* demo_lock t \<and> (\<forall>i<ncalls t. cphase t i = Done) \<and> lk_tails t = (\<lambda>_. None)"
  using lock_drains [OF demo_lock_reachable] by blast

theorem lock_is_exclusive_and_fifo_witness:
  "cphase (set_phase 1 Running (the (finish_task 0 demo_lock))) 0 = Done"
proof -
  let ?f = "release_lock 0 (set_phase 0 Done demo_lock)"
  have c: "lk_calls demo_lock = [\<lparr>lc_key = ''a'', lc_previous = None, lc_phase = Running\<rparr>,
     \<lparr>lc_key = ''a'', lc_previous = Some 0, lc_phase = Waiting\<rparr>,
     \<lparr>lc_key = ''b'', lc_previous = None, lc_phase = Waiting\<rparr>]"
    by (simp add: demo_lock_def set_phase_def enter_lock_def lock_init_def)
  have f: "finish_task 0 demo_lock = Some ?f" by (simp add: finish_task_def c)
  have cf: "lk_calls ?f = [\<lparr>lc_key = ''a'', lc_previous = None, lc_phase = Done\<rparr>,
     \<lparr>lc_key = ''a'', lc_previous = Some 0, lc_phase = Waiting\<rparr>,
     \<lparr>lc_key = ''b'', lc_previous = None, lc_phase = Waiting\<rparr>]"
    by (simp add: set_phase_def c)
  have s: "start_task 1 ?f = Some (set_phase 1 Running ?f)"
    unfolding start_task_def previous_settled_def cf by simp
  have "lock_step demo_lock ?f" "lock_step ?f (set_phase 1 Running ?f)"
    using f s by (auto simp: lock_step_iff lock_work_iff)
  then have "reachable ((=) lock_init) lock_step (set_phase 1 Running ?f)"
    using demo_lock_reachable reachable.next_state by metis
  from lock_is_exclusive_and_fifo [OF this, of 0 1] show ?thesis by (simp add: f c set_phase_def)
qed


end
