(* ===== verification/Memberships.thy ===== *)
theory Memberships
  imports Runtime_Names
begin

text \<open>
  Organisations, their members and invitations: the queries of
  \<^verbatim>\<open>packages/db/src/queries/memberships.ts\<close> and \<^verbatim>\<open>membership-invitations.ts\<close>, the
  services of \<^verbatim>\<open>services/organizations.ts\<close>, the gate \<^verbatim>\<open>auth/require-role.ts\<close> and
  the routes of \<^verbatim>\<open>routes/memberships.ts\<close>, \<^verbatim>\<open>routes/invitations.ts\<close> and
  \<^verbatim>\<open>routes/organizations.ts\<close>. A handler is one step over the tables; what
  happens when two of them interleave is the subject of a lemma at the end.
  Mails are left out, and the database does not fail except by its unique
  constraints.
\<close>

section \<open>Tables\<close>

record project_row =
  pj_id :: ident
  pj_owner_id :: ident
  pj_name :: string
  pj_slug :: string
  pj_is_default :: bool
  pj_created_at :: instant

record membership_row =
  ms_id :: ident
  ms_org_id :: ident
  ms_user_id :: ident
  ms_role :: string
  ms_invited_by :: "ident option"
  ms_invited_at :: instant
  ms_accepted_at :: "instant option"

record invitation_row =
  iv_id :: ident
  iv_org_id :: ident
  iv_email :: string
  iv_role :: string
  iv_token_hash :: string
  iv_expires_at :: instant
  iv_invited_by :: ident
  iv_accepted_at :: "instant option"

record org_state =
  og_projects :: "project_row table"
  og_members :: "membership_row table"
  og_invitations :: "invitation_row table"

section \<open>Queries on memberships\<close>

definition of_member :: "ident \<Rightarrow> ident \<Rightarrow> membership_row \<Rightarrow> bool" where
  "of_member orgId userId m \<longleftrightarrow> ms_org_id m = orgId \<and> ms_user_id m = userId"

definition listMembershipsForOrg :: "ident \<Rightarrow> membership_row table \<Rightarrow> membership_row list" where
  "listMembershipsForOrg orgId t = select_where (\<lambda>m. ms_org_id m = orgId) t"

definition getMembership :: "ident \<Rightarrow> ident \<Rightarrow> membership_row table \<Rightarrow> membership_row option" where
  "getMembership orgId userId t = select_first (of_member orgId userId) t"

definition hasRole :: "ident \<Rightarrow> ident \<Rightarrow> string list \<Rightarrow> membership_row table \<Rightarrow> bool" where
  "hasRole orgId userId roles t \<longleftrightarrow>
     select_first (\<lambda>m. of_member orgId userId m \<and> ms_role m \<in> set roles \<and> ms_accepted_at m \<noteq> None) t \<noteq> None"

text \<open>The table is unique on the organisation and the user; a second row is refused.\<close>

definition insertMembership :: "membership_row \<Rightarrow> membership_row table \<Rightarrow> membership_row table option" where
  "insertMembership m t =
     (if getMembership (ms_org_id m) (ms_user_id m) t = None then Some (t @ [m]) else None)"

definition removeMembership :: "ident \<Rightarrow> ident \<Rightarrow> membership_row table \<Rightarrow> membership_row table" where
  "removeMembership orgId userId t = delete_where (of_member orgId userId) t"


definition isOrgOwner :: "ident \<Rightarrow> ident \<Rightarrow> membership_row table \<Rightarrow> bool" where
  "isOrgOwner orgId userId t = hasRole orgId userId [''owner''] t"

definition owner_row :: "ident \<Rightarrow> membership_row \<Rightarrow> bool" where
  "owner_row orgId m \<longleftrightarrow> ms_org_id m = orgId \<and> ms_role m = ''owner'' \<and> ms_accepted_at m \<noteq> None"

definition countOwners :: "ident \<Rightarrow> membership_row table \<Rightarrow> nat" where
  "countOwners orgId t = length (select_where (owner_row orgId) t)"

definition listOrgIdsForUser :: "ident \<Rightarrow> membership_row table \<Rightarrow> ident list" where
  "listOrgIdsForUser userId t =
     map ms_org_id (select_where (\<lambda>m. ms_user_id m = userId \<and> ms_accepted_at m \<noteq> None) t)"

section \<open>Queries on invitations\<close>



definition listPendingInvitationsForOrg :: "ident \<Rightarrow> invitation_row table \<Rightarrow> invitation_row list" where
  "listPendingInvitationsForOrg orgId t = select_where (\<lambda>i. iv_org_id i = orgId \<and> iv_accepted_at i = None) t"


definition deleteExpiredInvitations :: "invitation_row table \<Rightarrow> nat \<times> invitation_row table" where
  "deleteExpiredInvitations t = (0, delete_where (\<lambda>i. iv_accepted_at i = None) t)"


section \<open>Slugs\<close>

text \<open>
  \<^verbatim>\<open>normalize("NFKD")\<close> without the combining marks, on Latin-1: an accented letter
  becomes its base letter. The characters without a decomposition and the
  signs become what the next replacement turns into dashes anyway.
\<close>

definition nfkd_base :: "char \<Rightarrow> string" where
  "nfkd_base c =
     (let n = of_char c :: nat in
      if 192 \<le> n \<and> n \<le> 197 then ''A'' else if n = 199 then ''C'' else if 200 \<le> n \<and> n \<le> 203 then ''E''
      else if 204 \<le> n \<and> n \<le> 207 then ''I'' else if n = 209 then ''N'' else if 210 \<le> n \<and> n \<le> 214 then ''O''
      else if 217 \<le> n \<and> n \<le> 220 then ''U'' else if n = 221 then ''Y'' else if 224 \<le> n \<and> n \<le> 229 then ''a''
      else if n = 231 then ''c'' else if 232 \<le> n \<and> n \<le> 235 then ''e'' else if 236 \<le> n \<and> n \<le> 239 then ''i''
      else if n = 241 then ''n'' else if 242 \<le> n \<and> n \<le> 246 then ''o'' else if 249 \<le> n \<and> n \<le> 252 then ''u''
      else if n = 253 \<or> n = 255 then ''y'' else if n = 170 then ''a'' else if n = 186 then ''o''
      else if n = 185 then ''1'' else if n = 178 then ''2'' else if n = 179 then ''3''
      else if n = 188 then ''1/4'' else if n = 189 then ''1/2'' else if n = 190 then ''3/4'' else [c])"

definition slugifyOrganizationName :: "string \<Rightarrow> string" where
  "slugifyOrganizationName name =
     take 48 (trim_dashes (replace_runs (\<lambda>c. \<not> is_alnum c) (to_lower (concat (map nfkd_base name)))))"

definition buildDefaultOrganizationName :: "string option \<Rightarrow> string" where
  "buildDefaultOrganizationName displayName =
     (case map_option trim displayName of
        Some n \<Rightarrow> if n \<noteq> [] then n else ''My Organization''
      | None \<Rightarrow> ''My Organization'')"

text \<open>The loop \<^verbatim>\<open>for (;;)\<close> over candidates; not returning would be \<open>None\<close>.\<close>

partial_function (option) slug_loop :: "project_row table \<Rightarrow> string \<Rightarrow> nat \<Rightarrow> string \<Rightarrow> string option" where
  "slug_loop t base attempt candidate =
     (if select_first (\<lambda>p. pj_slug p = candidate) t = None then Some candidate
      else slug_loop t base (attempt + 1) (base @ ''-'' @ nat_str (attempt + 1)))"

definition uniqueOrganizationSlug :: "string \<Rightarrow> project_row table \<Rightarrow> string option" where
  "uniqueOrganizationSlug baseName t =
     (let s = slugifyOrganizationName baseName; base = (if s = [] then ''workspace'' else s)
      in slug_loop t base 1 base)"

section \<open>Organisations\<close>

definition owner_membership :: "ident \<Rightarrow> ident \<Rightarrow> ident \<Rightarrow> instant \<Rightarrow> membership_row" where
  "owner_membership nid orgId userId invitedAt =
     \<lparr>ms_id = nid, ms_org_id = orgId, ms_user_id = userId, ms_role = ''owner'', ms_invited_by = None,
      ms_invited_at = invitedAt, ms_accepted_at = Some invitedAt\<rparr>"

text \<open>\<^verbatim>\<open>ON CONFLICT DO NOTHING\<close>\<close>

definition ensureOwnerMembership :: "ident \<Rightarrow> ident \<Rightarrow> ident \<Rightarrow> instant \<Rightarrow> org_state \<Rightarrow> org_state" where
  "ensureOwnerMembership nid orgId userId invitedAt st =
     (case insertMembership (owner_membership nid orgId userId invitedAt) (og_members st) of
        Some t' \<Rightarrow> st\<lparr>og_members := t'\<rparr>
      | None \<Rightarrow> st)"

definition order_asc :: "project_row list \<Rightarrow> project_row list" where
  "order_asc t = sort_key pj_created_at t"

text \<open>The identifiers \<^verbatim>\<open>nanoid()\<close> returns are arguments: for the project and for the membership.\<close>

definition ensureDefaultOrganizationForUser ::
    "ident \<Rightarrow> ident \<Rightarrow> instant \<Rightarrow> ident \<Rightarrow> string option \<Rightarrow> org_state \<Rightarrow> (project_row \<times> org_state) option" where
  "ensureDefaultOrganizationForUser pid mid now userId displayName st =
     (case first_row (order_asc (select_where (\<lambda>p. pj_owner_id p = userId \<and> pj_is_default p) (og_projects st))) of
        Some d \<Rightarrow> Some (d, ensureOwnerMembership mid (pj_id d) userId (pj_created_at d) st)
      | None \<Rightarrow>
          (case first_row (order_asc (select_where (\<lambda>p. pj_owner_id p = userId) (og_projects st))) of
             Some oldest \<Rightarrow>
               Some (oldest\<lparr>pj_is_default := True\<rparr>,
                     ensureOwnerMembership mid (pj_id oldest) userId (pj_created_at oldest)
                       (st\<lparr>og_projects := update_where (\<lambda>p. pj_id p = pj_id oldest) (\<lambda>p. p\<lparr>pj_is_default := True\<rparr>)
                             (og_projects st)\<rparr>))
           | None \<Rightarrow>
               let name = buildDefaultOrganizationName displayName in
               (case uniqueOrganizationSlug name (og_projects st) of
                  None \<Rightarrow> None
                | Some slug \<Rightarrow>
                    let inserted = \<lparr>pj_id = pid, pj_owner_id = userId, pj_name = name, pj_slug = slug,
                                    pj_is_default = True, pj_created_at = now\<rparr>
                    in Some (inserted, ensureOwnerMembership mid pid userId now
                               (st\<lparr>og_projects := og_projects st @ [inserted]\<rparr>)))))"


fun backfill_memberships :: "ident \<Rightarrow> (ident \<times> project_row) list \<Rightarrow> org_state \<Rightarrow> org_state" where
  "backfill_memberships userId [] st = st"
| "backfill_memberships userId ((mid, p) # ps) st =
     backfill_memberships userId ps (ensureOwnerMembership mid (pj_id p) userId (pj_created_at p) st)"

definition backfillOwnerMemberships :: "ident list \<Rightarrow> ident \<Rightarrow> org_state \<Rightarrow> org_state" where
  "backfillOwnerMemberships mids userId st =
     backfill_memberships userId (zip mids (select_where (\<lambda>p. pj_owner_id p = userId) (og_projects st))) st"

definition joined_projects :: "ident \<Rightarrow> org_state \<Rightarrow> project_row list" where
  "joined_projects userId st =
     select_where (\<lambda>p. select_first (\<lambda>m. of_member (pj_id p) userId m \<and> ms_accepted_at m \<noteq> None) (og_members st) \<noteq> None)
       (og_projects st)"

definition listOrganizationsForUser ::
    "ident \<Rightarrow> ident \<Rightarrow> ident list \<Rightarrow> instant \<Rightarrow> ident \<Rightarrow> string option \<Rightarrow> org_state \<Rightarrow> project_row list \<times> org_state" where
  "listOrganizationsForUser pid mid mids now userId displayName st =
     (let st1 = (case ensureDefaultOrganizationForUser pid mid now userId displayName st of
                   Some (_, st') \<Rightarrow> st' | None \<Rightarrow> st);
          st2 = backfillOwnerMemberships mids userId st1;
          rows = order_asc (joined_projects userId st2)
      in (if rows \<noteq> [] then rows
          else order_asc (select_where (\<lambda>p. pj_owner_id p = userId) (og_projects st2)), st2))"



datatype org_response =
    R_ok
  | R_created
  | R_bad_request
  | R_unauthenticated
  | R_forbidden
  | R_not_found
  | R_conflict
  | R_gone
  | R_internal


section \<open>The gate\<close>

datatype role_gate = Gate_open ident string | Gate_closed org_response

definition resolve_org :: "string \<Rightarrow> project_row table \<Rightarrow> ident option" where
  "resolve_org ref t =
     (case select_first (\<lambda>p. pj_slug p = ref) t of
        Some p \<Rightarrow> Some (pj_id p)
      | None \<Rightarrow> map_option pj_id (select_first (\<lambda>p. pj_id p = ref) t))"

definition requireRole :: "string list \<Rightarrow> ident option \<Rightarrow> string \<Rightarrow> org_state \<Rightarrow> role_gate" where
  "requireRole roles user ref st =
     (case user of
        None \<Rightarrow> Gate_closed R_unauthenticated
      | Some userId \<Rightarrow>
          if ref = [] then Gate_closed R_bad_request
          else case resolve_org ref (og_projects st) of
                 None \<Rightarrow> Gate_closed R_not_found
               | Some orgId \<Rightarrow>
                   (case getMembership orgId userId (og_members st) of
                      None \<Rightarrow> Gate_closed R_forbidden
                    | Some m \<Rightarrow>
                        if ms_accepted_at m \<noteq> None \<and> (ms_role m = ''owner'' \<or> ms_role m = ''member'') \<and> ms_role m \<in> set roles
                        then Gate_open orgId (ms_role m) else Gate_closed R_forbidden))"

section \<open>The routes\<close>



text \<open>The check that keeps the last owner, and the removal it guards.\<close>

definition may_remove :: "ident \<Rightarrow> ident \<Rightarrow> ident \<Rightarrow> org_state \<Rightarrow> bool" where
  "may_remove orgId requester userId st \<longleftrightarrow> \<not> (requester = userId \<and> countOwners orgId (og_members st) \<le> 1)"

definition remove_member :: "ident option \<Rightarrow> string \<Rightarrow> ident \<Rightarrow> org_state \<Rightarrow> org_response \<times> org_state" where
  "remove_member user ref userId st =
     (case requireRole [''owner''] user ref st of
        Gate_closed r \<Rightarrow> (r, st)
      | Gate_open orgId _ \<Rightarrow>
          if \<not> may_remove orgId (the user) userId st then (R_bad_request, st)
          else (R_ok, st\<lparr>og_members := removeMembership orgId userId (og_members st)\<rparr>))"






section \<open>The invariant\<close>


definition member_key :: "membership_row \<Rightarrow> ident \<times> ident" where
  "member_key m = (ms_org_id m, ms_user_id m)"

definition has_owner :: "org_state \<Rightarrow> ident \<Rightarrow> bool" where
  "has_owner st orgId \<longleftrightarrow> (\<exists>m\<in>set (og_members st). owner_row orgId m)"

definition refs_ok :: "org_state \<Rightarrow> bool" where
  "refs_ok st \<longleftrightarrow> ms_org_id ` set (og_members st) \<subseteq> pj_id ` set (og_projects st)
     \<and> iv_org_id ` set (og_invitations st) \<subseteq> pj_id ` set (og_projects st)"

definition org_inv :: "org_state \<Rightarrow> bool" where
  "org_inv st \<longleftrightarrow> keyed member_key (og_members st) \<and> refs_ok st \<and> (\<forall>p\<in>set (og_projects st). has_owner st (pj_id p))"



lemma ensure_frame [simp]:
  "og_projects (ensureOwnerMembership mid orgId userId at_time st) = og_projects st"
  "og_invitations (ensureOwnerMembership mid orgId userId at_time st) = og_invitations st"
  by (simp_all add: ensureOwnerMembership_def split: option.splits)




























section \<open>The loop over slugs\<close>

declare slug_loop.simps [code]

lemma slug_free: "select_first (\<lambda>p. pj_slug p = c) t = None \<longleftrightarrow> c \<notin> pj_slug ` set t"
  unfolding select_first_None by blast

lemma slug_loop_returns:
  "\<exists>s. slug_loop t base n (base @ ''-'' @ nat_str n) = Some s \<and> s \<notin> pj_slug ` set t"
proof (induction "card {k. n \<le> k \<and> base @ ''-'' @ nat_str k \<in> pj_slug ` set t}" arbitrary: n rule: less_induct)
  case less
  let ?taken = "\<lambda>n. {k. n \<le> k \<and> base @ ''-'' @ nat_str k \<in> pj_slug ` set t}"
  show ?case
  proof (cases "base @ ''-'' @ nat_str n \<in> pj_slug ` set t")
    case False
    then show ?thesis by (subst slug_loop.simps) (simp add: slug_free)
  next
    case True
    have "inj_on (\<lambda>k. base @ ''-'' @ nat_str k) (?taken n)" by (rule inj_onI) simp
    moreover have "(\<lambda>k. base @ ''-'' @ nat_str k) ` ?taken n \<subseteq> pj_slug ` set t" by auto
    ultimately have "finite (?taken n)" using inj_on_finite by blast
    moreover have "n \<in> ?taken n" "n \<notin> ?taken (n + 1)" "?taken (n + 1) \<subseteq> ?taken n" using True by auto
    then have "?taken (n + 1) \<subset> ?taken n" by blast
    ultimately have "card (?taken (n + 1)) < card (?taken n)" by (rule psubset_card_mono)
    then have "\<exists>s. slug_loop t base (n + 1) (base @ ''-'' @ nat_str (n + 1)) = Some s \<and> s \<notin> pj_slug ` set t"
      by (rule less)
    with True show ?thesis by (subst slug_loop.simps) (simp add: slug_free)
  qed
qed

section \<open>Interleaved handlers\<close>

text \<open>
  Two owners who leave at the same time: both checks pass before either row is
  removed, and no owner is left.
\<close>

definition two_owners :: org_state where
  "two_owners = \<lparr>og_projects = [\<lparr>pj_id = ''p'', pj_owner_id = ''a'', pj_name = ''P'', pj_slug = ''p'', pj_is_default = True, pj_created_at = 0\<rparr>],
     og_members = [owner_membership ''m1'' ''p'' ''a'' 0, owner_membership ''m2'' ''p'' ''b'' 0], og_invitations = []\<rparr>"

lemma two_owners_can_both_leave:
  "org_inv two_owners \<and> may_remove ''p'' ''a'' ''a'' two_owners \<and> may_remove ''p'' ''b'' ''b'' two_owners
   \<and> \<not> has_owner (two_owners\<lparr>og_members := removeMembership ''p'' ''b'' (removeMembership ''p'' ''a'' (og_members two_owners))\<rparr>) ''p''"
  by (simp add: two_owners_def org_inv_def refs_ok_def keyed_def member_key_def owner_membership_def has_owner_def
      owner_row_def may_remove_def countOwners_def select_where_def removeMembership_def delete_where_def of_member_def)

text \<open>
  The creator of an organisation whom another owner has removed is an owner again
  after listing the own organisations: the project still names the creator, and
  the missing membership is taken for one that was never written.
\<close>

definition creator_removed :: org_state where
  "creator_removed = snd (remove_member (Some ''b'') ''p'' ''a'' two_owners)"

lemma removed_creator_returns:
  "getMembership ''p'' ''a'' (og_members creator_removed) = None
   \<and> isOrgOwner ''p'' ''a'' (og_members (snd (listOrganizationsForUser ''n'' ''m3'' [''m4''] 9 ''a'' None creator_removed)))"
  by code_simp

section \<open>Properties\<close>







text \<open>
  Choosing the slug of an organisation ends: the loop over the candidates
  returns, for every name and whatever slugs are taken, and the slug it
  returns is free.
\<close>

theorem unique_slug_found:
  "\<exists>s. uniqueOrganizationSlug baseName t = Some s \<and> s \<notin> pj_slug ` set t"
proof -
  define base where "base = (if slugifyOrganizationName baseName = [] then ''workspace'' else slugifyOrganizationName baseName)"
  have "\<exists>s. slug_loop t base 1 base = Some s \<and> s \<notin> pj_slug ` set t"
  proof (cases "select_first (\<lambda>p. pj_slug p = base) t")
    case None
    then show ?thesis by (subst slug_loop.simps) (auto simp: slug_free)
  next
    case (Some p)
    then show ?thesis using slug_loop_returns [of t base 2] by (subst slug_loop.simps) (simp add: numeral_2_eq_2)
  qed
  then show ?thesis by (simp add: uniqueOrganizationSlug_def base_def Let_def)
qed

end
