(* ===== verification/Sessions.thy ===== *)
theory Sessions
  imports Ploydok_Prelude
begin

text \<open>
  Sessions and their refresh tokens (\<^verbatim>\<open>auth/sessions.ts\<close>), the route
  \<^verbatim>\<open>POST /auth/refresh\<close> of \<^verbatim>\<open>routes/auth.ts\<close> that rotates them, and the one-shot
  backup codes (\<^verbatim>\<open>auth/backup-codes.ts\<close>). Both rely on an update with a
  condition to decide between requests that run at the same time, so a request
  is a sequence of pieces, one per statement sent to the database, and the
  pieces of all requests interleave freely.

  bcrypt is a parameter: a hash of a salt and a text, and the comparison of a
  text with a hash. What the code relies on is that a text compares
  with the hashes of the texts that agree with it in their first 72 characters
  and with no other; bcrypt reads no more of its input, and a refresh
  token has 86 characters. The random tokens and salts are arguments of the operations.
\<close>

section \<open>Sessions\<close>

type_synonym hash_fn = "string \<Rightarrow> string \<Rightarrow> string"
type_synonym compare_fn = "string \<Rightarrow> string \<Rightarrow> bool"

definition bcrypt_law :: "hash_fn \<Rightarrow> compare_fn \<Rightarrow> bool" where
  "bcrypt_law hash compare \<longleftrightarrow> (\<forall>raw salt text. compare raw (hash salt text) \<longleftrightarrow> take 72 raw = take 72 text)"

definition SESSION_TTL_DAYS :: int where "SESSION_TTL_DAYS = 7"

record session_row =
  sr_id :: ident
  sr_user_id :: ident
  sr_refresh_token_hash :: string
  sr_user_agent :: string
  sr_ip :: string
  sr_created_at :: instant
  sr_last_seen_at :: instant
  sr_rotated_at :: "instant option"
  sr_revoked_at :: "instant option"
  sr_expires_at :: instant

definition session_expiry :: "instant \<Rightarrow> instant" where
  "session_expiry now = now + SESSION_TTL_DAYS * 24 * 60 * 60 * 1000"

definition createSession ::
    "hash_fn \<Rightarrow> string \<Rightarrow> string \<Rightarrow> instant \<Rightarrow> ident \<Rightarrow> ident \<Rightarrow> string \<Rightarrow> string \<Rightarrow> session_row table \<Rightarrow> session_row table" where
  "createSession hash refreshToken salt now nid userId userAgent ip t =
     t @ [\<lparr>sr_id = nid, sr_user_id = userId, sr_refresh_token_hash = hash salt refreshToken, sr_user_agent = userAgent,
           sr_ip = ip, sr_created_at = now, sr_last_seen_at = now, sr_rotated_at = None, sr_revoked_at = None,
           sr_expires_at = session_expiry now\<rparr>]"

definition verifyRefreshToken ::
    "compare_fn \<Rightarrow> instant \<Rightarrow> ident \<Rightarrow> string \<Rightarrow> session_row table \<Rightarrow> session_row option" where
  "verifyRefreshToken compare now sessionId rawToken t =
     (case select_first (\<lambda>r. sr_id r = sessionId \<and> sr_revoked_at r = None) t of
        None \<Rightarrow> None
      | Some session \<Rightarrow>
          if sr_expires_at session < now then None
          else if compare rawToken (sr_refresh_token_hash session) then Some session else None)"

definition rotatable :: "ident \<Rightarrow> string \<Rightarrow> session_row \<Rightarrow> bool" where
  "rotatable sessionId currentHash r \<longleftrightarrow>
     sr_id r = sessionId \<and> sr_refresh_token_hash r = currentHash \<and> sr_revoked_at r = None"

definition rotateRefreshToken ::
    "hash_fn \<Rightarrow> string \<Rightarrow> string \<Rightarrow> instant \<Rightarrow> ident \<Rightarrow> string \<Rightarrow> session_row table \<Rightarrow> string option \<times> session_row table" where
  "rotateRefreshToken hash newToken salt now sessionId currentHash t =
     (let t' = update_where (rotatable sessionId currentHash)
                 (\<lambda>r. r\<lparr>sr_refresh_token_hash := hash salt newToken, sr_last_seen_at := now,
                         sr_rotated_at := Some now, sr_expires_at := session_expiry now\<rparr>) t
      in (if select_where (rotatable sessionId currentHash) t = [] then None else Some newToken, t'))"

definition revokeSession :: "instant \<Rightarrow> ident \<Rightarrow> session_row table \<Rightarrow> session_row table" where
  "revokeSession now sessionId t = update_where (\<lambda>r. sr_id r = sessionId) (\<lambda>r. r\<lparr>sr_revoked_at := Some now\<rparr>) t"

definition revokeSessionFamily :: "instant \<Rightarrow> ident \<Rightarrow> session_row table \<Rightarrow> session_row table" where
  "revokeSessionFamily now sessionId t =
     update_where (\<lambda>r. sr_id r = sessionId \<and> sr_revoked_at r = None) (\<lambda>r. r\<lparr>sr_revoked_at := Some now\<rparr>) t"

definition listSessions :: "ident \<Rightarrow> session_row table \<Rightarrow> session_row list" where
  "listSessions userId t = select_where (\<lambda>r. sr_user_id r = userId \<and> sr_revoked_at r = None) t"

definition revokeOtherSessions :: "instant \<Rightarrow> ident \<Rightarrow> ident \<Rightarrow> session_row table \<Rightarrow> session_row table" where
  "revokeOtherSessions now userId currentSessionId t =
     update_where (\<lambda>r. sr_user_id r = userId \<and> sr_revoked_at r = None \<and> sr_id r \<noteq> currentSessionId)
       (\<lambda>r. r\<lparr>sr_revoked_at := Some now\<rparr>) t"

section \<open>The refresh route\<close>

datatype refresh_answer =
    Refreshed string
  | No_token_401
  | Bad_format_401
  | Invalid_token_401
  | Conflict_409
  | User_not_found_404 string

datatype refresh_phase =
    Arrived
  | Verified session_row
  | Rejected
  | Replay
  | Answered refresh_answer

record refresh_request =
  rf_cookie :: string
  rf_phase :: refresh_phase

record refresh_state =
  rs_sessions :: "session_row table"
  rs_requests :: "refresh_request list"
  rs_issued :: "string list"

text \<open>The cookie is \<^verbatim>\<open>sessionId:rawToken\<close>, split at the first colon; an absent cookie is empty.\<close>

definition refresh_cookie :: "string \<Rightarrow> (ident \<times> string) option" where
  "refresh_cookie c =
     (if CHR '':'' \<in> set c
      then Some (takeWhile (\<lambda>x. x \<noteq> CHR '':'') c, tl (dropWhile (\<lambda>x. x \<noteq> CHR '':'') c))
      else None)"

definition set_refresh :: "nat \<Rightarrow> refresh_phase \<Rightarrow> refresh_state \<Rightarrow> refresh_state" where
  "set_refresh i ph st = st\<lparr>rs_requests := (rs_requests st)[i := (rs_requests st ! i)\<lparr>rf_phase := ph\<rparr>]\<rparr>"

definition refresh_arrive :: "string \<Rightarrow> refresh_state \<Rightarrow> refresh_state" where
  "refresh_arrive cookie st = st\<lparr>rs_requests := rs_requests st @ [\<lparr>rf_cookie = cookie, rf_phase = Arrived\<rparr>]\<rparr>"

definition refresh_verify :: "compare_fn \<Rightarrow> instant \<Rightarrow> nat \<Rightarrow> refresh_state \<Rightarrow> refresh_state" where
  "refresh_verify compare now i st =
     (let cookie = rf_cookie (rs_requests st ! i) in
      if cookie = [] then set_refresh i (Answered No_token_401) st
      else case refresh_cookie cookie of
             None \<Rightarrow> set_refresh i (Answered Bad_format_401) st
           | Some (sessionId, rawToken) \<Rightarrow>
               (case verifyRefreshToken compare now sessionId rawToken (rs_sessions st) of
                  Some session \<Rightarrow> set_refresh i (Verified session) st
                | None \<Rightarrow> set_refresh i Rejected st))"

definition refresh_recheck :: "instant \<Rightarrow> nat \<Rightarrow> refresh_state \<Rightarrow> refresh_state" where
  "refresh_recheck now i st =
     (let sessionId = fst (the (refresh_cookie (rf_cookie (rs_requests st ! i)))) in
      case select_first (\<lambda>r. sr_id r = sessionId) (rs_sessions st) of
        None \<Rightarrow> set_refresh i Replay st
      | Some current \<Rightarrow>
          (case (sr_revoked_at current, sr_rotated_at current) of
             (None, Some rotated_at) \<Rightarrow>
               if now - rotated_at < 10000 then set_refresh i (Answered Conflict_409) st
               else set_refresh i Replay st
           | _ \<Rightarrow> set_refresh i Replay st))"

definition refresh_revoke :: "instant \<Rightarrow> nat \<Rightarrow> refresh_state \<Rightarrow> refresh_state" where
  "refresh_revoke now i st =
     (let sessionId = fst (the (refresh_cookie (rf_cookie (rs_requests st ! i)))) in
      (set_refresh i (Answered Invalid_token_401) st)
        \<lparr>rs_sessions := revokeSessionFamily now sessionId (rs_sessions st)\<rparr>)"

definition refresh_rotate ::
    "hash_fn \<Rightarrow> string \<Rightarrow> string \<Rightarrow> bool \<Rightarrow> instant \<Rightarrow> nat \<Rightarrow> session_row \<Rightarrow> refresh_state \<Rightarrow> refresh_state" where
  "refresh_rotate hash newToken salt user_exists now i session st =
     (let sessionId = fst (the (refresh_cookie (rf_cookie (rs_requests st ! i))));
          (res, t') = rotateRefreshToken hash newToken salt now sessionId (sr_refresh_token_hash session) (rs_sessions st);
          answer = (case res of
                      None \<Rightarrow> Conflict_409
                    | Some tok \<Rightarrow> if user_exists then Refreshed tok else User_not_found_404 tok)
      in (set_refresh i (Answered answer) st)\<lparr>rs_sessions := t', rs_issued := newToken # rs_issued st\<rparr>)"

definition refresh_login ::
    "hash_fn \<Rightarrow> string \<Rightarrow> string \<Rightarrow> instant \<Rightarrow> ident \<Rightarrow> ident \<Rightarrow> string \<Rightarrow> string \<Rightarrow> refresh_state \<Rightarrow> refresh_state" where
  "refresh_login hash newToken salt now nid userId userAgent ip st =
     st\<lparr>rs_sessions := createSession hash newToken salt now nid userId userAgent ip (rs_sessions st),
        rs_issued := newToken # rs_issued st\<rparr>"

text \<open>The random tokens do not repeat, and neither do the identifiers of the sessions.\<close>

definition fresh_token :: "string \<Rightarrow> refresh_state \<Rightarrow> bool" where
  "fresh_token tok st \<longleftrightarrow> take 72 tok \<notin> take 72 ` set (rs_issued st)"

abbreviation phase_at :: "refresh_state \<Rightarrow> nat \<Rightarrow> refresh_phase" where
  "phase_at st i \<equiv> rf_phase (rs_requests st ! i)"

inductive refresh_step :: "hash_fn \<Rightarrow> compare_fn \<Rightarrow> refresh_state \<Rightarrow> refresh_state \<Rightarrow> bool" for hash compare where
  arrive: "refresh_step hash compare st (refresh_arrive cookie st)"
| verify: "i < length (rs_requests st) \<Longrightarrow> phase_at st i = Arrived \<Longrightarrow>
    refresh_step hash compare st (refresh_verify compare now i st)"
| recheck: "i < length (rs_requests st) \<Longrightarrow> phase_at st i = Rejected \<Longrightarrow>
    refresh_step hash compare st (refresh_recheck now i st)"
| revoke: "i < length (rs_requests st) \<Longrightarrow> phase_at st i = Replay \<Longrightarrow>
    refresh_step hash compare st (refresh_revoke now i st)"
| rotate: "i < length (rs_requests st) \<Longrightarrow> phase_at st i = Verified session \<Longrightarrow> fresh_token tok st \<Longrightarrow>
    refresh_step hash compare st (refresh_rotate hash tok salt user_exists now i session st)"
| login: "fresh_token tok st \<Longrightarrow> nid \<notin> sr_id ` set (rs_sessions st) \<Longrightarrow>
    refresh_step hash compare st (refresh_login hash tok salt now nid userId userAgent ip st)"
| logout: "refresh_step hash compare st (st\<lparr>rs_sessions := revokeSession now sid (rs_sessions st)\<rparr>)"
| logout_others: "refresh_step hash compare st (st\<lparr>rs_sessions := revokeOtherSessions now uid sid (rs_sessions st)\<rparr>)"

definition refresh_init :: "refresh_state \<Rightarrow> bool" where
  "refresh_init st \<longleftrightarrow> rs_sessions st = [] \<and> rs_requests st = [] \<and> rs_issued st = []"

text \<open>Request \<open>i\<close> got a new token for session \<open>sid\<close> in exchange for \<open>raw\<close>.\<close>

definition refreshed_with :: "refresh_state \<Rightarrow> nat \<Rightarrow> ident \<Rightarrow> string \<Rightarrow> bool" where
  "refreshed_with st i sid raw \<longleftrightarrow> i < length (rs_requests st)
     \<and> refresh_cookie (rf_cookie (rs_requests st ! i)) = Some (sid, raw)
     \<and> (\<exists>tok. phase_at st i = Answered (Refreshed tok))"

section \<open>The invariant of the refresh route\<close>

definition creds :: "session_row table \<Rightarrow> (ident \<times> string) list" where
  "creds t = map (\<lambda>r. (sr_id r, sr_refresh_token_hash r)) t"

definition spent_ok :: "compare_fn \<Rightarrow> refresh_state \<Rightarrow> bool" where
  "spent_ok compare st \<longleftrightarrow> (\<forall>i sid raw. refreshed_with st i sid raw \<longrightarrow>
     take 72 raw \<in> take 72 ` set (rs_issued st)
     \<and> (\<forall>h. (sid, h) \<in> set (creds (rs_sessions st)) \<longrightarrow> \<not> compare raw h))"

definition verified_ok :: "compare_fn \<Rightarrow> refresh_state \<Rightarrow> bool" where
  "verified_ok compare st \<longleftrightarrow> (\<forall>i<length (rs_requests st). \<forall>s. phase_at st i = Verified s \<longrightarrow>
     (\<exists>raw. refresh_cookie (rf_cookie (rs_requests st ! i)) = Some (sr_id s, raw)
        \<and> compare raw (sr_refresh_token_hash s)))"

definition single_use :: "refresh_state \<Rightarrow> bool" where
  "single_use st \<longleftrightarrow> (\<forall>i j sid raw raw'. i \<noteq> j \<and> refreshed_with st i sid raw \<and> refreshed_with st j sid raw'
     \<longrightarrow> take 72 raw \<noteq> take 72 raw')"

definition creds_ok :: "hash_fn \<Rightarrow> refresh_state \<Rightarrow> bool" where
  "creds_ok hash st \<longleftrightarrow> distinct (map fst (creds (rs_sessions st)))
     \<and> (\<forall>sid h. (sid, h) \<in> set (creds (rs_sessions st)) \<longrightarrow> (\<exists>salt. \<exists>tok\<in>set (rs_issued st). h = hash salt tok))"

definition refresh_inv :: "hash_fn \<Rightarrow> compare_fn \<Rightarrow> refresh_state \<Rightarrow> bool" where
  "refresh_inv hash compare st \<longleftrightarrow>
     creds_ok hash st \<and> spent_ok compare st \<and> verified_ok compare st \<and> single_use st"

lemma creds_revoke [simp]:
  "creds (revokeSession now sid t) = creds t"
  "creds (revokeSessionFamily now sid t) = creds t"
  "creds (revokeOtherSessions now uid sid t) = creds t"
  by (simp_all add: creds_def revokeSession_def revokeSessionFamily_def revokeOtherSessions_def update_where_def)

lemma set_refresh_simps [simp]:
  "rs_sessions (set_refresh i ph st) = rs_sessions st" "rs_issued (set_refresh i ph st) = rs_issued st"
  "length (rs_requests (set_refresh i ph st)) = length (rs_requests st)"
  by (simp_all add: set_refresh_def)

lemma set_refresh_nth:
  "i < length (rs_requests st) \<Longrightarrow>
   rs_requests (set_refresh i ph st) ! j = (if j = i then (rs_requests st ! i)\<lparr>rf_phase := ph\<rparr> else rs_requests st ! j)"
  by (simp add: set_refresh_def nth_list_update)

text \<open>A step that keeps the stored hashes and answers no request with a new token keeps the invariant.\<close>

lemma quiet_step:
  assumes inv: "refresh_inv hash compare st"
    and creds: "creds (rs_sessions st') = creds (rs_sessions st)"
    and issued: "set (rs_issued st) \<subseteq> set (rs_issued st')"
    and old: "\<And>i sid raw. refreshed_with st' i sid raw \<Longrightarrow> refreshed_with st i sid raw"
    and ver: "verified_ok compare st'"
  shows "refresh_inv hash compare st'"
proof -
  have "creds_ok hash st'" using inv issued unfolding refresh_inv_def creds_ok_def creds by blast
  moreover have "spent_ok compare st'"
    using inv issued old unfolding refresh_inv_def spent_ok_def creds by blast
  moreover have "single_use st'" using inv old unfolding refresh_inv_def single_use_def by blast
  ultimately show ?thesis using ver by (simp add: refresh_inv_def)
qed

lemma set_refresh_refreshed:
  assumes "i < length (rs_requests st)" "\<And>tok. ph \<noteq> Answered (Refreshed tok)"
    "rs_requests st' = rs_requests (set_refresh i ph st)" "refreshed_with st' j sid raw"
  shows "refreshed_with st j sid raw"
proof -
  have "j \<noteq> i" using assms by (auto simp: refreshed_with_def set_refresh_nth)
  with assms(1,3,4) show ?thesis by (simp add: refreshed_with_def set_refresh_nth)
qed

lemma set_refresh_verified:
  assumes "verified_ok compare st" "i < length (rs_requests st)"
    "\<And>s. ph = Verified s \<Longrightarrow> \<exists>raw. refresh_cookie (rf_cookie (rs_requests st ! i)) = Some (sr_id s, raw)
        \<and> compare raw (sr_refresh_token_hash s)"
    "rs_requests st' = rs_requests (set_refresh i ph st)"
  shows "verified_ok compare st'"
  using assms(1,3) unfolding verified_ok_def assms(4)
  by (simp add: set_refresh_nth [OF assms(2)])

lemma quiet_answer:
  assumes "refresh_inv hash compare st" "i < length (rs_requests st)"
    "\<And>tok. ph \<noteq> Answered (Refreshed tok)"
    "\<And>s. ph = Verified s \<Longrightarrow> \<exists>raw. refresh_cookie (rf_cookie (rs_requests st ! i)) = Some (sr_id s, raw)
        \<and> compare raw (sr_refresh_token_hash s)"
    "rs_requests st' = rs_requests (set_refresh i ph st)"
    "creds (rs_sessions st') = creds (rs_sessions st)" "set (rs_issued st) \<subseteq> set (rs_issued st')"
  shows "refresh_inv hash compare st'"
proof (rule quiet_step [OF assms(1,6,7)])
  fix j sid raw assume "refreshed_with st' j sid raw"
  then show "refreshed_with st j sid raw" by (rule set_refresh_refreshed [OF assms(2,3,5)])
next
  show "verified_ok compare st'"
    using assms(1) by (intro set_refresh_verified [OF _ assms(2,4,5)]) (simp_all add: refresh_inv_def)
qed

lemma verify_sound:
  "verifyRefreshToken compare now sid raw t = Some s \<Longrightarrow>
     s \<in> set t \<and> sr_id s = sid \<and> sr_revoked_at s = None \<and> now \<le> sr_expires_at s \<and> compare raw (sr_refresh_token_hash s)"
  by (auto simp: verifyRefreshToken_def not_less dest!: select_first_Some split: option.splits if_splits)

lemma inv_arrive:
  assumes inv: "refresh_inv hash compare st" shows "refresh_inv hash compare (refresh_arrive cookie st)"
proof (rule quiet_step [OF inv])
  fix i sid raw assume "refreshed_with (refresh_arrive cookie st) i sid raw"
  then show "refreshed_with st i sid raw"
    by (cases "i < length (rs_requests st)") (auto simp: refreshed_with_def refresh_arrive_def nth_append nth_Cons')
next
  show "verified_ok compare (refresh_arrive cookie st)"
    using inv by (auto simp: refresh_inv_def verified_ok_def refresh_arrive_def nth_append less_Suc_eq)
qed (simp_all add: refresh_arrive_def)

lemma inv_verify:
  assumes inv: "refresh_inv hash compare st" and i: "i < length (rs_requests st)"
  shows "refresh_inv hash compare (refresh_verify compare now i st)"
proof -
  obtain ph where st': "refresh_verify compare now i st = set_refresh i ph st"
    and ph: "\<And>tok. ph \<noteq> Answered (Refreshed tok)"
    "\<And>s. ph = Verified s \<Longrightarrow> \<exists>raw. refresh_cookie (rf_cookie (rs_requests st ! i)) = Some (sr_id s, raw)
        \<and> compare raw (sr_refresh_token_hash s)"
    by (fastforce simp: refresh_verify_def Let_def dest: verify_sound split: if_splits option.splits)
  show ?thesis unfolding st' by (rule quiet_answer [OF inv i ph]) auto
qed

lemma inv_recheck:
  assumes inv: "refresh_inv hash compare st" and i: "i < length (rs_requests st)"
  shows "refresh_inv hash compare (refresh_recheck now i st)"
proof -
  obtain ph where st': "refresh_recheck now i st = set_refresh i ph st"
    and ph: "\<And>tok. ph \<noteq> Answered (Refreshed tok)" "\<And>s. ph \<noteq> Verified s"
    by (fastforce simp: refresh_recheck_def Let_def split: if_splits option.splits)
  show ?thesis unfolding st' using ph(2) by (intro quiet_answer [OF inv i ph(1)]) auto
qed

lemma inv_revoke:
  assumes inv: "refresh_inv hash compare st" and i: "i < length (rs_requests st)"
  shows "refresh_inv hash compare (refresh_revoke now i st)"
  by (rule quiet_answer [OF inv i, of "Answered Invalid_token_401"]) (auto simp: refresh_revoke_def Let_def)

lemma rotate_creds:
  "creds (snd (rotateRefreshToken hash tok salt now sid h t)) =
     map (\<lambda>(r, c). if rotatable sid h r then (sid, hash salt tok) else c) (zip t (creds t))"
  by (induction t) (auto simp: rotateRefreshToken_def creds_def update_where_def rotatable_def)

lemma rotate_fst_creds: "map fst (creds (snd (rotateRefreshToken hash tok salt now sid h t))) = map fst (creds t)"
  by (induction t) (auto simp: rotateRefreshToken_def creds_def update_where_def rotatable_def)

lemma rotate_mem:
  assumes "(sid', h') \<in> set (creds (snd (rotateRefreshToken hash tok salt now sid h t)))"
  shows "h' = hash salt tok \<or> (sid', h') \<in> set (creds t)"
  using assms by (auto simp: rotateRefreshToken_def creds_def set_update_where split: if_splits)

lemma rotate_done:
  assumes "fst (rotateRefreshToken hash tok salt now sid h t) \<noteq> None"
  shows "(sid, h) \<in> set (creds t)"
proof -
  from assms obtain r where "r \<in> set t" "rotatable sid h r"
    by (auto simp: rotateRefreshToken_def Let_def select_where_def filter_empty_conv split: if_splits)
  then show ?thesis by (force simp: creds_def rotatable_def)
qed

lemma rotate_replaces:
  assumes "fst (rotateRefreshToken hash tok salt now sid h t) \<noteq> None" "distinct (map fst (creds t))"
    "(sid, h') \<in> set (creds (snd (rotateRefreshToken hash tok salt now sid h t)))"
  shows "h' = hash salt tok"
proof -
  from assms(1) obtain r where r: "r \<in> set t" "rotatable sid h r"
    by (auto simp: rotateRefreshToken_def Let_def select_where_def filter_empty_conv split: if_splits)
  from assms(2) have inj: "x \<in> set t \<Longrightarrow> y \<in> set t \<Longrightarrow> sr_id x = sr_id y \<Longrightarrow> x = y" for x y
    by (auto simp: creds_def distinct_map inj_on_def)
  from assms(3) obtain x where x: "x \<in> set t"
    "(sid, h') = (let y = (if rotatable sid h x then x\<lparr>sr_refresh_token_hash := hash salt tok, sr_last_seen_at := now,
        sr_rotated_at := Some now, sr_expires_at := session_expiry now\<rparr> else x) in (sr_id y, sr_refresh_token_hash y))"
    by (auto simp: rotateRefreshToken_def creds_def set_update_where Let_def)
  have "sr_id x = sid" using x(2) by (auto simp: Let_def split: if_splits)
  then have "x = r" using inj [OF x(1) r(1)] r(2) by (simp add: rotatable_def)
  with x(2) r(2) show ?thesis by simp
qed

lemma spent_not_fresh:
  assumes "bcrypt_law hash compare" "fresh_token tok st" "take 72 raw \<in> take 72 ` set (rs_issued st)"
  shows "\<not> compare raw (hash salt tok)"
  using assms by (auto simp: bcrypt_law_def fresh_token_def)

lemma inv_login:
  assumes law: "bcrypt_law hash compare" and inv: "refresh_inv hash compare st" and fresh: "fresh_token tok st"
    and nid: "nid \<notin> sr_id ` set (rs_sessions st)"
  shows "refresh_inv hash compare (refresh_login hash tok salt now nid userId userAgent ip st)" (is "refresh_inv _ _ ?st")
proof -
  have creds: "creds (rs_sessions ?st) = creds (rs_sessions st) @ [(nid, hash salt tok)]"
    and issued: "rs_issued ?st = tok # rs_issued st" and reqs: "rs_requests ?st = rs_requests st"
    by (simp_all add: refresh_login_def createSession_def creds_def)
  have same: "refreshed_with ?st i sid raw = refreshed_with st i sid raw" for i sid raw
    by (simp add: refreshed_with_def reqs)
  have "nid \<notin> fst ` set (creds (rs_sessions st))" using nid by (simp add: creds_def image_image)
  with inv have "creds_ok hash ?st" by (fastforce simp: refresh_inv_def creds_ok_def creds issued)
  moreover have "spent_ok compare ?st"
    using inv spent_not_fresh [OF law fresh] by (auto simp: refresh_inv_def spent_ok_def same creds issued)
  moreover have "verified_ok compare ?st" "single_use ?st"
    using inv by (simp_all add: refresh_inv_def verified_ok_def single_use_def same reqs)
  ultimately show ?thesis by (simp add: refresh_inv_def)
qed

lemma inv_rotate:
  assumes law: "bcrypt_law hash compare" and inv: "refresh_inv hash compare st" and fresh: "fresh_token tok st"
    and i: "i < length (rs_requests st)" and ph: "phase_at st i = Verified session"
  shows "refresh_inv hash compare (refresh_rotate hash tok salt user_exists now i session st)" (is "refresh_inv _ _ ?st")
proof -
  let ?h = "sr_refresh_token_hash session"
  let ?rot = "rotateRefreshToken hash tok salt now (sr_id session) ?h (rs_sessions st)"
  from inv i ph obtain raw where raw: "refresh_cookie (rf_cookie (rs_requests st ! i)) = Some (sr_id session, raw)"
    "compare raw ?h" by (auto simp: refresh_inv_def verified_ok_def)
  define ans where "ans = (case fst ?rot of None \<Rightarrow> Conflict_409
    | Some t \<Rightarrow> if user_exists then Refreshed t else User_not_found_404 t)"
  have rows: "rs_sessions ?st = snd ?rot" and issued: "rs_issued ?st = tok # rs_issued st"
    and reqs: "rs_requests ?st = rs_requests (set_refresh i (Answered ans) st)"
    by (simp_all add: refresh_rotate_def raw ans_def Let_def case_prod_unfold)
  have ver: "verified_ok compare ?st"
    using inv by (intro set_refresh_verified [OF _ i _ reqs]) (simp_all add: refresh_inv_def)
  have creds_st: "creds_ok hash ?st"
    using inv rotate_mem [of _ _ hash tok salt now "sr_id session" ?h "rs_sessions st"]
    unfolding refresh_inv_def creds_ok_def rows issued rotate_fst_creds by (metis list.set_intros)
  have old: "refreshed_with st j sid raw'" if "refreshed_with ?st j sid raw'" "j \<noteq> i" for j sid raw'
    using that by (simp add: refreshed_with_def reqs set_refresh_nth [OF i])
  have at_i: "sid = sr_id session" "raw' = raw" "fst ?rot \<noteq> None" if "refreshed_with ?st i sid raw'" for sid raw'
    using that raw by (auto simp: refreshed_with_def reqs set_refresh_nth [OF i] ans_def split: option.splits)
  have spent_old: "take 72 raw' \<in> take 72 ` set (rs_issued st)" "(sid, h) \<in> set (creds (rs_sessions st)) \<Longrightarrow> \<not> compare raw' h"
    if "refreshed_with st j sid raw'" for j sid raw' h using inv that by (auto simp: refresh_inv_def spent_ok_def)
  have current: "\<exists>salt. \<exists>t\<in>set (rs_issued st). ?h = hash salt t" "(sr_id session, ?h) \<in> set (creds (rs_sessions st))"
    if "fst ?rot \<noteq> None"
    using inv rotate_done [OF that] by (auto simp: refresh_inv_def creds_ok_def)
  have prefix: "take 72 raw \<in> take 72 ` set (rs_issued st)" if "fst ?rot \<noteq> None"
    using current(1) [OF that] raw(2) law by (auto simp: bcrypt_law_def)
  have "spent_ok compare ?st"
    unfolding spent_ok_def rows issued
  proof (intro allI impI conjI)
    fix j sid raw' assume r: "refreshed_with ?st j sid raw'"
    have p: "take 72 raw' \<in> take 72 ` set (rs_issued st)"
      using at_i [of sid raw'] prefix spent_old(1) [OF old [OF r]] r by (cases "j = i") auto
    then show "take 72 raw' \<in> take 72 ` set (tok # rs_issued st)" by auto
    fix h assume h: "(sid, h) \<in> set (creds (snd ?rot))"
    show "\<not> compare raw' h"
    proof (cases "h = hash salt tok")
      case True
      then show ?thesis using spent_not_fresh [OF law fresh p] by simp
    next
      case False
      have dist: "distinct (map fst (creds (rs_sessions st)))" using inv by (simp add: refresh_inv_def creds_ok_def)
      have "j \<noteq> i"
      proof
        assume "j = i"
        with r have r: "refreshed_with ?st i sid raw'" by simp
        with rotate_replaces [OF at_i(3) [OF r] dist] h at_i(1) [OF r] False show False by simp
      qed
      moreover have "(sid, h) \<in> set (creds (rs_sessions st))" using rotate_mem [OF h] False by blast
      ultimately show ?thesis using spent_old(2) [OF old [OF r]] by blast
    qed
  qed
  moreover have "single_use ?st"
  proof -
    have other: "take 72 raw \<noteq> take 72 raw'" if "fst ?rot \<noteq> None" "refreshed_with st j (sr_id session) raw'" for j raw'
      using spent_old(2) [OF that(2) current(2) [OF that(1)]] current(1) [OF that(1)] raw(2) law
      by (auto simp: bcrypt_law_def)
    show ?thesis
      unfolding single_use_def
    proof (intro allI impI)
      fix a b sid r r' assume a: "a \<noteq> b \<and> refreshed_with ?st a sid r \<and> refreshed_with ?st b sid r'"
      show "take 72 r \<noteq> take 72 r'"
      proof (cases "a = i")
        case True
        with a at_i [of sid r] other old show ?thesis by metis
      next
        case False
        show ?thesis
        proof (cases "b = i")
          case True
          with a False at_i [of sid r'] other old show ?thesis by metis
        next
          case b: False
          with a False old inv show ?thesis unfolding refresh_inv_def single_use_def by blast
        qed
      qed
    qed
  qed
  ultimately show ?thesis using creds_st ver by (simp add: refresh_inv_def)
qed

lemma inv_logout:
  assumes inv: "refresh_inv hash compare st" and creds: "creds t' = creds (rs_sessions st)"
  shows "refresh_inv hash compare (st\<lparr>rs_sessions := t'\<rparr>)"
  using inv by (intro quiet_step [OF inv]) (simp_all add: creds refreshed_with_def refresh_inv_def verified_ok_def)

lemma refresh_inv_step:
  assumes "bcrypt_law hash compare" "refresh_inv hash compare st" "refresh_step hash compare st st'"
  shows "refresh_inv hash compare st'"
  using assms(3,2)
  by cases (auto intro: inv_arrive inv_verify inv_recheck inv_revoke inv_rotate [OF assms(1)] inv_login [OF assms(1)] inv_logout)

lemma refresh_inv_init: "refresh_init st \<Longrightarrow> refresh_inv hash compare st"
  by (simp add: refresh_init_def refresh_inv_def creds_ok_def spent_ok_def verified_ok_def single_use_def creds_def
      refreshed_with_def)

interpretation refresh_route: step_machine refresh_init "refresh_step hash compare"
    "\<lambda>st. bcrypt_law hash compare \<longrightarrow> refresh_inv hash compare st" for hash compare
  by unfold_locales (blast intro: refresh_inv_init refresh_inv_step)+

section \<open>Revocation\<close>

definition revoked :: "ident \<Rightarrow> refresh_state \<Rightarrow> bool" where
  "revoked sid st \<longleftrightarrow> (\<forall>r\<in>set (rs_sessions st). sr_id r = sid \<longrightarrow> sr_revoked_at r \<noteq> None)
     \<and> sid \<in> sr_id ` set (rs_sessions st)"

definition known_refreshes :: "ident \<Rightarrow> refresh_state \<Rightarrow> nat set" where
  "known_refreshes sid st = {i. \<exists>raw. refreshed_with st i sid raw}"

lemma revoked_update:
  assumes "revoked sid (st :: refresh_state)" "\<And>r. sr_id (f r) = sr_id r"
    "\<And>r. P r \<Longrightarrow> sr_revoked_at r = None \<or> sr_revoked_at (f r) \<noteq> None"
  shows "revoked sid (st\<lparr>rs_sessions := update_where P f (rs_sessions st)\<rparr>)"
proof -
  have "sr_id ` set (update_where P f (rs_sessions st)) = sr_id ` set (rs_sessions st)"
    using arg_cong [OF map_update_where [of P sr_id f "rs_sessions st", OF assms(2)], of set] by simp
  moreover have "sr_revoked_at r \<noteq> None" if "r \<in> set (update_where P f (rs_sessions st))" "sr_id r = sid" for r
    using that(1)
  proof (cases rule: update_whereE)
    case (hit s)
    then have "sr_id s = sid" using that(2) assms(2) by simp
    then have "sr_revoked_at s \<noteq> None" using assms(1) hit(1) by (simp add: revoked_def)
    then show ?thesis using assms(3) [OF hit(2)] hit(3) by auto
  next
    case miss
    then show ?thesis using assms(1) that(2) by (simp add: revoked_def)
  qed
  ultimately show ?thesis using assms(1) by (simp add: revoked_def)
qed

lemma revoked_rotate:
  assumes "revoked sid st"
  shows "fst (rotateRefreshToken hash tok salt now sid h (rs_sessions st)) = None"
  using assms by (auto simp: rotateRefreshToken_def Let_def select_where_def filter_empty_conv rotatable_def revoked_def)

lemma revoked_same_rows: "revoked sid st \<Longrightarrow> rs_sessions st' = rs_sessions st \<Longrightarrow> revoked sid st'"
  by (simp add: revoked_def)

lemma refresh_verify_rows: "rs_sessions (refresh_verify compare now i st) = rs_sessions st"
  by (simp add: refresh_verify_def Let_def split: option.splits)

lemma refresh_recheck_rows: "rs_sessions (refresh_recheck now i st) = rs_sessions st"
  by (simp add: refresh_recheck_def Let_def split: option.splits)

lemma revoked_step:
  assumes "revoked sid st" "refresh_step hash compare st st'" shows "revoked sid st'"
  using assms(2)
proof cases
  case (arrive cookie)
  then show ?thesis using assms(1) by (simp add: revoked_def refresh_arrive_def)
next
  case (verify i now)
  then show ?thesis using revoked_same_rows [OF assms(1)] by (simp add: refresh_verify_rows)
next
  case (recheck i now)
  then show ?thesis using revoked_same_rows [OF assms(1)] by (simp add: refresh_recheck_rows)
next
  case (revoke i now)
  then show ?thesis
    using revoked_update [OF assms(1), of "\<lambda>r. r\<lparr>sr_revoked_at := Some now\<rparr>"]
    by (simp add: refresh_revoke_def revokeSessionFamily_def Let_def revoked_def)
next
  case (rotate i session tok salt user_exists now)
  let ?sid = "fst (the (refresh_cookie (rf_cookie (rs_requests st ! i))))"
  have "revoked sid (st\<lparr>rs_sessions := snd (rotateRefreshToken hash tok salt now ?sid (sr_refresh_token_hash session) (rs_sessions st))\<rparr>)"
    unfolding rotateRefreshToken_def Let_def snd_conv
    by (rule revoked_update [OF assms(1)]) (simp_all add: rotatable_def)
  with rotate(1) show ?thesis by (simp add: refresh_rotate_def revoked_def Let_def case_prod_unfold)
next
  case (login tok nid salt now userId userAgent ip)
  then show ?thesis using assms(1) by (auto simp: revoked_def refresh_login_def createSession_def)
next
  case (logout now sid')
  then show ?thesis
    using revoked_update [OF assms(1), of "\<lambda>r. r\<lparr>sr_revoked_at := Some now\<rparr>"] by (simp add: revokeSession_def)
next
  case (logout_others now uid sid')
  then show ?thesis
    using revoked_update [OF assms(1), of "\<lambda>r. r\<lparr>sr_revoked_at := Some now\<rparr>"] by (simp add: revokeOtherSessions_def)
qed

lemma step_answers:
  assumes "refresh_step hash compare st st'" "refreshed_with st' j sid raw"
  shows "refreshed_with st j sid raw
    \<or> (\<exists>h tok salt now. fst (rotateRefreshToken hash tok salt now sid h (rs_sessions st)) \<noteq> None)"
  using assms(1)
proof cases
  case (arrive cookie)
  with assms(2) show ?thesis
    by (cases "j < length (rs_requests st)") (auto simp: refreshed_with_def refresh_arrive_def nth_append nth_Cons')
next
  case (verify i now)
  obtain ph where "st' = set_refresh i ph st" "\<And>tok. ph \<noteq> Answered (Refreshed tok)"
    unfolding verify(1) by (fastforce simp: refresh_verify_def Let_def split: if_splits option.splits)
  with set_refresh_refreshed [OF verify(2)] assms(2) show ?thesis by blast
next
  case (recheck i now)
  obtain ph where "st' = set_refresh i ph st" "\<And>tok. ph \<noteq> Answered (Refreshed tok)"
    unfolding recheck(1) by (fastforce simp: refresh_recheck_def Let_def split: if_splits option.splits)
  with set_refresh_refreshed [OF recheck(2)] assms(2) show ?thesis by blast
next
  case (revoke i now)
  then show ?thesis
    using set_refresh_refreshed [OF revoke(2), of "Answered Invalid_token_401" st'] assms(2)
    by (simp add: refresh_revoke_def Let_def)
next
  case (rotate i session tok salt user_exists now)
  let ?rot = "rotateRefreshToken hash tok salt now sid (sr_refresh_token_hash session) (rs_sessions st)"
  have "fst ?rot \<noteq> None" if "j = i"
    using rotate assms(2) that
    by (auto simp: refreshed_with_def refresh_rotate_def Let_def case_prod_unfold set_refresh_nth split: option.splits)
  moreover have "refreshed_with st j sid raw" if "j \<noteq> i"
    using rotate assms(2) that
    by (simp add: refreshed_with_def refresh_rotate_def Let_def case_prod_unfold set_refresh_nth)
  ultimately show ?thesis by blast
next
  case (login tok nid salt now userId userAgent ip)
  with assms(2) show ?thesis by (simp add: refreshed_with_def refresh_login_def)
qed (use assms(2) in \<open>simp_all add: refreshed_with_def\<close>)

lemma revoked_steps:
  assumes "(refresh_step hash compare)\<^sup>*\<^sup>* st st'" "revoked sid st"
  shows "revoked sid st' \<and> (\<forall>j raw. refreshed_with st' j sid raw \<longrightarrow> refreshed_with st j sid raw)"
  using assms
proof (induction rule: rtranclp_induct)
  case (step y z)
  then have y: "revoked sid y" "\<And>j raw. refreshed_with y j sid raw \<Longrightarrow> refreshed_with st j sid raw" by blast+
  have "refreshed_with y j sid raw" if "refreshed_with z j sid raw" for j raw
    using step_answers [OF step.hyps(2) that] by (simp add: revoked_rotate [OF y(1)])
  with y revoked_step [OF y(1) step.hyps(2)] show ?case by blast
qed simp

section \<open>Backup codes\<close>

record backup_row =
  bc_id :: ident
  bc_user_id :: ident
  bc_code_hash :: string
  bc_consumed_at :: "instant option"
  bc_created_at :: instant

definition BASE32_CHARS :: string where "BASE32_CHARS = ''ABCDEFGHIJKLMNOPQRSTUVWXYZ234567''"

text \<open>A segment of random bytes, each taken modulo 32, and the code of three segments.\<close>

definition randomSegment :: "nat list \<Rightarrow> string" where
  "randomSegment bytes = map (\<lambda>b. BASE32_CHARS ! (b mod 32)) bytes"

definition generateCode :: "nat list \<Rightarrow> nat list \<Rightarrow> nat list \<Rightarrow> string" where
  "generateCode a b c = randomSegment a @ ''-'' @ randomSegment b @ ''-'' @ randomSegment c"

definition backup_rows :: "hash_fn \<Rightarrow> instant \<Rightarrow> ident \<Rightarrow> (ident \<times> string \<times> string) list \<Rightarrow> backup_row list" where
  "backup_rows hash now userId codes =
     map (\<lambda>(nid, salt, code). \<lparr>bc_id = nid, bc_user_id = userId, bc_code_hash = hash salt code,
       bc_consumed_at = None, bc_created_at = now\<rparr>) codes"

definition generate :: "hash_fn \<Rightarrow> instant \<Rightarrow> ident \<Rightarrow> (ident \<times> string \<times> string) list \<Rightarrow> backup_row table \<Rightarrow> backup_row table" where
  "generate hash now userId codes t = t @ backup_rows hash now userId codes"

definition active_of :: "ident \<Rightarrow> backup_row \<Rightarrow> bool" where
  "active_of userId r \<longleftrightarrow> bc_user_id r = userId \<and> bc_consumed_at r = None"

definition invalidate_codes :: "instant \<Rightarrow> ident \<Rightarrow> backup_row table \<Rightarrow> backup_row table" where
  "invalidate_codes now userId t = update_where (active_of userId) (\<lambda>r. r\<lparr>bc_consumed_at := Some now\<rparr>) t"

definition regenerate :: "hash_fn \<Rightarrow> instant \<Rightarrow> ident \<Rightarrow> (ident \<times> string \<times> string) list \<Rightarrow> backup_row table \<Rightarrow> backup_row table" where
  "regenerate hash now userId codes t = generate hash now userId codes (invalidate_codes now userId t)"

definition countActive :: "ident \<Rightarrow> backup_row table \<Rightarrow> nat" where
  "countActive userId t = length (select_where (active_of userId) t)"

text \<open>\<^verbatim>\<open>consume\<close> in two pieces: the row the loop stops at, and the update of that row.\<close>

definition consume_match :: "compare_fn \<Rightarrow> ident \<Rightarrow> string \<Rightarrow> backup_row table \<Rightarrow> ident option" where
  "consume_match compare userId rawCode t =
     map_option bc_id (find (\<lambda>r. compare rawCode (bc_code_hash r)) (select_where (active_of userId) t))"

definition consume_mark :: "instant \<Rightarrow> ident \<Rightarrow> backup_row table \<Rightarrow> bool \<times> backup_row table" where
  "consume_mark now rid t =
     (select_where (\<lambda>r. bc_id r = rid \<and> bc_consumed_at r = None) t \<noteq> [],
      update_where (\<lambda>r. bc_id r = rid \<and> bc_consumed_at r = None) (\<lambda>r. r\<lparr>bc_consumed_at := Some now\<rparr>) t)"

datatype consume_phase =
    C_arrived
  | C_matched ident
  | C_answered "ident option"

record backup_request =
  br_user :: ident
  br_code :: string
  br_phase :: consume_phase

record backup_state =
  bs_rows :: "backup_row table"
  bs_requests :: "backup_request list"

definition set_consume :: "nat \<Rightarrow> consume_phase \<Rightarrow> backup_state \<Rightarrow> backup_state" where
  "set_consume i ph st = st\<lparr>bs_requests := (bs_requests st)[i := (bs_requests st ! i)\<lparr>br_phase := ph\<rparr>]\<rparr>"

definition consume_read :: "compare_fn \<Rightarrow> nat \<Rightarrow> backup_state \<Rightarrow> backup_state" where
  "consume_read compare i st =
     (let rq = bs_requests st ! i in
      case consume_match compare (br_user rq) (br_code rq) (bs_rows st) of
        None \<Rightarrow> set_consume i (C_answered None) st
      | Some rid \<Rightarrow> set_consume i (C_matched rid) st)"

definition consume_write :: "instant \<Rightarrow> ident \<Rightarrow> nat \<Rightarrow> backup_state \<Rightarrow> backup_state" where
  "consume_write now rid i st =
     (let (updated, t') = consume_mark now rid (bs_rows st)
      in (set_consume i (C_answered (if updated then Some rid else None)) st)\<lparr>bs_rows := t'\<rparr>)"

inductive backup_step :: "hash_fn \<Rightarrow> compare_fn \<Rightarrow> backup_state \<Rightarrow> backup_state \<Rightarrow> bool" for hash compare where
  bc_arrive: "backup_step hash compare st
    (st\<lparr>bs_requests := bs_requests st @ [\<lparr>br_user = u, br_code = code, br_phase = C_arrived\<rparr>]\<rparr>)"
| bc_read: "i < length (bs_requests st) \<Longrightarrow> br_phase (bs_requests st ! i) = C_arrived \<Longrightarrow>
    backup_step hash compare st (consume_read compare i st)"
| bc_write: "i < length (bs_requests st) \<Longrightarrow> br_phase (bs_requests st ! i) = C_matched rid \<Longrightarrow>
    backup_step hash compare st (consume_write now rid i st)"
| bc_invalidate: "backup_step hash compare st (st\<lparr>bs_rows := invalidate_codes now u (bs_rows st)\<rparr>)"
| bc_generate: "distinct (map fst codes) \<Longrightarrow> fst ` set codes \<inter> bc_id ` set (bs_rows st) = {} \<Longrightarrow>
    backup_step hash compare st (st\<lparr>bs_rows := generate hash now u codes (bs_rows st)\<rparr>)"

definition consumed_by :: "backup_state \<Rightarrow> nat \<Rightarrow> ident \<Rightarrow> bool" where
  "consumed_by st i rid \<longleftrightarrow> i < length (bs_requests st) \<and> br_phase (bs_requests st ! i) = C_answered (Some rid)"

definition backup_inv :: "backup_state \<Rightarrow> bool" where
  "backup_inv st \<longleftrightarrow>
     (\<forall>i rid. consumed_by st i rid \<longrightarrow> rid \<in> bc_id ` set (bs_rows st)
        \<and> (\<forall>r\<in>set (bs_rows st). bc_id r = rid \<longrightarrow> bc_consumed_at r \<noteq> None))
     \<and> (\<forall>i j rid. consumed_by st i rid \<and> consumed_by st j rid \<longrightarrow> i = j)"

definition backup_init :: "backup_state \<Rightarrow> bool" where
  "backup_init st \<longleftrightarrow> bs_rows st = [] \<and> bs_requests st = []"

lemma set_consume_simps [simp]:
  "bs_rows (set_consume i ph st) = bs_rows st"
  "length (bs_requests (set_consume i ph st)) = length (bs_requests st)"
  by (simp_all add: set_consume_def)

lemma set_consume_nth:
  "i < length (bs_requests st) \<Longrightarrow>
   bs_requests (set_consume i ph st) ! j = (if j = i then (bs_requests st ! i)\<lparr>br_phase := ph\<rparr> else bs_requests st ! j)"
  by (simp add: set_consume_def nth_list_update)

text \<open>Codes are only ever marked as used: the identifiers stay and no mark is taken back.\<close>

definition only_marked :: "backup_row table \<Rightarrow> backup_row table \<Rightarrow> bool" where
  "only_marked t t' \<longleftrightarrow> bc_id ` set t \<subseteq> bc_id ` set t'
     \<and> (\<forall>rid\<in>bc_id ` set t. (\<forall>r\<in>set t. bc_id r = rid \<longrightarrow> bc_consumed_at r \<noteq> None)
           \<longrightarrow> (\<forall>r\<in>set t'. bc_id r = rid \<longrightarrow> bc_consumed_at r \<noteq> None))"

lemma mark_only_marked: "only_marked t (update_where P (\<lambda>r. r\<lparr>bc_consumed_at := Some now\<rparr>) t)"
proof -
  let ?t = "update_where P (\<lambda>r. r\<lparr>bc_consumed_at := Some now\<rparr>) t"
  have "bc_id ` set ?t = bc_id ` set t"
    using arg_cong [OF map_update_where [of P bc_id "\<lambda>r. r\<lparr>bc_consumed_at := Some now\<rparr>" t], of set] by simp
  moreover have "bc_consumed_at r \<noteq> None"
    if "\<forall>r\<in>set t. bc_id r = rid \<longrightarrow> bc_consumed_at r \<noteq> None" "r \<in> set ?t" "bc_id r = rid" for r rid
    using that(2) by (cases rule: update_whereE) (use that in auto)
  ultimately show ?thesis unfolding only_marked_def by blast
qed

lemma only_marked_used:
  assumes "only_marked t t'" "rid \<in> bc_id ` set t" "\<forall>r\<in>set t. bc_id r = rid \<longrightarrow> bc_consumed_at r \<noteq> None"
  shows "rid \<in> bc_id ` set t'" "\<forall>r\<in>set t'. bc_id r = rid \<longrightarrow> bc_consumed_at r \<noteq> None"
proof -
  show "rid \<in> bc_id ` set t'" using assms(1,2) unfolding only_marked_def by (rule conjunct1 [THEN subsetD])
  from assms(1) have "\<forall>rid\<in>bc_id ` set t. (\<forall>r\<in>set t. bc_id r = rid \<longrightarrow> bc_consumed_at r \<noteq> None)
      \<longrightarrow> (\<forall>r\<in>set t'. bc_id r = rid \<longrightarrow> bc_consumed_at r \<noteq> None)" unfolding only_marked_def by (rule conjunct2)
  from bspec [OF this assms(2)] assms(3) show "\<forall>r\<in>set t'. bc_id r = rid \<longrightarrow> bc_consumed_at r \<noteq> None"
    by (rule mp)
qed

lemma backup_inv_quiet:
  assumes inv: "backup_inv st" and marked: "only_marked (bs_rows st) (bs_rows st')"
    and old: "\<And>i rid. consumed_by st' i rid \<Longrightarrow> consumed_by st i rid"
  shows "backup_inv st'"
  unfolding backup_inv_def
proof (intro conjI allI impI)
  fix i rid assume "consumed_by st' i rid"
  with inv have used: "rid \<in> bc_id ` set (bs_rows st)" "\<forall>r\<in>set (bs_rows st). bc_id r = rid \<longrightarrow> bc_consumed_at r \<noteq> None"
    unfolding backup_inv_def by (blast dest: old)+
  show "rid \<in> bc_id ` set (bs_rows st')" "\<forall>r\<in>set (bs_rows st'). bc_id r = rid \<longrightarrow> bc_consumed_at r \<noteq> None"
    using only_marked_used [OF marked used] .
next
  fix i j rid assume "consumed_by st' i rid \<and> consumed_by st' j rid"
  then show "i = j" using inv old unfolding backup_inv_def by blast
qed

lemma backup_inv_write:
  assumes inv: "backup_inv st" and i: "i < length (bs_requests st)" and ph: "br_phase (bs_requests st ! i) = C_matched rid"
  shows "backup_inv (consume_write now rid i st)" (is "backup_inv ?st")
proof -
  let ?free = "\<lambda>r. bc_id r = rid \<and> bc_consumed_at r = None"
  have rows: "bs_rows ?st = update_where ?free (\<lambda>r. r\<lparr>bc_consumed_at := Some now\<rparr>) (bs_rows st)"
    by (simp add: consume_write_def consume_mark_def)
  have cons: "consumed_by ?st j q \<longleftrightarrow>
      (if j = i then q = rid \<and> select_where ?free (bs_rows st) \<noteq> [] else consumed_by st j q)" for j q
    using i by (auto simp: consumed_by_def consume_write_def consume_mark_def set_consume_nth)
  show ?thesis
  proof (cases "select_where ?free (bs_rows st) = []")
    case True
    have "only_marked (bs_rows st) (bs_rows ?st)" unfolding rows by (rule mark_only_marked)
    then show ?thesis by (rule backup_inv_quiet [OF inv]) (auto simp: cons True split: if_splits)
  next
    case False
    then obtain r where r: "r \<in> set (bs_rows st)" "bc_id r = rid" "bc_consumed_at r = None"
      by (auto simp: select_where_def filter_empty_conv)
    have fresh: "\<not> consumed_by st j rid" for j using inv r unfolding backup_inv_def by blast
    have m: "only_marked (bs_rows st) (bs_rows ?st)" unfolding rows by (rule mark_only_marked)
    have here: "rid \<in> bc_id ` set (bs_rows ?st)" "\<forall>r\<in>set (bs_rows ?st). bc_id r = rid \<longrightarrow> bc_consumed_at r \<noteq> None"
    proof -
      show "rid \<in> bc_id ` set (bs_rows ?st)" using m r unfolding only_marked_def by blast
      have "bc_consumed_at x \<noteq> None" if "x \<in> set (bs_rows ?st)" "bc_id x = rid" for x
        using that(1) unfolding rows by (cases rule: update_whereE) (use that(2) in auto)
      then show "\<forall>r\<in>set (bs_rows ?st). bc_id r = rid \<longrightarrow> bc_consumed_at r \<noteq> None" by blast
    qed
    show ?thesis
      unfolding backup_inv_def
    proof (intro conjI allI impI)
      fix j q assume c: "consumed_by ?st j q"
      have "q = rid \<or> consumed_by st j q" using c by (auto simp: cons split: if_splits)
      then show "q \<in> bc_id ` set (bs_rows ?st)" "\<forall>r\<in>set (bs_rows ?st). bc_id r = q \<longrightarrow> bc_consumed_at r \<noteq> None"
        using here inv only_marked_used [OF m] unfolding backup_inv_def by metis+
    next
      fix a b q assume "consumed_by ?st a q \<and> consumed_by ?st b q"
      then have "a = b \<or> (consumed_by st a q \<and> consumed_by st b q)"
        using fresh by (cases "a = i"; cases "b = i") (simp_all add: cons)
      then show "a = b" using inv unfolding backup_inv_def by blast
    qed
  qed
qed

lemma backup_inv_step:
  assumes inv: "backup_inv st" and step: "backup_step hash compare st st'"
  shows "backup_inv st'"
  using step
proof cases
  case (bc_arrive u code)
  show ?thesis
    by (rule backup_inv_quiet [OF inv])
      (auto simp: bc_arrive only_marked_def consumed_by_def nth_append less_Suc_eq split: if_splits)
next
  case (bc_read i)
  obtain ph where ph: "st' = set_consume i ph st" "\<And>rid. ph \<noteq> C_answered (Some rid)"
    unfolding bc_read(1) by (fastforce simp: consume_read_def Let_def split: option.splits)
  show ?thesis
    using ph bc_read(2) by (intro backup_inv_quiet [OF inv])
      (auto simp: only_marked_def consumed_by_def set_consume_nth split: if_splits)
next
  case (bc_write i rid now)
  then show ?thesis using backup_inv_write [OF inv] by simp
next
  case (bc_invalidate now u)
  then show ?thesis
    by (intro backup_inv_quiet [OF inv]) (simp_all add: invalidate_codes_def mark_only_marked consumed_by_def)
next
  case (bc_generate codes now u)
  have ids: "bc_id ` set (backup_rows hash now u codes) = fst ` set codes"
    by (force simp: backup_rows_def)
  have "only_marked (bs_rows st) (bs_rows st')"
    unfolding only_marked_def bc_generate(1) generate_def
  proof (intro conjI ballI impI)
    fix rid r assume "rid \<in> bc_id ` set (bs_rows st)" "bc_id r = rid"
      "\<forall>r\<in>set (bs_rows st). bc_id r = rid \<longrightarrow> bc_consumed_at r \<noteq> None"
      "r \<in> set (bs_rows (st\<lparr>bs_rows := bs_rows st @ backup_rows hash now u codes\<rparr>))"
    moreover have "r \<notin> set (backup_rows hash now u codes)"
      using calculation(1,2) bc_generate(3) ids by blast
    ultimately show "bc_consumed_at r \<noteq> None" by simp
  qed auto
  then show ?thesis by (rule backup_inv_quiet [OF inv]) (simp add: bc_generate(1) consumed_by_def)
qed

lemma backup_inv_init: "backup_init st \<Longrightarrow> backup_inv st"
  by (simp add: backup_init_def backup_inv_def consumed_by_def)

interpretation backup_route: step_machine backup_init "backup_step hash compare" backup_inv for hash compare
  by unfold_locales (blast intro: backup_inv_init backup_inv_step)+

lemma generateCode_shape:
  assumes "length a = 4" "length b = 4" "length c = 4"
  shows "length (generateCode a b c) = 14" "set (generateCode a b c) \<subseteq> set BASE32_CHARS \<union> {CHR ''-''}"
proof -
  have "BASE32_CHARS ! (b mod 32) \<in> set BASE32_CHARS" for b by (rule nth_mem) (simp add: BASE32_CHARS_def)
  then show "set (generateCode a b c) \<subseteq> set BASE32_CHARS \<union> {CHR ''-''}"
    by (auto simp: generateCode_def randomSegment_def)
  show "length (generateCode a b c) = 14" using assms by (simp add: generateCode_def randomSegment_def)
qed

lemma regenerate_counts:
  "countActive userId (regenerate hash now userId codes t) = length codes"
proof -
  have "filter (active_of userId) (invalidate_codes now userId t) = []"
    by (induction t) (simp_all add: invalidate_codes_def update_where_def active_of_def)
  moreover have "filter (active_of userId) (backup_rows hash now userId codes) = backup_rows hash now userId codes"
    by (induction codes) (auto simp: backup_rows_def active_of_def)
  ultimately show ?thesis
    by (simp add: countActive_def regenerate_def generate_def select_where_def) (simp add: backup_rows_def)
qed

section \<open>Properties\<close>

definition demo_hash :: hash_fn where "demo_hash salt text = take 72 text"
definition demo_compare :: compare_fn where "demo_compare raw h \<longleftrightarrow> take 72 raw = h"

lemma demo_law: "bcrypt_law demo_hash demo_compare"
  by (simp add: bcrypt_law_def demo_hash_def demo_compare_def)

definition demo_login :: refresh_state where
  "demo_login = refresh_login demo_hash ''t1'' [] 0 ''s'' ''alice'' [] [] \<lparr>rs_sessions = [], rs_requests = [], rs_issued = []\<rparr>"

definition demo_exchange :: "string \<Rightarrow> string \<Rightarrow> nat \<Rightarrow> instant \<Rightarrow> refresh_state \<Rightarrow> refresh_state" where
  "demo_exchange raw new i now st =
     (let st1 = refresh_arrive (''s:'' @ raw) st; st2 = refresh_verify demo_compare now i st1
      in case phase_at st2 i of
           Verified session \<Rightarrow> refresh_rotate demo_hash new [] True now i session st2
         | _ \<Rightarrow> st2)"

abbreviation demo_reachable :: "refresh_state \<Rightarrow> bool" where
  "demo_reachable \<equiv> reachable refresh_init (refresh_step demo_hash demo_compare)"

lemma demo_exchange_reachable:
  assumes st: "demo_reachable st" and i: "i = length (rs_requests st)" and tok: "fresh_token new st"
  shows "demo_reachable (demo_exchange raw new i now st)"
proof -
  let ?st1 = "refresh_arrive (''s:'' @ raw) st"
  let ?st2 = "refresh_verify demo_compare now i ?st1"
  have r1: "demo_reachable ?st1" by (rule reachable.next_state [OF st], rule refresh_step.arrive)
  have i1: "i < length (rs_requests ?st1)" "phase_at ?st1 i = Arrived" by (simp_all add: refresh_arrive_def i)
  have r2: "demo_reachable ?st2" by (rule reachable.next_state [OF r1], rule refresh_step.verify, fact+)
  have len: "length (rs_requests ?st2) = length (rs_requests ?st1)"
    by (simp add: refresh_verify_def Let_def split: option.splits)
  have "rs_issued ?st2 = rs_issued st"
    by (simp add: refresh_verify_def Let_def refresh_arrive_def split: option.splits)
  then have fresh: "fresh_token new ?st2" using tok by (simp add: fresh_token_def)
  show ?thesis
  proof (cases "phase_at ?st2 i")
    case (Verified session)
    have "demo_reachable (refresh_rotate demo_hash new [] True now i session ?st2)"
      by (rule reachable.next_state [OF r2], rule refresh_step.rotate) (use i1(1) len Verified fresh in simp_all)
    with Verified show ?thesis by (simp add: demo_exchange_def)
  qed (use r2 in \<open>simp_all add: demo_exchange_def\<close>)
qed

definition demo_twice :: refresh_state where
  "demo_twice = demo_exchange ''t2'' ''t3'' 1 2 (demo_exchange ''t1'' ''t2'' 0 1 demo_login)"

lemma demo_twice_reachable: "demo_reachable demo_twice"
proof -
  have r0: "demo_reachable \<lparr>rs_sessions = [], rs_requests = [], rs_issued = []\<rparr>"
    by (rule reachable.start) (simp add: refresh_init_def)
  have "demo_reachable demo_login"
    unfolding demo_login_def by (rule reachable.next_state [OF r0], rule refresh_step.login) (simp_all add: fresh_token_def)
  then have "demo_reachable (demo_exchange ''t1'' ''t2'' 0 1 demo_login)"
    by (rule demo_exchange_reachable) (simp_all add: demo_login_def refresh_login_def fresh_token_def)
  then show ?thesis
    unfolding demo_twice_def by (rule demo_exchange_reachable) code_simp+
qed

lemma demo_answers:
  "length (rs_requests demo_twice) = 2"
  "refresh_cookie (rf_cookie (rs_requests demo_twice ! 0)) = Some (''s'', ''t1'')" "phase_at demo_twice 0 = Answered (Refreshed ''t2'')"
  "refresh_cookie (rf_cookie (rs_requests demo_twice ! 1)) = Some (''s'', ''t2'')" "phase_at demo_twice 1 = Answered (Refreshed ''t3'')"
  by code_simp+

text \<open>
  C11. A refresh token is exchanged once. However the requests to the
  refresh route, logins and logouts interleave, two requests that both got a new
  token for a session presented tokens that differ in the part bcrypt
  reads; so a stolen copy and the original are never both honoured.
\<close>

theorem refresh_token_used_once:
  assumes "bcrypt_law hash compare" and "reachable refresh_init (refresh_step hash compare) st"
    and "refreshed_with st i sid raw" and "refreshed_with st j sid raw'" and "i \<noteq> j"
  shows "take 72 raw \<noteq> take 72 raw'"
  using refresh_route.inv_reachable [OF assms(2)] assms(1,3-5) unfolding refresh_inv_def single_use_def by blast

theorem refresh_token_used_once_witness:
  "demo_reachable demo_twice \<and> refreshed_with demo_twice 0 ''s'' ''t1'' \<and> refreshed_with demo_twice 1 ''s'' ''t2''
   \<and> take 72 ''t1'' \<noteq> take 72 ''t2''"
proof -
  have "refreshed_with demo_twice 0 ''s'' ''t1''" "refreshed_with demo_twice 1 ''s'' ''t2''"
    using demo_answers by (auto simp: refreshed_with_def)
  with refresh_token_used_once [OF demo_law demo_twice_reachable this] demo_twice_reachable show ?thesis by simp
qed

definition demo_logged_out :: refresh_state where
  "demo_logged_out = demo_twice\<lparr>rs_sessions := revokeSession 3 ''s'' (rs_sessions demo_twice)\<rparr>"

text \<open>
  Logging out is final. Once a session is revoked, no request to the
  refresh route gets a new token for it any more, not even one that had its
  token verified before the revocation.
\<close>

theorem revoked_session_never_refreshes:
  assumes "revoked sid st" and "(refresh_step hash compare)\<^sup>*\<^sup>* st st'" and "refreshed_with st' i sid raw"
  shows "refreshed_with st i sid raw \<and> revoked sid st'"
  using revoked_steps [OF assms(2,1)] assms(3) by blast

lemma demo_logout_facts:
  "revoked ''s'' demo_logged_out" "length (rs_requests demo_logged_out) = 2"
  "refresh_cookie (rf_cookie (rs_requests demo_logged_out ! 0)) = Some (''s'', ''t1'')"
  "phase_at demo_logged_out 0 = Answered (Refreshed ''t2'')"
  by code_simp+

theorem revoked_session_never_refreshes_witness:
  "revoked ''s'' demo_logged_out \<and> refreshed_with (refresh_arrive ''s:t3'' demo_logged_out) 0 ''s'' ''t1''
   \<and> refreshed_with demo_logged_out 0 ''s'' ''t1'' \<and> revoked ''s'' (refresh_arrive ''s:t3'' demo_logged_out)"
proof -
  have step: "(refresh_step demo_hash demo_compare)\<^sup>*\<^sup>* demo_logged_out (refresh_arrive ''s:t3'' demo_logged_out)"
    by (rule r_into_rtranclp, rule refresh_step.arrive)
  have "refreshed_with (refresh_arrive ''s:t3'' demo_logged_out) 0 ''s'' ''t1''"
    using demo_logout_facts by (simp add: refreshed_with_def refresh_arrive_def nth_append)
  with revoked_session_never_refreshes [OF demo_logout_facts(1) step this] demo_logout_facts(1) show ?thesis by blast
qed

definition demo_codes :: backup_state where
  "demo_codes =
     (let st0 = \<lparr>bs_rows = generate demo_hash 0 ''alice'' [(''r1'', [], ''AAAA''), (''r2'', [], ''BBBB'')] [], bs_requests = []\<rparr>;
          arrive = (\<lambda>st. st\<lparr>bs_requests := bs_requests st @ [\<lparr>br_user = ''alice'', br_code = ''BBBB'', br_phase = C_arrived\<rparr>]\<rparr>)
      in consume_write 2 ''r2'' 1 (consume_write 1 ''r2'' 0
           (consume_read demo_compare 1 (consume_read demo_compare 0 (arrive (arrive st0))))))"

text \<open>
  C32. A backup code is good for one login. However the requests interleave,
  with each other and with the generation of new codes, at most one request is
  ever answered with success for a stored code.
\<close>

theorem backup_code_used_once:
  assumes "reachable backup_init (backup_step hash compare) st" and "consumed_by st i rid" and "consumed_by st j rid"
  shows "i = j"
  using backup_route.inv_reachable [OF assms(1)] assms(2,3) unfolding backup_inv_def by blast

lemma demo_codes_reachable: "reachable backup_init (backup_step demo_hash demo_compare) demo_codes"
proof -
  let ?R = "reachable backup_init (backup_step demo_hash demo_compare)"
  let ?codes = "[(''r1'', [], ''AAAA''), (''r2'', [], ''BBBB'')]"
  let ?rq = "\<lparr>br_user = ''alice'', br_code = ''BBBB'', br_phase = C_arrived\<rparr>"
  have a: "?R \<lparr>bs_rows = [], bs_requests = []\<rparr>" by (rule reachable.start) (simp add: backup_init_def)
  define s0 where "s0 = \<lparr>bs_rows = [], bs_requests = []\<rparr>\<lparr>bs_rows := generate demo_hash 0 ''alice'' ?codes []\<rparr>"
  have b: "?R s0" unfolding s0_def
    by (rule reachable.next_state [OF a])
      (use backup_step.bc_generate [of ?codes "\<lparr>bs_rows = [], bs_requests = []\<rparr>"] in simp)
  define s1 where "s1 = s0\<lparr>bs_requests := bs_requests s0 @ [?rq]\<rparr>"
  have c: "?R s1" unfolding s1_def by (rule reachable.next_state [OF b], rule backup_step.bc_arrive)
  define s2 where "s2 = s1\<lparr>bs_requests := bs_requests s1 @ [?rq]\<rparr>"
  have d: "?R s2" unfolding s2_def by (rule reachable.next_state [OF c], rule backup_step.bc_arrive)
  define s3 where "s3 = consume_read demo_compare 0 s2"
  have e: "?R s3" unfolding s3_def
    by (rule reachable.next_state [OF d], rule backup_step.bc_read) (simp_all add: s2_def s1_def s0_def)
  define s4 where "s4 = consume_read demo_compare 1 s3"
  have p3: "length (bs_requests s3) = 2" "br_phase (bs_requests s3 ! 1) = C_arrived"
    unfolding s3_def s2_def s1_def s0_def by code_simp+
  have f: "?R s4" unfolding s4_def by (rule reachable.next_state [OF e], rule backup_step.bc_read) (use p3 in simp_all)
  define s5 where "s5 = consume_write 1 ''r2'' 0 s4"
  have p4: "length (bs_requests s4) = 2" "br_phase (bs_requests s4 ! 0) = C_matched ''r2''"
    unfolding s4_def s3_def s2_def s1_def s0_def by code_simp+
  have g: "?R s5" unfolding s5_def by (rule reachable.next_state [OF f], rule backup_step.bc_write) (simp_all add: p4)
  have p5: "length (bs_requests s5) = 2" "br_phase (bs_requests s5 ! 1) = C_matched ''r2''"
    unfolding s5_def s4_def s3_def s2_def s1_def s0_def by code_simp+
  have "?R (consume_write 2 ''r2'' 1 s5)"
    by (rule reachable.next_state [OF g], rule backup_step.bc_write) (use p5 in simp_all)
  moreover have "demo_codes = consume_write 2 ''r2'' 1 s5"
    by (simp add: demo_codes_def s5_def s4_def s3_def s2_def s1_def s0_def)
  ultimately show ?thesis by simp
qed

theorem backup_code_used_once_witness:
  "reachable backup_init (backup_step demo_hash demo_compare) demo_codes
   \<and> consumed_by demo_codes 0 ''r2'' \<and> \<not> consumed_by demo_codes 1 ''r2''"
proof -
  have c: "consumed_by demo_codes 0 ''r2''" by code_simp
  have "\<not> consumed_by demo_codes 1 ''r2''"
    using backup_code_used_once [OF demo_codes_reachable c, of 1] by auto
  with demo_codes_reachable c show ?thesis by blast
qed

end
