(* ===== verification/Totp.thy ===== *)
theory Totp
  imports Ploydok_Prelude "HOL-Library.Word"
begin

text \<open>
  One-time codes (\<^verbatim>\<open>auth/totp.ts\<close>): base32, the code of a time step and its
  verification. JavaScript's bit operations work on 32-bit integers, so the
  accumulators are \<open>32 word\<close>s that silently drop their high bits; bytes are
  \<open>8 word\<close>s. HMAC-SHA1 is a parameter.
\<close>

unbundle bit_operations_syntax

type_synonym bytes = "8 word list"

definition PERIOD_S :: int where "PERIOD_S = 30"
definition DIGITS :: nat where "DIGITS = 6"

section \<open>Base32\<close>

definition BASE32_ALPHABET :: string where
  "BASE32_ALPHABET = ''ABCDEFGHIJKLMNOPQRSTUVWXYZ234567''"

text \<open>
  The \<^verbatim>\<open>while (bits >= 5)\<close> loop: the groups of five bits above the remaining
  ones. The value itself is not cleared.
\<close>

function enc_groups :: "nat \<Rightarrow> 32 word \<Rightarrow> nat \<times> string" where
  "enc_groups bits val =
     (if bits \<ge> 5 then
        (let bits' = bits - 5; (rest, out) = enc_groups bits' val
         in (rest, BASE32_ALPHABET ! unat (drop_bit bits' val AND 0x1f) # out))
      else (bits, []))"
  by pat_completeness auto
termination by (relation "measure fst") auto

declare enc_groups.simps [simp del]

fun enc_loop :: "nat \<Rightarrow> 32 word \<Rightarrow> bytes \<Rightarrow> string" where
  "enc_loop bits val [] = (if bits > 0 then [BASE32_ALPHABET ! unat (push_bit (5 - bits) val AND 0x1f)] else [])"
| "enc_loop bits val (b # bs) =
     (let val' = push_bit 8 val OR ucast b; (bits', out) = enc_groups (bits + 8) val'
      in out @ enc_loop bits' val' bs)"

definition encodeBase32 :: "bytes \<Rightarrow> string" where
  "encodeBase32 buf = enc_loop 0 0 buf"

text \<open>
  \<^verbatim>\<open>toUpperCase\<close> on Latin-1; the sharp s becomes two letters. The two letters
  whose upper case lies outside Latin-1 stay, they are no base32 letters either way.
\<close>

definition upper_chars :: "char \<Rightarrow> string" where
  "upper_chars c = (let n = of_char c :: nat in
     if is_lower c \<or> (224 \<le> n \<and> n \<le> 254 \<and> n \<noteq> 247) then [char_of (n - 32)]
     else if n = 223 then ''SS'' else [c])"

definition index_of :: "string \<Rightarrow> char \<Rightarrow> nat option" where
  "index_of s c = (if c \<in> set s then Some (length (takeWhile (\<lambda>x. x \<noteq> c) s)) else None)"

fun dec_loop :: "nat \<Rightarrow> 32 word \<Rightarrow> string \<Rightarrow> char + bytes" where
  "dec_loop bits val [] = Inr []"
| "dec_loop bits val (c # cs) =
     (case index_of BASE32_ALPHABET c of
        None \<Rightarrow> Inl c
      | Some idx \<Rightarrow>
          let val' = push_bit 5 val OR of_nat idx; bits' = bits + 5 in
          if bits' \<ge> 8 then
            map_sum id (\<lambda>out. ucast (drop_bit (bits' - 8) val' AND 0xff) # out) (dec_loop (bits' - 8) val' cs)
          else dec_loop bits' val' cs)"

definition clean_base32 :: "string \<Rightarrow> string" where
  "clean_base32 s = filter (\<lambda>c. \<not> (is_space c \<or> c = CHR ''='')) (concat (map upper_chars s))"

definition decodeBase32 :: "string \<Rightarrow> char + bytes" where
  "decodeBase32 s = dec_loop 0 0 (clean_base32 s)"

section \<open>Codes\<close>

type_synonym hmac = "bytes \<Rightarrow> bytes \<Rightarrow> bytes"

text \<open>\<^verbatim>\<open>writeUInt32BE\<close>: four bytes, most significant first.\<close>

definition uint32_be :: "int \<Rightarrow> bytes" where
  "uint32_be n = map (\<lambda>k. word_of_int (n div 2 ^ k)) [24, 16, 8, 0]"

definition counter_bytes :: "int \<Rightarrow> bytes" where
  "counter_bytes counter = uint32_be (counter div 0x100000000) @ uint32_be (counter mod 0x100000000)"

definition truncate_hmac :: "bytes \<Rightarrow> 32 word" where
  "truncate_hmac h =
     (let offset = unat (h ! 19 AND 0x0f) in
      push_bit 24 (ucast (h ! offset AND 0x7f)) OR push_bit 16 (ucast (h ! (offset + 1)))
      OR push_bit 8 (ucast (h ! (offset + 2))) OR ucast (h ! (offset + 3)))"

definition pad_start :: "nat \<Rightarrow> string \<Rightarrow> string" where
  "pad_start n s = replicate (n - length s) CHR ''0'' @ s"

definition computeCode :: "hmac \<Rightarrow> string \<Rightarrow> int \<Rightarrow> char + string" where
  "computeCode hmac secret unixSeconds =
     (let counter = unixSeconds div PERIOD_S in
      case decodeBase32 secret of
        Inl c \<Rightarrow> Inl c
      | Inr keyBuf \<Rightarrow>
          let bin = truncate_hmac (hmac keyBuf (counter_bytes counter));
              code = unat bin mod 10 ^ DIGITS
          in Inr (pad_start DIGITS (nat_str code)))"

text \<open>
  The loop over the window. A secret that does not decode makes the call throw;
  that is \<open>None\<close>. \<open>Some None\<close> is the answer no, \<open>Some (Some step)\<close> the answer
  yes with the matched step.
\<close>

fun match_window :: "hmac \<Rightarrow> string \<Rightarrow> string \<Rightarrow> int \<Rightarrow> int list \<Rightarrow> int option option" where
  "match_window hmac secret incoming nowSec [] = Some None"
| "match_window hmac secret incoming nowSec (i # is) =
     (case computeCode hmac secret (nowSec + i * PERIOD_S) of
        Inl _ \<Rightarrow> None
      | Inr expected \<Rightarrow>
          if expected = incoming then Some (Some (nowSec div PERIOD_S + i))
          else match_window hmac secret incoming nowSec is)"

definition verifyCodeDetailed :: "hmac \<Rightarrow> string \<Rightarrow> string \<Rightarrow> int \<Rightarrow> int \<Rightarrow> int option option" where
  "verifyCodeDetailed hmac secret code nowSec window =
     (let normalised = filter (\<lambda>c. \<not> is_space c) (trim code) in
      if length normalised \<noteq> DIGITS \<or> \<not> list_all is_digit normalised then Some None
      else match_window hmac secret normalised nowSec [- window .. window])"

definition verifyCode :: "hmac \<Rightarrow> string \<Rightarrow> string \<Rightarrow> int \<Rightarrow> int \<Rightarrow> bool option" where
  "verifyCode hmac secret code nowSec window =
     map_option (\<lambda>r. r \<noteq> None) (verifyCodeDetailed hmac secret code nowSec window)"

section \<open>Numbers and digit strings\<close>

text \<open>
  Both base32 loops regroup the bits of a number. \<open>digits_val k ds\<close> is the
  number with the digits \<open>ds\<close> in base \<open>2 ^ k\<close>.
\<close>

definition digits_val :: "nat \<Rightarrow> nat list \<Rightarrow> nat" where
  "digits_val k ds = foldl (\<lambda>n d. n * 2 ^ k + d) 0 ds"

lemma digits_val_snoc [simp]: "digits_val k (ds @ [d]) = digits_val k ds * 2 ^ k + d"
  by (simp add: digits_val_def)

lemma digits_val_Nil [simp]: "digits_val k [] = 0"
  by (simp add: digits_val_def)

lemma digits_val_unique:
  assumes "length ds = length es" "\<forall>d\<in>set ds. d < 2 ^ k" "\<forall>e\<in>set es. e < 2 ^ k" "digits_val k ds = digits_val k es"
  shows "ds = es"
  using assms
proof (induction ds arbitrary: es rule: rev_induct)
  case (snoc d ds)
  then obtain e es' where es: "es = es' @ [e]" by (cases es rule: rev_cases) auto
  with snoc.prems have b: "d < 2 ^ k" "e < 2 ^ k" and v: "digits_val k ds * 2 ^ k + d = digits_val k es' * 2 ^ k + e" by auto
  have "d = e" using arg_cong [OF v, of "\<lambda>n. n mod 2 ^ k"] b by simp
  moreover have "digits_val k ds = digits_val k es'" using arg_cong [OF v, of "\<lambda>n. n div 2 ^ k"] b by simp
  ultimately show ?case using snoc es by simp
qed simp

text \<open>
  A regrouping reads digits of \<open>k\<close> bits and writes digits of \<open>l\<close> bits: what has
  been read is what has been written followed by the pending bits.
\<close>

definition regroups :: "nat \<Rightarrow> nat \<Rightarrow> nat list \<Rightarrow> nat list \<Rightarrow> nat \<Rightarrow> nat \<Rightarrow> bool" where
  "regroups k l ins outs bits a \<longleftrightarrow>
     digits_val k ins = digits_val l outs * 2 ^ bits + a \<and> a < 2 ^ bits \<and> (\<forall>d\<in>set outs. d < 2 ^ l)
     \<and> length outs * l + bits = length ins * k"

lemma regroups_Nil: "regroups k l [] [] 0 0"
  by (simp add: regroups_def)

lemma regroups_read:
  assumes "regroups k l ins outs bits a" "d < 2 ^ k"
  shows "regroups k l (ins @ [d]) outs (bits + k) (a * 2 ^ k + d)"
proof -
  have "a * 2 ^ k + d < 2 ^ (bits + k)"
  proof -
    have "Suc a * 2 ^ k \<le> 2 ^ bits * 2 ^ k" using assms(1) by (intro mult_le_mono1) (simp add: regroups_def Suc_leI)
    with assms(2) show ?thesis by (simp add: power_add)
  qed
  then show ?thesis using assms(1) by (auto simp: regroups_def algebra_simps power_add)
qed

lemma regroups_write:
  assumes "regroups k l ins outs (bits + l) a"
  shows "regroups k l ins (outs @ [a div 2 ^ bits]) bits (a mod 2 ^ bits)"
proof -
  have "a div 2 ^ bits < 2 ^ l" using assms by (simp add: regroups_def power_add less_mult_imp_div_less mult.commute)
  moreover have "digits_val l outs * 2 ^ (bits + l) + a = (digits_val l outs * 2 ^ l + a div 2 ^ bits) * 2 ^ bits + a mod 2 ^ bits"
    by (simp add: power_add algebra_simps)
  ultimately show ?thesis using assms by (auto simp: regroups_def algebra_simps)
qed

text \<open>The low bits of a 32-bit accumulator, which are all the code ever reads of it.\<close>

abbreviation low :: "nat \<Rightarrow> 32 word \<Rightarrow> nat" where
  "low bits val \<equiv> unat val mod 2 ^ bits"

lemma or_add_nat:
  fixes a d :: nat
  assumes "d < 2 ^ k"
  shows "push_bit k a OR d = push_bit k a + d"
proof -
  have t: "take_bit k d = d" using assms by (simp add: take_bit_nat_eq_self)
  have "push_bit k a AND d = 0"
    by (rule bit_eqI) (metis bit_0_eq bit_and_iff bit_push_bit_iff bit_take_bit_iff bot_apply bot_bool_def not_less t)
  then show ?thesis by (simp add: disjunctive_add_eq_or)
qed

lemma low_push:
  assumes "bits + k \<le> 32" "unat d < 2 ^ k"
  shows "low (bits + k) (push_bit k val OR d) = low bits val * 2 ^ k + unat d"
proof -
  let ?V = "unat val"
  have d: "take_bit (bits + k) (unat d) = unat d"
    using assms(2) by (intro take_bit_nat_eq_self) (meson le_add2 less_le_trans one_le_numeral power_increasing)
  have "take_bit (bits + k) (unat (push_bit k val OR d)) = push_bit k (take_bit bits ?V) OR unat d"
    using assms(1) by (simp add: unsigned_or_eq unsigned_push_bit_eq take_bit_or d take_bit_push_bit min_absorb1)
  also have "\<dots> = push_bit k (take_bit bits ?V) + unat d" by (rule or_add_nat [OF assms(2)])
  finally show ?thesis by (simp add: take_bit_nat_def push_bit_nat_def)
qed

lemma low_drop:
  assumes "bits + k \<le> 32"
  shows "unat (drop_bit bits val AND mask k) = low (bits + k) val div 2 ^ bits"
proof -
  have "take_bit 32 (unat val) = unat val" by (rule take_bit_nat_eq_self) (use unsigned_less [of val] in simp)
  then have "unat (take_bit k (drop_bit bits val)) = take_bit k (drop_bit bits (unat val))"
    by (simp add: unsigned_take_bit_eq unsigned_drop_bit_eq)
  also have "\<dots> = drop_bit bits (take_bit (bits + k) (unat val))" by (simp add: drop_bit_take_bit)
  finally show ?thesis by (simp only: take_bit_eq_mask [symmetric] take_bit_nat_def drop_bit_nat_def)
qed

lemma low_top:
  assumes "bits \<le> k" "k \<le> 32"
  shows "unat (push_bit (k - bits) val AND mask k) = low bits val * 2 ^ (k - bits)"
proof -
  have "unat (take_bit k (push_bit (k - bits) val)) = take_bit k (push_bit (k - bits) (unat val))"
    using assms by (simp add: unsigned_take_bit_eq unsigned_push_bit_eq min_absorb1)
  also have "\<dots> = push_bit (k - bits) (take_bit bits (unat val))" using assms by (simp add: take_bit_push_bit)
  finally show ?thesis by (simp only: take_bit_eq_mask [symmetric] take_bit_nat_def push_bit_nat_def)
qed

section \<open>The base32 loops as regroupings\<close>

abbreviation letters :: "nat list \<Rightarrow> string" where
  "letters ds \<equiv> map (\<lambda>d. BASE32_ALPHABET ! d) ds"

lemma masks: "(0x1f :: 32 word) = mask 5" "(0xff :: 32 word) = mask 8"
  by (simp_all add: mask_eq_exp_minus_1)

lemma enc_groups_spec:
  assumes "regroups 8 5 ins outs bits (low bits val)" "bits \<le> 32"
  shows "\<exists>r more. enc_groups bits val = (r, letters more) \<and> r < 5 \<and> regroups 8 5 ins (outs @ more) r (low r val)"
  using assms
proof (induction bits val arbitrary: outs rule: enc_groups.induct)
  case (1 bits val)
  show ?case
  proof (cases "bits \<ge> 5")
    case True
    let ?b = "bits - 5" and ?d = "low bits val div 2 ^ (bits - 5)"
    have d: "unat (drop_bit ?b val AND 0x1f) = ?d" using low_drop [of ?b 5 val] True "1.prems"(2) by (simp add: masks)
    have "low bits val mod 2 ^ ?b = low ?b val" using True by (simp add: mod_mod_cancel le_imp_power_dvd)
    then have "regroups 8 5 ins (outs @ [?d]) ?b (low ?b val)"
      using regroups_write [of 8 5 ins outs ?b "low bits val"] "1.prems"(1) True by simp
    moreover have "?b \<le> 32" using "1.prems"(2) by simp
    ultimately obtain r more where
      r: "enc_groups ?b val = (r, letters more)" "r < 5" "regroups 8 5 ins ((outs @ [?d]) @ more) r (low r val)"
      using "1.IH" [OF True refl, of "outs @ [?d]"] by blast
    have "enc_groups bits val = (r, letters (?d # more))" by (subst enc_groups.simps) (simp add: True r(1) d)
    with r(2,3) show ?thesis by (intro exI [of _ r] exI [of _ "?d # more"]) simp
  next
    case False
    with "1.prems" show ?thesis by (subst enc_groups.simps) auto
  qed
qed

lemma enc_loop_spec:
  assumes "regroups 8 5 ins outs bits (low bits val)" "bits < 5"
  shows "\<exists>ds pad. enc_loop bits val bs = letters ds \<and> pad < 5 \<and> (\<forall>d\<in>set (outs @ ds). d < 32)
    \<and> digits_val 5 (outs @ ds) = digits_val 8 (ins @ map unat bs) * 2 ^ pad
    \<and> length (outs @ ds) * 5 = length (ins @ map unat bs) * 8 + pad"
  using assms
proof (induction bs arbitrary: ins outs bits val)
  case Nil
  show ?case
  proof (cases "bits = 0")
    case True
    with Nil show ?thesis by (intro exI [of _ "[]"] exI [of _ 0]) (auto simp: regroups_def)
  next
    case False
    let ?d = "low bits val * 2 ^ (5 - bits)"
    have "?d < 2 ^ bits * 2 ^ (5 - bits)" by (intro mult_strict_right_mono) simp_all
    also have "\<dots> = 2 ^ 5" using Nil.prems(2) by (simp flip: power_add)
    finally have d: "?d < 32" by simp
    have "digits_val 5 (outs @ [?d]) = digits_val 8 ins * 2 ^ (5 - bits)"
    proof -
      have "(2 :: nat) ^ 5 = 2 ^ bits * 2 ^ (5 - bits)" using Nil.prems(2) by (simp flip: power_add)
      then show ?thesis using Nil.prems(1) by (simp add: regroups_def algebra_simps)
    qed
    then show ?thesis
      using Nil d low_top [of bits 5 val] False
      by (intro exI [of _ "[?d]"] exI [of _ "5 - bits"]) (auto simp: regroups_def masks)
  qed
next
  case (Cons b bs)
  let ?v = "push_bit 8 val OR ucast b :: 32 word"
  have b8: "unat b < 2 ^ 8" using unsigned_less [of b] by simp
  then have b: "unat (ucast b :: 32 word) = unat b" by (simp add: unsigned_ucast_eq take_bit_nat_eq_self)
  from b8 have "regroups 8 5 (ins @ [unat b]) outs (bits + 8) (low (bits + 8) ?v)"
    using regroups_read [OF Cons.prems(1), of "unat b"] low_push [of bits 8 "ucast b" val] Cons.prems(2) by (simp add: b)
  from enc_groups_spec [OF this] Cons.prems(2) obtain r more where
    r: "enc_groups (bits + 8) ?v = (r, letters more)" "r < 5"
      "regroups 8 5 (ins @ [unat b]) (outs @ more) r (low r ?v)" by auto
  from Cons.IH [OF r(3,2)] obtain ds pad where
    ds: "enc_loop r ?v bs = letters ds" "pad < 5" "\<forall>d\<in>set ((outs @ more) @ ds). d < 32"
      "digits_val 5 ((outs @ more) @ ds) = digits_val 8 ((ins @ [unat b]) @ map unat bs) * 2 ^ pad"
      "length ((outs @ more) @ ds) * 5 = length ((ins @ [unat b]) @ map unat bs) * 8 + pad" by blast
  show ?case
    by (rule exI [of _ "more @ ds"], rule exI [of _ pad]) (use ds r(1) in \<open>simp add: Let_def\<close>)
qed

lemma alphabet_index: "d < 32 \<Longrightarrow> index_of BASE32_ALPHABET (BASE32_ALPHABET ! d) = Some d"
proof -
  have "list_all (\<lambda>d. index_of BASE32_ALPHABET (BASE32_ALPHABET ! d) = Some d) [0..<32]" by code_simp
  then show "d < 32 \<Longrightarrow> ?thesis" by (simp add: list_all_iff)
qed

lemma dec_loop_spec:
  assumes "regroups 5 8 ins outs bits (low bits val)" "bits < 8" "\<forall>d\<in>set ds. d < 32"
  shows "\<exists>more r a. dec_loop bits val (letters ds) = Inr more \<and> r < 8
    \<and> regroups 5 8 (ins @ ds) (outs @ map unat more) r a"
  using assms
proof (induction ds arbitrary: ins outs bits val)
  case Nil
  then show ?case by (intro exI [of _ "[]"] exI [of _ bits] exI [of _ "low bits val"]) auto
next
  case (Cons d ds)
  let ?v = "push_bit 5 val OR of_nat d :: 32 word" and ?b = "bits + 5 - 8"
  have d: "d < 32" "unat (of_nat d :: 32 word) = d" using Cons.prems(3) by (simp_all add: unat_of_nat)
  have read: "regroups 5 8 (ins @ [d]) outs (bits + 5) (low (bits + 5) ?v)"
    using regroups_read [OF Cons.prems(1), of d] low_push [of bits 5 "of_nat d" val] Cons.prems(2) d by simp
  show ?case
  proof (cases "bits + 5 \<ge> 8")
    case True
    let ?o = "low (bits + 5) ?v div 2 ^ ?b" and ?w = "ucast (drop_bit ?b ?v AND 0xff) :: 8 word"
    have "low (bits + 5) ?v mod 2 ^ ?b = low ?b ?v" by (simp add: mod_mod_cancel le_imp_power_dvd)
    then have step: "regroups 5 8 (ins @ [d]) (outs @ [?o]) ?b (low ?b ?v)"
      using regroups_write [of 5 8 "ins @ [d]" outs ?b "low (bits + 5) ?v"] read True by (simp add: add.commute)
    have "?b + 8 = bits + 5" "?b + 8 \<le> 32" using True Cons.prems(2) by simp_all
    then have "unat (drop_bit ?b ?v AND 0xff) = ?o" unfolding masks(2) using low_drop [of ?b 8 ?v] by metis
    moreover have "?o < 2 ^ 8" using step by (simp add: regroups_def)
    ultimately have w: "unat ?w = ?o" by (simp add: unsigned_ucast_eq take_bit_nat_eq_self)
    from Cons.IH [OF step] Cons.prems(2,3) obtain more r a where
      "dec_loop ?b ?v (letters ds) = Inr more" "r < 8" "regroups 5 8 ((ins @ [d]) @ ds) ((outs @ [?o]) @ map unat more) r a"
      by force
    with True w show ?thesis
      by (intro exI [of _ "?w # more"] exI [of _ r] exI [of _ a]) (simp add: alphabet_index [OF d(1)] Let_def)
  next
    case False
    from Cons.IH [OF read] False Cons.prems(3) obtain more r a where
      "dec_loop (bits + 5) ?v (letters ds) = Inr more" "r < 8" "regroups 5 8 ((ins @ [d]) @ ds) (outs @ map unat more) r a"
      by force
    with False show ?thesis
      by (intro exI [of _ more] exI [of _ r] exI [of _ a]) (simp add: alphabet_index [OF d(1)] Let_def)
  qed
qed

lemma clean_letters: "\<forall>d\<in>set ds. d < 32 \<Longrightarrow> clean_base32 (letters ds) = letters ds"
proof -
  have "list_all (\<lambda>d. upper_chars (BASE32_ALPHABET ! d) = [BASE32_ALPHABET ! d] \<and> \<not> is_space (BASE32_ALPHABET ! d)
      \<and> BASE32_ALPHABET ! d \<noteq> CHR ''='') [0..<32]" by code_simp
  then have a: "upper_chars (BASE32_ALPHABET ! d) = [BASE32_ALPHABET ! d]" "\<not> is_space (BASE32_ALPHABET ! d)"
    "BASE32_ALPHABET ! d \<noteq> CHR ''=''" if "d < 32" for d using that by (simp_all add: list_all_iff)
  show "\<forall>d\<in>set ds. d < 32 \<Longrightarrow> ?thesis" by (induction ds) (simp_all add: clean_base32_def a)
qed

section \<open>Codes and the window\<close>

lemma nat_str_length: "n < 10 ^ k \<Longrightarrow> 0 < k \<Longrightarrow> length (nat_str n) \<le> k"
proof (induction n arbitrary: k rule: nat_str.induct)
  case (1 n)
  show ?case
  proof (cases "n < 10")
    case True
    with "1.prems" show ?thesis by (subst nat_str.simps) simp
  next
    case False
    then obtain k' where k: "k = Suc k'" "0 < k'"
      using "1.prems" by (cases k; cases "k - 1") (auto simp: not_less)
    have "n div 10 < 10 ^ k'" using "1.prems"(1) k(1) by (simp add: less_mult_imp_div_less)
    from "1.IH" [OF False this k(2)] False k(1) show ?thesis by (subst nat_str.simps) simp
  qed
qed

lemma pad_start_length: "length s \<le> n \<Longrightarrow> length (pad_start n s) = n"
  by (simp add: pad_start_def)

lemma computeCode_length: "computeCode hmac secret t = Inr code \<Longrightarrow> length code = 6"
  by (auto simp: computeCode_def Let_def DIGITS_def intro!: pad_start_length nat_str_length split: sum.splits)

lemma computeCode_step: "computeCode hmac secret (t + i * PERIOD_S) = computeCode hmac secret ((t div PERIOD_S + i) * PERIOD_S)"
  by (simp add: computeCode_def PERIOD_S_def Let_def add.commute)

lemma match_window_Some:
  "match_window hmac secret incoming t is = Some (Some step) \<Longrightarrow>
     \<exists>i\<in>set is. step = t div PERIOD_S + i \<and> computeCode hmac secret (step * PERIOD_S) = Inr incoming"
proof (induction "is")
  case (Cons i "is")
  then show ?case
    by (auto simp: computeCode_step [of hmac secret t i] split: sum.splits if_splits)
qed simp

lemma verify_in_window:
  assumes "verifyCodeDetailed hmac secret code t w = Some (Some step)"
  shows "\<bar>step - t div PERIOD_S\<bar> \<le> w"
    and "computeCode hmac secret (step * PERIOD_S) = Inr (filter (\<lambda>c. \<not> is_space c) (trim code))"
  using match_window_Some [of hmac secret "filter (\<lambda>c. \<not> is_space c) (trim code)" t "[- w .. w]" step] assms
  by (auto simp: verifyCodeDetailed_def Let_def split: if_splits)

section \<open>Properties\<close>

text \<open>
  C36. A secret survives its base32 form: decoding what was encoded gives the
  bytes back, for every number of bytes, although the accumulators of both
  loops wrap at 32 bits.
\<close>

theorem base32_roundtrip: "decodeBase32 (encodeBase32 buf) = Inr buf"
proof -
  have "regroups 8 5 [] [] 0 (low 0 0)" by (simp add: regroups_Nil)
  from enc_loop_spec [OF this, of buf] obtain ds pad where
    enc: "encodeBase32 buf = letters ds" and pad: "pad < 5" and d32: "\<forall>d\<in>set ds. d < 32"
    and v: "digits_val 5 ds = digits_val 8 (map unat buf) * 2 ^ pad" and l: "length ds * 5 = length buf * 8 + pad"
    by (auto simp: encodeBase32_def)
  have "regroups 5 8 [] [] 0 (low 0 0)" by (simp add: regroups_Nil)
  from dec_loop_spec [OF this _ d32] obtain out r a where
    dec: "dec_loop 0 0 (letters ds) = Inr out" and r: "r < 8" and g: "regroups 5 8 ds (map unat out) r a" by auto
  have n: "length out * 8 + r = length buf * 8 + pad" using g l by (simp add: regroups_def)
  then have len: "length out = length buf" and rp: "r = pad" using r pad by presburger+
  have "digits_val 8 (map unat buf) * 2 ^ pad = digits_val 8 (map unat out) * 2 ^ pad + a" "a < 2 ^ pad"
    using g v rp by (simp_all add: regroups_def)
  then have "digits_val 8 (map unat buf) = digits_val 8 (map unat out)"
    by (metis add.right_neutral div_less div_mult_self3 less_nat_zero_code nonzero_mult_div_cancel_right power_not_zero zero_neq_numeral)
  moreover have "\<forall>d\<in>set (map unat (bs :: bytes)). d < 2 ^ 8" for bs using unsigned_less [where 'b = 8] by auto
  ultimately have "map unat buf = map unat out" by (intro digits_val_unique [of _ _ 8]) (simp_all add: len)
  then have "out = buf" by (simp add: inj_map_eq_map inj_def word_unat_eq_iff)
  with enc dec clean_letters [OF d32] show ?thesis by (simp add: decodeBase32_def)
qed

end
