(* ===== verification/Second_Factor.thy ===== *)
theory Second_Factor
  imports Totp
begin

text \<open>
  The check of a fresh second factor in front of sensitive routes
  (\<^verbatim>\<open>auth/second-factor.ts\<close>), the limit on wrong codes
  (\<^verbatim>\<open>auth/totp-throttle.ts\<close>), the stored secret (\<^verbatim>\<open>auth/totp-storage.ts\<close>) and the
  enrolment routes of \<^verbatim>\<open>routes/auth.ts\<close>.

  A request reads the clock twice: when it compares the code, and when it writes
  its row. The transaction of \<^verbatim>\<open>consumeTotpStep\<close> holds an advisory lock on the
  user and the step, so two requests that look for the same step run it one
  after the other; it is one step here. The payload of a correctly signed cookie
  is part of the request. Secrets are encrypted at rest; the table holds
  them in the clear here. The metadata of an audit row is the value its JSON
  text denotes.
\<close>

section \<open>State\<close>

datatype audit_meta = Meta_totp_step int | Meta_source string | Meta_other string

record audit_row =
  lg_user :: ident
  lg_action :: string
  lg_target_type :: string
  lg_target_id :: ident
  lg_meta :: audit_meta
  lg_created_at :: instant

record failure_bucket =
  fb_count :: nat
  fb_resetAt :: instant

record totp_row =
  tr_user :: ident
  tr_secret :: string
  tr_verified_at :: "instant option"

record sf_state =
  sf_audit :: "audit_row table"
  sf_failures :: "ident \<Rightarrow> failure_bucket option"
  sf_totp :: "totp_row table"

section \<open>Wrong codes\<close>

definition WINDOW_MS :: int where "WINDOW_MS = 15 * 60 * 1000"
definition MAX_FAILURES :: nat where "MAX_FAILURES = 5"

record throttle_result =
  th_locked :: bool
  th_retryAfterSec :: int

definition ceil_div :: "int \<Rightarrow> int \<Rightarrow> int" where
  "ceil_div n d = - (- n div d)"

definition recordTotpFailure ::
    "ident \<Rightarrow> instant \<Rightarrow> (ident \<Rightarrow> failure_bucket option) \<Rightarrow> throttle_result \<times> (ident \<Rightarrow> failure_bucket option)" where
  "recordTotpFailure userId nowMs failures =
     (let fresh = \<lparr>fb_count = 0, fb_resetAt = nowMs + WINDOW_MS\<rparr>;
          bucket = (case failures userId of
                      Some current \<Rightarrow> if fb_resetAt current > nowMs then current else fresh
                    | None \<Rightarrow> fresh);
          retry = ceil_div (fb_resetAt bucket - nowMs) 1000
      in if fb_count bucket \<ge> MAX_FAILURES then (\<lparr>th_locked = True, th_retryAfterSec = retry\<rparr>, failures)
         else (\<lparr>th_locked = False, th_retryAfterSec = retry\<rparr>,
               failures(userId \<mapsto> bucket\<lparr>fb_count := fb_count bucket + 1\<rparr>)))"

definition resetTotpFailures :: "ident \<Rightarrow> (ident \<Rightarrow> failure_bucket option) \<Rightarrow> ident \<Rightarrow> failure_bucket option" where
  "resetTotpFailures userId failures = failures(userId := None)"

section \<open>The stored secret\<close>

definition saveTotpSecret :: "ident \<Rightarrow> string \<Rightarrow> sf_state \<Rightarrow> sf_state" where
  "saveTotpSecret userId secret st =
     (case select_first (\<lambda>r. tr_user r = userId) (sf_totp st) of
        None \<Rightarrow> st\<lparr>sf_totp := sf_totp st @ [\<lparr>tr_user = userId, tr_secret = secret, tr_verified_at = None\<rparr>]\<rparr>
      | Some _ \<Rightarrow> st\<lparr>sf_totp := update_where (\<lambda>r. tr_user r = userId)
                               (\<lambda>r. r\<lparr>tr_secret := secret, tr_verified_at := None\<rparr>) (sf_totp st)\<rparr>)"

definition getTotpSecret :: "sf_state \<Rightarrow> ident \<Rightarrow> totp_row option" where
  "getTotpSecret st userId = select_first (\<lambda>r. tr_user r = userId) (sf_totp st)"

definition markTotpVerified :: "instant \<Rightarrow> ident \<Rightarrow> sf_state \<Rightarrow> sf_state" where
  "markTotpVerified now userId st =
     st\<lparr>sf_totp := update_where (\<lambda>r. tr_user r = userId) (\<lambda>r. r\<lparr>tr_verified_at := Some now\<rparr>) (sf_totp st)\<rparr>"

definition deleteTotpSecret :: "ident \<Rightarrow> sf_state \<Rightarrow> sf_state" where
  "deleteTotpSecret userId st = st\<lparr>sf_totp := delete_where (\<lambda>r. tr_user r = userId) (sf_totp st)\<rparr>"

section \<open>Consuming a step\<close>

definition TTL_MS :: int where "TTL_MS = 15 * 60 * 1000"

definition verified_by :: "ident \<Rightarrow> audit_row \<Rightarrow> bool" where
  "verified_by userId r \<longleftrightarrow>
     lg_user r = userId \<and> lg_action r = ''2fa.verified'' \<and> lg_target_type r = ''user'' \<and> lg_target_id r = userId"

definition recent_rows :: "ident \<Rightarrow> audit_row table \<Rightarrow> audit_row list" where
  "recent_rows userId t = take 8 (order_desc lg_created_at (select_where (verified_by userId) t))"

definition verified_row :: "ident \<Rightarrow> int \<Rightarrow> instant \<Rightarrow> audit_row" where
  "verified_row userId step now =
     \<lparr>lg_user = userId, lg_action = ''2fa.verified'', lg_target_type = ''user'', lg_target_id = userId,
      lg_meta = Meta_totp_step step, lg_created_at = now\<rparr>"

definition consumeTotpStep :: "ident \<Rightarrow> int \<Rightarrow> instant \<Rightarrow> sf_state \<Rightarrow> bool \<times> sf_state" where
  "consumeTotpStep userId step now st =
     (if list_ex (\<lambda>r. lg_meta r = Meta_totp_step step) (recent_rows userId (sf_audit st)) then (False, st)
      else (True, st\<lparr>sf_audit := sf_audit st @ [verified_row userId step now]\<rparr>))"

definition logTotpLocked :: "ident \<Rightarrow> string \<Rightarrow> instant \<Rightarrow> sf_state \<Rightarrow> sf_state" where
  "logTotpLocked userId source now st =
     st\<lparr>sf_audit := sf_audit st @
        [\<lparr>lg_user = userId, lg_action = ''totp.locked'', lg_target_type = ''user'', lg_target_id = userId,
          lg_meta = Meta_source source, lg_created_at = now\<rparr>]\<rparr>"

definition recordTotpVerificationFailure :: "ident \<Rightarrow> string \<Rightarrow> instant \<Rightarrow> sf_state \<Rightarrow> int option \<times> sf_state" where
  "recordTotpVerificationFailure userId source now st =
     (let (result, failures') = recordTotpFailure userId now (sf_failures st);
          st' = st\<lparr>sf_failures := failures'\<rparr>
      in if \<not> th_locked result then (None, st')
         else (Some (th_retryAfterSec result), logTotpLocked userId source now st'))"

definition clearTotpVerificationFailures :: "ident \<Rightarrow> sf_state \<Rightarrow> sf_state" where
  "clearTotpVerificationFailures userId st = st\<lparr>sf_failures := resetTotpFailures userId (sf_failures st)\<rparr>"

section \<open>The middleware\<close>

record sf_request =
  rq_user :: "ident option"
  rq_cookie :: "(ident \<times> instant) option"
  rq_code :: string
  rq_checked_at :: instant
  rq_done_at :: instant
  rq_store_ok :: bool

text \<open>
  A pass by code carries the consumed step. The code is the header
  \<^verbatim>\<open>X-TOTP-Code\<close>, empty when absent.
\<close>

datatype sf_response =
    Pass_cookie
  | Pass_code int
  | Unauthenticated_401
  | Replayed_403
  | Unavailable_503
  | Locked_429 int
  | Totp_required_403
  | Internal_500

definition fresh_cookie :: "ident \<Rightarrow> sf_request \<Rightarrow> bool" where
  "fresh_cookie user rq = (case rq_cookie rq of
      None \<Rightarrow> False
    | Some (user_id, verified_at) \<Rightarrow> user_id = user \<and> rq_checked_at rq - verified_at \<le> TTL_MS)"

definition reject_code :: "ident \<Rightarrow> sf_request \<Rightarrow> sf_state \<Rightarrow> sf_response \<times> sf_state" where
  "reject_code user rq st =
     (case recordTotpVerificationFailure user ''middleware'' (rq_done_at rq) st of
        (Some retryAfterSec, st') \<Rightarrow> (Locked_429 retryAfterSec, st')
      | (None, st') \<Rightarrow> (Totp_required_403, st'))"

definition accept_code :: "ident \<Rightarrow> int \<Rightarrow> sf_request \<Rightarrow> sf_state \<Rightarrow> sf_response \<times> sf_state" where
  "accept_code user step rq st =
     (if \<not> rq_store_ok rq then (Unavailable_503, st)
      else case consumeTotpStep user step (rq_done_at rq) st of
             (False, st') \<Rightarrow> (Replayed_403, st')
           | (True, st') \<Rightarrow> (Pass_code step, clearTotpVerificationFailures user st'))"

definition requireTotpVerified :: "hmac \<Rightarrow> sf_request \<Rightarrow> sf_state \<Rightarrow> sf_response \<times> sf_state" where
  "requireTotpVerified hmac rq st =
     (case rq_user rq of
        None \<Rightarrow> (Unauthenticated_401, st)
      | Some user \<Rightarrow>
          if fresh_cookie user rq then (Pass_cookie, st)
          else if rq_code rq = [] then (Totp_required_403, st)
          else case getTotpSecret st user of
                 None \<Rightarrow> reject_code user rq st
               | Some totpRow \<Rightarrow>
                   if tr_verified_at totpRow = None then reject_code user rq st
                   else case verifyCodeDetailed hmac (tr_secret totpRow) (rq_code rq) (rq_checked_at rq div 1000) 1 of
                          None \<Rightarrow> (Internal_500, st)
                        | Some None \<Rightarrow> reject_code user rq st
                        | Some (Some step) \<Rightarrow> accept_code user step rq st)"

section \<open>Enrolment\<close>

datatype enrol_response =
    Enrol_secret string
  | Enrol_ok
  | Enrol_already_409
  | Enrol_not_enrolled_404
  | Enrol_locked_429 int
  | Enrol_invalid_400
  | Enrol_internal_500

definition enroll :: "ident \<Rightarrow> string \<Rightarrow> sf_state \<Rightarrow> enrol_response \<times> sf_state" where
  "enroll user secret st =
     (case getTotpSecret st user of
        Some existing \<Rightarrow>
          if tr_verified_at existing \<noteq> None then (Enrol_already_409, st)
          else (Enrol_secret secret, saveTotpSecret user secret st)
      | None \<Rightarrow> (Enrol_secret secret, saveTotpSecret user secret st))"

definition verify_enrolment :: "hmac \<Rightarrow> ident \<Rightarrow> string \<Rightarrow> instant \<Rightarrow> sf_state \<Rightarrow> enrol_response \<times> sf_state" where
  "verify_enrolment hmac user code now st =
     (case getTotpSecret st user of
        None \<Rightarrow> (Enrol_not_enrolled_404, st)
      | Some totpRow \<Rightarrow>
          if tr_verified_at totpRow \<noteq> None then (Enrol_already_409, st)
          else case verifyCode hmac (tr_secret totpRow) code (now div 1000) 1 of
                 None \<Rightarrow> (Enrol_internal_500, st)
               | Some False \<Rightarrow>
                   (case recordTotpVerificationFailure user ''enrollment'' now st of
                      (Some retryAfterSec, st') \<Rightarrow> (Enrol_locked_429 retryAfterSec, st')
                    | (None, st') \<Rightarrow> (Enrol_invalid_400, st'))
               | Some True \<Rightarrow> (Enrol_ok, clearTotpVerificationFailures user (markTotpVerified now user st)))"

section \<open>Runs\<close>

datatype sf_event =
    Ev_request sf_request
  | Ev_enroll ident string
  | Ev_verify ident string instant
  | Ev_delete ident

text \<open>The pairs of user and step that requests pass with, in order.\<close>

fun sf_run :: "hmac \<Rightarrow> sf_event list \<Rightarrow> sf_state \<Rightarrow> (ident option \<times> int) list" where
  "sf_run hmac [] st = []"
| "sf_run hmac (Ev_request rq # es) st =
     (case requireTotpVerified hmac rq st of
        (Pass_code step, st') \<Rightarrow> (rq_user rq, step) # sf_run hmac es st'
      | (_, st') \<Rightarrow> sf_run hmac es st')"
| "sf_run hmac (Ev_enroll user secret # es) st = sf_run hmac es (snd (enroll user secret st))"
| "sf_run hmac (Ev_verify user code now # es) st = sf_run hmac es (snd (verify_enrolment hmac user code now st))"
| "sf_run hmac (Ev_delete user # es) st = sf_run hmac es (deleteTotpSecret user st)"

text \<open>
  The clock does not go back from one row to the next, and a request writes
  its row less than thirty seconds after it compared the code.
\<close>

fun timely :: "instant \<Rightarrow> sf_event list \<Rightarrow> bool" where
  "timely T [] \<longleftrightarrow> True"
| "timely T (Ev_request rq # es) \<longleftrightarrow>
     T \<le> rq_done_at rq \<and> rq_checked_at rq \<le> rq_done_at rq \<and> rq_done_at rq < rq_checked_at rq + 30000
     \<and> timely (rq_done_at rq) es"
| "timely T (_ # es) \<longleftrightarrow> timely T es"

section \<open>The rows of accepted steps\<close>

abbreviation accepted_rows :: "ident \<Rightarrow> sf_state \<Rightarrow> audit_row list" where
  "accepted_rows u st \<equiv> select_where (verified_by u) (sf_audit st)"

definition in_time :: "instant \<Rightarrow> audit_row \<Rightarrow> bool" where
  "in_time T r \<longleftrightarrow> (\<exists>s. lg_meta r = Meta_totp_step s \<and> lg_created_at r \<le> T
     \<and> lg_created_at r div 30000 - 2 \<le> s \<and> s \<le> lg_created_at r div 30000 + 1)"

definition sf_inv :: "instant \<Rightarrow> sf_state \<Rightarrow> bool" where
  "sf_inv T st \<longleftrightarrow> (\<forall>u. distinct (map lg_meta (accepted_rows u st)) \<and> (\<forall>r\<in>set (accepted_rows u st). in_time T r))"

lemma sf_inv_later: "sf_inv T st \<Longrightarrow> T \<le> T' \<Longrightarrow> sf_inv T' st"
  by (fastforce simp: sf_inv_def in_time_def)

lemma sf_inv_same_rows: "sf_inv T st \<Longrightarrow> (\<And>u. accepted_rows u st' = accepted_rows u st) \<Longrightarrow> sf_inv T st'"
  unfolding sf_inv_def by metis

text \<open>
  At most six other steps can have been accepted since a step was: seven
  steps in all, fewer than the eight rows the query reads.
\<close>

lemma accepted_step_is_recent:
  assumes inv: "sf_inv T st" and r: "r \<in> set (accepted_rows u st)" and s: "lg_meta r = Meta_totp_step s"
    and T: "T \<le> now" and late: "now div 30000 - 2 \<le> s"
  shows "r \<in> set (recent_rows u (sf_audit st))"
proof -
  let ?rows = "accepted_rows u st"
  let ?xs = "order_desc lg_created_at ?rows"
  have dist: "distinct (map lg_meta ?rows)" and times: "\<forall>x\<in>set ?rows. in_time T x"
    using inv by (auto simp: sf_inv_def)
  from r obtain us vs where xs: "?xs = us @ r # vs" by (metis order_desc_set split_list)
  have sub: "set us \<subseteq> set ?rows" by (metis Un_upper1 order_desc_set set_append xs)
  have dm: "distinct (map lg_meta (us @ r # vs))"
    using dist unfolding xs [symmetric] by (simp add: distinct_map order_desc_def)
  have "sorted (map (\<lambda>r. - lg_created_at r) (us @ r # vs))"
    unfolding xs [symmetric] by (simp add: order_desc_def)
  then have newer: "x \<in> set us \<Longrightarrow> lg_created_at r \<le> lg_created_at x" for x
    by (auto simp: sorted_append)
  have "lg_meta x \<in> Meta_totp_step ` ({s - 3 .. s + 3} - {s})" if x: "x \<in> set us" for x
  proof -
    from times x sub obtain q where q: "lg_meta x = Meta_totp_step q" "lg_created_at x \<le> T"
      "lg_created_at x div 30000 - 2 \<le> q" "q \<le> lg_created_at x div 30000 + 1" by (auto simp: in_time_def)
    from times r have "in_time T r" by blast
    with s have "s \<le> lg_created_at r div 30000 + 1" by (auto simp: in_time_def)
    moreover have "lg_created_at r div 30000 \<le> lg_created_at x div 30000"
      using newer [OF x] by (simp add: zdiv_mono1)
    moreover have "lg_created_at x div 30000 \<le> now div 30000" using q(2) T by (simp add: zdiv_mono1)
    moreover have "q \<noteq> s" using dm x q(1) s by force
    ultimately show ?thesis using q late by auto
  qed
  then have "lg_meta ` set us \<subseteq> Meta_totp_step ` ({s - 3 .. s + 3} - {s})" by blast
  then have "card (lg_meta ` set us) \<le> card (Meta_totp_step ` ({s - 3 .. s + 3} - {s}))"
    by (intro card_mono) auto
  also have "\<dots> \<le> card ({s - 3 .. s + 3} - {s})" by (rule card_image_le) simp
  also have "\<dots> = 6" by simp
  finally have "length us \<le> 6" using dm by (metis distinct_append distinct_card length_map list.set_map map_append)
  then have "8 - length us = Suc (7 - length us)" by simp
  then show ?thesis by (simp add: recent_rows_def xs)
qed

lemma locked_row_not_counted [simp]:
  "accepted_rows u (logTotpLocked user source now st) = accepted_rows u st"
  by (simp add: logTotpLocked_def select_where_def verified_by_def)

lemma failure_rows [simp]:
  "accepted_rows u (snd (recordTotpVerificationFailure user source now st)) = accepted_rows u st"
  by (simp add: recordTotpVerificationFailure_def case_prod_unfold Let_def)

lemma reject_rows:
  assumes "reject_code user rq st = (res, st')"
  shows "res \<noteq> Pass_code step" "accepted_rows u st' = accepted_rows u st"
  using assms failure_rows [of u user "''middleware''" "rq_done_at rq" st]
  by (cases "recordTotpVerificationFailure user ''middleware'' (rq_done_at rq) st",
      auto simp: reject_code_def split: option.splits)+

lemma enrol_rows [simp]:
  "accepted_rows u (snd (enroll user secret st)) = accepted_rows u st"
  "accepted_rows u (deleteTotpSecret user st) = accepted_rows u st"
  "accepted_rows u (clearTotpVerificationFailures user st) = accepted_rows u st"
  "accepted_rows u (markTotpVerified now user st) = accepted_rows u st"
  by (simp_all add: enroll_def saveTotpSecret_def deleteTotpSecret_def clearTotpVerificationFailures_def
      markTotpVerified_def split: option.splits)

lemma verify_rows [simp]: "accepted_rows u (snd (verify_enrolment hmac user code now st)) = accepted_rows u st"
  using failure_rows [of u user "''enrollment''" now st]
  by (cases "recordTotpVerificationFailure user ''enrollment'' now st")
    (simp add: verify_enrolment_def split: option.splits bool.splits)

lemma consume_rows:
  "accepted_rows u (st\<lparr>sf_audit := sf_audit st @ [verified_row user step now]\<rparr>) =
     accepted_rows u st @ (if u = user then [verified_row user step now] else [])"
  by (auto simp: select_where_def verified_by_def verified_row_def)

text \<open>A request that passes by code writes a row that was not there; any other keeps the rows.\<close>

definition passes_with :: "sf_request \<Rightarrow> sf_state \<Rightarrow> sf_state \<Rightarrow> ident \<Rightarrow> int \<Rightarrow> bool" where
  "passes_with rq st st' user step \<longleftrightarrow> rq_user rq = Some user
     \<and> \<not> list_ex (\<lambda>r. lg_meta r = Meta_totp_step step) (recent_rows user (sf_audit st))
     \<and> \<bar>step - rq_checked_at rq div 30000\<bar> \<le> 1
     \<and> (\<forall>u. accepted_rows u st' =
            accepted_rows u st @ (if u = user then [verified_row user step (rq_done_at rq)] else []))"

lemma accept_cases:
  assumes "accept_code user step rq st = (res, st')" and "rq_user rq = Some user"
    and "\<bar>step - rq_checked_at rq div 30000\<bar> \<le> 1"
  shows "(res = Pass_code step \<and> passes_with rq st st' user step)
     \<or> ((\<forall>step. res \<noteq> Pass_code step) \<and> (\<forall>u. accepted_rows u st' = accepted_rows u st))"
  using assms by (simp add: accept_code_def consumeTotpStep_def passes_with_def consume_rows split: if_splits)
    (use consume_rows in auto)

lemma request_cases:
  assumes "requireTotpVerified hmac rq st = (res, st')"
  obtains (pass) user step where "res = Pass_code step" "passes_with rq st st' user step"
    | (other) "\<And>step. res \<noteq> Pass_code step" "\<And>u. accepted_rows u st' = accepted_rows u st"
proof -
  have "(\<exists>user step. res = Pass_code step \<and> passes_with rq st st' user step)
     \<or> ((\<forall>step. res \<noteq> Pass_code step) \<and> (\<forall>u. accepted_rows u st' = accepted_rows u st))" (is ?goal)
  proof (cases "rq_user rq")
    case None
    with assms show ?thesis by (simp add: requireTotpVerified_def)
  next
    case (Some user)
    consider (quiet) "st' = st" "\<And>step. res \<noteq> Pass_code step" | (reject) "reject_code user rq st = (res, st')"
      | (accept) r :: totp_row and step where "accept_code user step rq st = (res, st')"
          "verifyCodeDetailed hmac (tr_secret r) (rq_code rq) (rq_checked_at rq div 1000) 1 = Some (Some step)"
      using assms Some by (auto simp: requireTotpVerified_def split: if_splits option.splits)
    then show ?thesis
    proof cases
      case quiet then show ?thesis by blast
    next
      case reject then show ?thesis using reject_rows by blast
    next
      case accept
      have "rq_checked_at rq div 1000 div 30 = rq_checked_at rq div 30000" by (simp add: zdiv_zmult2_eq [symmetric])
      with accept_cases [OF accept(1) Some] verify_in_window(1) [OF accept(2)]
      show ?thesis by (auto simp: PERIOD_S_def)
    qed
  qed
  then show thesis using pass other by blast
qed

lemma request_keeps_inv:
  assumes req: "requireTotpVerified hmac rq st = (Pass_code step, st')" and inv: "sf_inv T st"
    and times: "T \<le> rq_done_at rq" "rq_checked_at rq \<le> rq_done_at rq" "rq_done_at rq < rq_checked_at rq + 30000"
  obtains user where "rq_user rq = Some user" "sf_inv (rq_done_at rq) st'"
    "Meta_totp_step step \<notin> lg_meta ` set (accepted_rows user st)"
    "\<And>u. lg_meta ` set (accepted_rows u st') =
        lg_meta ` set (accepted_rows u st) \<union> (if u = user then {Meta_totp_step step} else {})"
  using req
proof (cases rule: request_cases)
  case (pass user step')
  let ?now = "rq_done_at rq"
  have s: "step' = step" using pass(1) by simp
  have p: "passes_with rq st st' user step" using pass(2) by (simp add: s)
  have "?now div 30000 \<le> rq_checked_at rq div 30000 + 1" "rq_checked_at rq div 30000 \<le> ?now div 30000"
    using times by linarith+
  then have window: "?now div 30000 - 2 \<le> step" "step \<le> ?now div 30000 + 1" using p by (auto simp: passes_with_def)
  have new: "Meta_totp_step step \<notin> lg_meta ` set (accepted_rows user st)"
  proof
    assume "Meta_totp_step step \<in> lg_meta ` set (accepted_rows user st)"
    then obtain r where "r \<in> set (accepted_rows user st)" "lg_meta r = Meta_totp_step step" by force
    from accepted_step_is_recent [OF inv this times(1) window(1)] this p
    show False by (auto simp: passes_with_def list_ex_iff)
  qed
  have rows: "accepted_rows u st' = accepted_rows u st @ (if u = user then [verified_row user step ?now] else [])" for u
    using p by (simp add: passes_with_def)
  have "sf_inv ?now st'"
    using sf_inv_later [OF inv times(1)] new window
    unfolding sf_inv_def rows by (auto simp: in_time_def verified_row_def)
  with that [of user] new rows p show ?thesis by (auto simp: passes_with_def verified_row_def)
qed blast

lemma sf_run_fresh:
  assumes "sf_inv T st" "timely T es"
  shows "distinct (sf_run hmac es st)
    \<and> (\<forall>(user, step)\<in>set (sf_run hmac es st). \<exists>u. user = Some u \<and> Meta_totp_step step \<notin> lg_meta ` set (accepted_rows u st))"
  using assms
proof (induction es arbitrary: T st)
  case (Cons e es)
  have same: ?case if "sf_run hmac (e # es) st = sf_run hmac es st'" "\<And>u. accepted_rows u st' = accepted_rows u st"
    "T \<le> T'" "timely T' es" for st' T'
    using Cons.IH [OF sf_inv_same_rows [OF sf_inv_later [OF Cons.prems(1) that(3)] that(2)] that(4)]
    unfolding that(1,2) .
  show ?case
  proof (cases e)
    case (Ev_request rq)
    obtain res st' where req: "requireTotpVerified hmac rq st = (res, st')" by force
    have times: "T \<le> rq_done_at rq" "rq_checked_at rq \<le> rq_done_at rq" "rq_done_at rq < rq_checked_at rq + 30000"
      "timely (rq_done_at rq) es" using Cons.prems(2) by (auto simp: Ev_request)
    from req show ?thesis
    proof (cases rule: request_cases)
      case (pass _ step)
      from request_keeps_inv [OF req [unfolded pass(1)] Cons.prems(1) times(1-3)] obtain user where
        u: "rq_user rq = Some user" and inv: "sf_inv (rq_done_at rq) st'"
        and new: "Meta_totp_step step \<notin> lg_meta ` set (accepted_rows user st)"
        and rows: "\<And>u. lg_meta ` set (accepted_rows u st') =
          lg_meta ` set (accepted_rows u st) \<union> (if u = user then {Meta_totp_step step} else {})" by metis
      have run: "sf_run hmac (e # es) st = (Some user, step) # sf_run hmac es st'"
        by (simp add: Ev_request req pass(1) u)
      from Cons.IH [OF inv times(4)] new show ?thesis unfolding run rows by auto
    next
      case other
      have "\<forall>step. res \<noteq> Pass_code step" using other(1) by blast
      then have "sf_run hmac (e # es) st = sf_run hmac es st'" by (cases res) (simp_all add: Ev_request req)
      from same [OF this other(2) times(1,4)] show ?thesis .
    qed
  next
    case (Ev_enroll user secret)
    then show ?thesis using Cons.prems(2) by (intro same [of "snd (enroll user secret st)" T]) auto
  next
    case (Ev_verify user code now)
    then show ?thesis using Cons.prems(2) by (intro same [of "snd (verify_enrolment hmac user code now st)" T]) auto
  next
    case (Ev_delete user)
    then show ?thesis using Cons.prems(2) by (intro same [of "deleteTotpSecret user st" T]) auto
  qed
qed simp

section \<open>Wrong codes\<close>

fun repeat_failures :: "ident \<Rightarrow> instant list \<Rightarrow> (ident \<Rightarrow> failure_bucket option) \<Rightarrow> bool list" where
  "repeat_failures u [] f = []"
| "repeat_failures u (t # ts) f = (let (r, f') = recordTotpFailure u t f in th_locked r # repeat_failures u ts f')"

lemma bucket_locks:
  assumes "f u = Some b" "\<forall>t\<in>set ts. t < fb_resetAt b" "fb_count b \<le> 5"
  shows "repeat_failures u ts f = map (\<lambda>i. 5 - fb_count b \<le> i) [0 ..< length ts]"
  using assms
proof (induction ts arbitrary: f b)
  case (Cons t ts)
  show ?case
  proof (cases "fb_count b = 5")
    case True
    then have step: "recordTotpFailure u t f = (\<lparr>th_locked = True, th_retryAfterSec = ceil_div (fb_resetAt b - t) 1000\<rparr>, f)"
      using Cons.prems by (simp add: recordTotpFailure_def MAX_FAILURES_def Let_def)
    from Cons.IH [of f b] Cons.prems True show ?thesis
      by (simp add: step map_replicate_const upt_conv_Cons del: upt_Suc)
  next
    case False
    let ?b = "b\<lparr>fb_count := fb_count b + 1\<rparr>"
    have step: "recordTotpFailure u t f =
        (\<lparr>th_locked = False, th_retryAfterSec = ceil_div (fb_resetAt b - t) 1000\<rparr>, f(u \<mapsto> ?b))"
      using Cons.prems False by (simp add: recordTotpFailure_def MAX_FAILURES_def Let_def)
    have "repeat_failures u ts (f(u \<mapsto> ?b)) = map (\<lambda>i. 5 - fb_count ?b \<le> i) [0 ..< length ts]"
      using Cons.prems False by (intro Cons.IH) auto
    moreover have "map (\<lambda>i. 5 - fb_count b \<le> i) [0 ..< length (t # ts)] =
        False # map (\<lambda>i. 5 - fb_count ?b \<le> i) [0 ..< length ts]"
      using Cons.prems False by (simp add: upt_conv_Cons map_Suc_upt [symmetric] del: upt_Suc) auto
    ultimately show ?thesis by (simp add: step)
  qed
qed simp

lemma first_five_failures:
  assumes "f u = None" "\<forall>x\<in>set ts. x < t + WINDOW_MS"
  shows "repeat_failures u (t # ts) f = map (\<lambda>i. 5 \<le> i) [0 ..< Suc (length ts)]"
proof -
  let ?b = "\<lparr>fb_count = 1, fb_resetAt = t + WINDOW_MS\<rparr>"
  have step: "recordTotpFailure u t f =
      (\<lparr>th_locked = False, th_retryAfterSec = ceil_div WINDOW_MS 1000\<rparr>, f(u \<mapsto> ?b))"
    using assms(1) by (simp add: recordTotpFailure_def MAX_FAILURES_def Let_def)
  have "repeat_failures u ts (f(u \<mapsto> ?b)) = map (\<lambda>i. 5 - fb_count ?b \<le> i) [0 ..< length ts]"
    using assms(2) by (intro bucket_locks) auto
  then show ?thesis by (simp add: step upt_conv_Cons map_Suc_upt [symmetric] del: upt_Suc)
qed

lemma pass_ignores_failures:
  "fst (requireTotpVerified hmac rq (st\<lparr>sf_failures := f\<rparr>)) = Pass_code step \<longleftrightarrow>
   fst (requireTotpVerified hmac rq st) = Pass_code step"
proof -
  have rej: "fst (reject_code user rq s) \<noteq> Pass_code step" for user s
    using reject_rows(1) [of user rq s "fst (reject_code user rq s)" "snd (reject_code user rq s)"] by simp
  have acc: "fst (accept_code user q rq (st\<lparr>sf_failures := f\<rparr>)) = fst (accept_code user q rq st)" for user q
    by (simp add: accept_code_def consumeTotpStep_def)
  have get: "getTotpSecret (st\<lparr>sf_failures := f\<rparr>) user = getTotpSecret st user" for user
    by (simp add: getTotpSecret_def)
  show ?thesis by (simp add: requireTotpVerified_def get rej acc split: option.splits)
qed

section \<open>Properties\<close>

definition demo_state :: sf_state where
  "demo_state = \<lparr>sf_audit = [], sf_failures = \<lambda>_. None,
     sf_totp = [\<lparr>tr_user = ''alice'', tr_secret = ''MY'', tr_verified_at = Some 0\<rparr>]\<rparr>"

definition demo_request :: "instant \<Rightarrow> sf_request" where
  "demo_request t = \<lparr>rq_user = Some ''alice'', rq_cookie = None, rq_code = ''000000'', rq_checked_at = t,
     rq_done_at = t + 5, rq_store_ok = True\<rparr>"

definition demo_hmac :: hmac where "demo_hmac key msg = replicate 20 0"

lemma demo_verify: "verifyCodeDetailed demo_hmac ''MY'' ''000000'' t 1 = Some (Some (t div 30 - 1))"
proof -
  have "clean_base32 ''MY'' = ''MY''" "index_of BASE32_ALPHABET (CHR ''M'') = Some 12"
    "index_of BASE32_ALPHABET (CHR ''Y'') = Some 24" by code_simp+
  then have "decodeBase32 ''MY'' = Inr [102]" by (simp add: decodeBase32_def)
  moreover have "truncate_hmac (replicate 20 0) = 0" by (simp add: truncate_hmac_def)
  moreover have "pad_start DIGITS (nat_str 0) = ''000000''" by code_simp
  ultimately have "computeCode demo_hmac ''MY'' t = Inr ''000000''" for t
    by (simp add: computeCode_def demo_hmac_def)
  moreover have "filter (\<lambda>c. \<not> is_space c) (trim ''000000'') = ''000000''" "list_all is_digit ''000000''" by code_simp+
  ultimately show ?thesis by (simp add: verifyCodeDetailed_def DIGITS_def PERIOD_S_def upto.simps)
qed

lemma demo_run:
  "sf_run demo_hmac (map (Ev_request \<circ> demo_request) [60000, 61000, 90000]) demo_state
     = [(Some ''alice'', 1), (Some ''alice'', 2)]"
  by (simp add: demo_request_def demo_state_def requireTotpVerified_def fresh_cookie_def getTotpSecret_def
      select_first_def demo_verify accept_code_def consumeTotpStep_def recent_rows_def order_desc_def
      select_where_def verified_by_def verified_row_def clearTotpVerificationFailures_def)

text \<open>
  C26. A one-time code is accepted once. Over any sequence of protected
  requests, enrolments and removals, no user passes twice with the code
  of the same time step, although only the eight latest acceptances are
  consulted, provided the clock does not go back and a request takes less than
  thirty seconds from comparing the code to recording it.
\<close>

theorem totp_step_used_once:
  assumes "sf_audit st = []" and "timely T es"
  shows "distinct (sf_run hmac es st)"
proof -
  have "sf_inv T st" using assms(1) by (simp add: sf_inv_def select_where_def)
  from sf_run_fresh [OF this assms(2)] show ?thesis by simp
qed

theorem totp_step_used_once_witness:
  "sf_audit demo_state = [] \<and> timely 60000 (map (Ev_request \<circ> demo_request) [60000, 61000, 90000])
   \<and> sf_run demo_hmac (map (Ev_request \<circ> demo_request) [60000, 61000, 90000]) demo_state
       = [(Some ''alice'', 1), (Some ''alice'', 2)]
   \<and> distinct (sf_run demo_hmac (map (Ev_request \<circ> demo_request) [60000, 61000, 90000]) demo_state)"
proof -
  have a: "sf_audit demo_state = []" by (simp add: demo_state_def)
  have t: "timely 60000 (map (Ev_request \<circ> demo_request) [60000, 61000, 90000])" by (simp add: demo_request_def)
  from a t demo_run totp_step_used_once [OF a t, of demo_hmac] show ?thesis by blast
qed

text \<open>
  The limit on wrong codes does not stand in the way of a guess: whatever
  failures are on record for the user, a request passes with a code
  exactly when it would pass with no failure on record. Only the answer to a
  wrong code changes once the limit is reached.
\<close>

theorem lockout_does_not_gate:
  "fst (requireTotpVerified hmac rq (st\<lparr>sf_failures := failures\<rparr>)) = Pass_code step \<longleftrightarrow>
   fst (requireTotpVerified hmac rq (st\<lparr>sf_failures := \<lambda>_. None\<rparr>)) = Pass_code step"
  by (simp only: pass_ignores_failures)

end
