(* ===== verification/Api_Access.thy ===== *)
theory Api_Access
  imports Memberships Sessions Second_Factor
begin

text \<open>
  Who a request acts for and what it may do: personal access tokens
  (\<^verbatim>\<open>packages/db/src/queries/api-tokens.ts\<close>, \<^verbatim>\<open>auth/pat.ts\<close>, \<^verbatim>\<open>routes/api-tokens.ts\<close>),
  scopes (\<^verbatim>\<open>packages/shared/src/api-tokens.ts\<close>, \<^verbatim>\<open>auth/scope-rbac.ts\<close>,
  \<^verbatim>\<open>auth/require-scope.ts\<close>) and the authentication of a request
  (\<^verbatim>\<open>auth/middleware.ts\<close>, \<^verbatim>\<open>auth/instance-admin.ts\<close>). SHA-256 and the check of a
  signed access cookie are parameters; bcrypt is the one of the sessions.
\<close>

section \<open>Scopes\<close>

definition ALL_SCOPES :: "string list" where
  "ALL_SCOPES = [''apps:read'', ''apps:write'', ''apps:deploy'', ''secrets:read'', ''secrets:write'',
     ''databases:read'', ''databases:write'', ''databases:*'', ''admin:*'']"

definition tokenHasScope :: "string list \<Rightarrow> string \<Rightarrow> bool" where
  "tokenHasScope tokenScopes required \<longleftrightarrow>
     ''admin:*'' \<in> set tokenScopes \<or> required \<in> set tokenScopes
     \<or> (let resource = hd (split_on CHR '':'' required)
        in resource \<noteq> [] \<and> resource @ '':*'' \<in> set tokenScopes)"

definition rolePriority :: "string \<Rightarrow> nat option" where
  "rolePriority = map_of [(''owner'', 4), (''admin'', 3), (''member'', 2), (''guest'', 1)]"

definition roleScopeMap :: "string \<Rightarrow> string list" where
  "roleScopeMap role =
     (if role = ''owner'' then [''admin:*'']
      else if role = ''admin'' then
        [''apps:read'', ''apps:write'', ''apps:deploy'', ''secrets:read'', ''secrets:write'', ''databases:read'',
         ''databases:write'', ''databases:*'']
      else if role = ''member'' then [''apps:read'', ''databases:read'']
      else [''apps:read''])"

text \<open>A role that is not in the table compares as \<^verbatim>\<open>undefined\<close>, which is never greater.\<close>

fun max_role :: "string \<Rightarrow> string list \<Rightarrow> string" where
  "max_role best [] = best"
| "max_role best (role # roles) =
     max_role (case (rolePriority role, rolePriority best) of
                 (Some p, Some q) \<Rightarrow> if p > q then role else best
               | _ \<Rightarrow> best) roles"

definition userMaxScopes :: "ident \<Rightarrow> membership_row table \<Rightarrow> string list" where
  "userMaxScopes userId t =
     roleScopeMap (max_role ''guest'' (map ms_role (select_where (\<lambda>m. ms_user_id m = userId) t)))"

definition assertScopesAllowed :: "string list \<Rightarrow> string list \<Rightarrow> string list" where
  "assertScopesAllowed requested allowed = filter (\<lambda>scope. \<not> tokenHasScope allowed scope) requested"

section \<open>Tokens\<close>

record api_token_row =
  at_id :: ident
  at_user_id :: ident
  at_name :: string
  at_token_hash :: string
  at_bcrypt_hash :: "string option"
  at_scopes :: "string list"
  at_last_used_at :: "instant option"
  at_created_at :: instant
  at_expires_at :: "instant option"
  at_revoked_at :: "instant option"

definition createToken ::
    "ident \<Rightarrow> instant \<Rightarrow> ident \<Rightarrow> string \<Rightarrow> string \<Rightarrow> string option \<Rightarrow> instant option \<Rightarrow> string list option
     \<Rightarrow> api_token_row table \<Rightarrow> api_token_row \<times> api_token_row table" where
  "createToken tokenId now userId name tokenHash bcryptHash expiresAt scopes t =
     (let row = \<lparr>at_id = tokenId, at_user_id = userId, at_name = name, at_token_hash = tokenHash,
                 at_bcrypt_hash = bcryptHash,
                 at_scopes = (case scopes of Some s \<Rightarrow> if s \<noteq> [] then s else [''admin:*''] | None \<Rightarrow> [''admin:*'']),
                 at_last_used_at = None, at_created_at = now, at_expires_at = expiresAt, at_revoked_at = None\<rparr>
      in (row, t @ [row]))"

definition listTokensForUser :: "ident \<Rightarrow> api_token_row table \<Rightarrow> api_token_row list" where
  "listTokensForUser userId t = sort_key at_created_at (select_where (\<lambda>r. at_user_id r = userId) t)"

definition getTokenByHash :: "string \<Rightarrow> api_token_row table \<Rightarrow> api_token_row option" where
  "getTokenByHash h t = select_first (\<lambda>r. at_token_hash r = h) t"

definition updateTokenLastUsed :: "ident \<Rightarrow> instant \<Rightarrow> api_token_row table \<Rightarrow> api_token_row table" where
  "updateTokenLastUsed tokenId now t = update_where (\<lambda>r. at_id r = tokenId) (\<lambda>r. r\<lparr>at_last_used_at := Some now\<rparr>) t"

definition revokeToken :: "instant \<Rightarrow> ident \<Rightarrow> ident \<Rightarrow> api_token_row table \<Rightarrow> api_token_row table" where
  "revokeToken now userId tokenId t =
     update_where (\<lambda>r. at_id r = tokenId \<and> at_user_id r = userId) (\<lambda>r. r\<lparr>at_revoked_at := Some now\<rparr>) t"

definition deleteToken :: "ident \<Rightarrow> ident \<Rightarrow> api_token_row table \<Rightarrow> api_token_row table" where
  "deleteToken userId tokenId t = delete_where (\<lambda>r. at_id r = tokenId \<and> at_user_id r = userId) t"

text \<open>
  The third condition of the query is \<^verbatim>\<open>isNull(expires_at) || gt(expires_at, now)\<close>,
  with the operator of JavaScript: its left operand is an object, hence true, and
  is the value of the whole.
\<close>

definition getActiveToken :: "instant \<Rightarrow> string \<Rightarrow> api_token_row table \<Rightarrow> api_token_row option" where
  "getActiveToken now h t =
     select_first (\<lambda>r. at_token_hash r = h \<and> at_revoked_at r = None \<and> at_expires_at r = None) t"

section \<open>State\<close>

record user_row =
  us_id :: ident
  us_email :: string
  us_display_name :: string
  us_is_instance_admin :: bool

record access_state =
  ax_users :: "user_row table"
  ax_tokens :: "api_token_row table"
  ax_sessions :: "session_row table"
  ax_members :: "membership_row table"
  ax_passkeys :: "ident list"
  ax_backup :: "backup_row table"
  ax_totp :: "totp_row table"
  ax_audit :: "audit_row table"

record auth_user =
  au_id :: ident
  au_email :: string
  au_display_name :: string
  au_session_id :: ident
  au_token_scopes :: "string list option"
  au_pat_id :: "ident option"

definition getUser :: "ident \<Rightarrow> user_row table \<Rightarrow> user_row option" where
  "getUser userId t = select_first (\<lambda>u. us_id u = userId) t"

section \<open>Authentication\<close>

datatype pat_result = Pat_not_applicable | Pat_invalid | Pat_ok auth_user

definition readPatBearerToken :: "string option \<Rightarrow> string option" where
  "readPatBearerToken header =
     (case header of
        None \<Rightarrow> None
      | Some h \<Rightarrow>
          if \<not> starts_with ''Bearer '' h then None
          else let token = drop 7 h in
               if \<not> starts_with ''ploy_'' token \<and> \<not> starts_with ''plk_live_'' token then None else Some token)"

text \<open>Writing the audit row may fail without consequence; \<open>audit_ok\<close> says whether it succeeds.\<close>

definition authenticatePat ::
    "(string \<Rightarrow> string) \<Rightarrow> compare_fn \<Rightarrow> bool \<Rightarrow> instant \<Rightarrow> string option \<Rightarrow> access_state \<Rightarrow> pat_result \<times> access_state" where
  "authenticatePat sha256 compare audit_ok now header st =
     (case readPatBearerToken header of
        None \<Rightarrow> (Pat_not_applicable, st)
      | Some token \<Rightarrow>
          (case getActiveToken now (sha256 token) (ax_tokens st) of
             None \<Rightarrow> (Pat_invalid, st)
           | Some active \<Rightarrow>
               if (case at_bcrypt_hash active of Some b \<Rightarrow> b \<noteq> [] \<and> \<not> compare token b | None \<Rightarrow> False) then (Pat_invalid, st)
               else case getUser (at_user_id active) (ax_users st) of
                      None \<Rightarrow> (Pat_invalid, st)
                    | Some u \<Rightarrow>
                        (Pat_ok \<lparr>au_id = us_id u, au_email = us_email u, au_display_name = us_display_name u,
                           au_session_id = at_id active, au_token_scopes = Some (at_scopes active), au_pat_id = Some (at_id active)\<rparr>,
                         st\<lparr>ax_tokens := updateTokenLastUsed (at_id active) now (ax_tokens st),
                            ax_audit := (if audit_ok then ax_audit st @
                              [\<lparr>lg_user = us_id u, lg_action = ''api_token.used'', lg_target_type = ''api_token'',
                                lg_target_id = at_id active, lg_meta = Meta_other [], lg_created_at = now\<rparr>]
                              else ax_audit st)\<rparr>)))"

definition patAuthMiddleware ::
    "(string \<Rightarrow> string) \<Rightarrow> compare_fn \<Rightarrow> bool \<Rightarrow> instant \<Rightarrow> string option \<Rightarrow> access_state \<Rightarrow> auth_user option \<times> access_state" where
  "patAuthMiddleware sha256 compare audit_ok now header st =
     (case authenticatePat sha256 compare audit_ok now header st of
        (Pat_ok u, st') \<Rightarrow> (Some u, st')
      | (_, st') \<Rightarrow> (None, st'))"



datatype gate_response = Next | Unauthenticated | Forbidden

definition requireSecondFactor :: "auth_user option \<Rightarrow> access_state \<Rightarrow> gate_response" where
  "requireSecondFactor user st =
     (case user of
        None \<Rightarrow> Unauthenticated
      | Some u \<Rightarrow>
          let passkeyCount = length (filter (\<lambda>p. p = au_id u) (ax_passkeys st));
              backupCount = countActive (au_id u) (ax_backup st);
              hasTotp = (case select_first (\<lambda>r. tr_user r = au_id u) (ax_totp st) of
                           Some r \<Rightarrow> tr_verified_at r \<noteq> None | None \<Rightarrow> False)
          in if passkeyCount \<ge> 2 \<or> backupCount \<ge> 1 \<or> hasTotp then Next else Forbidden)"

definition requireScope :: "string \<Rightarrow> auth_user option \<Rightarrow> gate_response" where
  "requireScope required user =
     (case user of
        None \<Rightarrow> Unauthenticated
      | Some u \<Rightarrow>
          (case au_token_scopes u of
             None \<Rightarrow> Next
           | Some scopes \<Rightarrow> if \<not> tokenHasScope scopes required then Forbidden else Next))"

definition requireAnyScope :: "string list \<Rightarrow> auth_user option \<Rightarrow> gate_response" where
  "requireAnyScope requiredScopes user =
     (case user of
        None \<Rightarrow> Unauthenticated
      | Some u \<Rightarrow>
          (case au_token_scopes u of
             None \<Rightarrow> Next
           | Some scopes \<Rightarrow> if \<not> list_ex (tokenHasScope scopes) requiredScopes then Forbidden else Next))"

definition isInstanceAdmin :: "ident \<Rightarrow> user_row table \<Rightarrow> bool" where
  "isInstanceAdmin userId t = (case select_first (\<lambda>u. us_id u = userId) t of Some u \<Rightarrow> us_is_instance_admin u | None \<Rightarrow> False)"

definition requireInstanceAdmin :: "auth_user option \<Rightarrow> access_state \<Rightarrow> gate_response" where
  "requireInstanceAdmin user st =
     (case user of
        None \<Rightarrow> Unauthenticated
      | Some u \<Rightarrow> if \<not> isInstanceAdmin (au_id u) (ax_users st) then Forbidden else Next)"

section \<open>The token routes\<close>

record token_input =
  ti_name :: string
  ti_expiresInDays :: "int option"
  ti_scopes :: "string list option"

text \<open>\<^verbatim>\<open>ApiTokenCreateSchema\<close>\<close>

definition token_input_ok :: "token_input \<Rightarrow> bool" where
  "token_input_ok i \<longleftrightarrow> 1 \<le> length (ti_name i) \<and> length (ti_name i) \<le> 255
     \<and> (case ti_expiresInDays i of Some d \<Rightarrow> d > 0 | None \<Rightarrow> True)
     \<and> (case ti_scopes i of Some s \<Rightarrow> s \<noteq> [] \<and> list_all (\<lambda>x. x \<in> set ALL_SCOPES) s | None \<Rightarrow> True)"

datatype token_response =
    Token_created string api_token_row
  | Token_unauthorized
  | Token_bad_request
  | Token_scope_not_allowed "string list"

definition create_token ::
    "(string \<Rightarrow> string) \<Rightarrow> hash_fn \<Rightarrow> string \<Rightarrow> string \<Rightarrow> ident \<Rightarrow> instant \<Rightarrow> auth_user option \<Rightarrow> token_input \<Rightarrow> access_state
     \<Rightarrow> token_response \<times> access_state" where
  "create_token sha256 hash token salt tokenId now user body st =
     (case user of
        None \<Rightarrow> (Token_unauthorized, st)
      | Some u \<Rightarrow>
          if \<not> token_input_ok body then (Token_bad_request, st)
          else
            let maxScopes = userMaxScopes (au_id u) (ax_members st);
                scopesToUse = (case ti_scopes body of
                                 Some s \<Rightarrow> s
                               | None \<Rightarrow> if ''admin:*'' \<in> set maxScopes then [''admin:*''] else [''apps:read'']);
                denied = assertScopesAllowed scopesToUse maxScopes
            in if denied \<noteq> [] then (Token_scope_not_allowed denied, st)
               else
                 let expiresAt = map_option (\<lambda>d. now + d * 24 * 60 * 60 * 1000) (ti_expiresInDays body);
                     (row, t') = createToken tokenId now (au_id u) (ti_name body) (sha256 token) (Some (hash salt token)) expiresAt
                                   (if scopesToUse \<noteq> [] then Some scopesToUse else None) (ax_tokens st)
                 in (Token_created token row, st\<lparr>ax_tokens := t'\<rparr>))"

definition delete_token_route :: "instant \<Rightarrow> auth_user option \<Rightarrow> ident \<Rightarrow> access_state \<Rightarrow> bool \<times> access_state" where
  "delete_token_route now user tokenId st =
     (case user of
        None \<Rightarrow> (False, st)
      | Some u \<Rightarrow> (True, st\<lparr>ax_tokens := revokeToken now (au_id u) tokenId (ax_tokens st)\<rparr>))"

section \<open>Lemmas on scopes\<close>

lemma split_on_hd_append: "c \<notin> set r \<Longrightarrow> hd (split_on c (r @ c # s)) = r"
  by (simp add: split_on_append_sep split_on_no_sep)

lemma hd_split_on: "c \<notin> set (hd (split_on c s))"
  using split_on_pieces [of "hd (split_on c s)" c s] by simp

text \<open>A scope list that is covered by another grants nothing the other does not grant.\<close>

lemma covered_scopes:
  assumes cov: "assertScopesAllowed requested allowed = []" and has: "tokenHasScope requested s"
  shows "tokenHasScope allowed s"
proof -
  have each: "tokenHasScope allowed r" if "r \<in> set requested" for r
    using cov that by (auto simp: assertScopesAllowed_def filter_empty_conv)
  let ?res = "hd (split_on CHR '':'' s)"
  have wild: "hd (split_on CHR '':'' (r @ '':*'')) = r" if "CHR '':'' \<notin> set r" for r
    using split_on_hd_append [OF that, of "''*''"] by simp
  consider "''admin:*'' \<in> set requested" | "s \<in> set requested" | "?res \<noteq> []" "?res @ '':*'' \<in> set requested"
    using has by (auto simp: tokenHasScope_def Let_def)
  then show ?thesis
  proof cases
    case 1
    have "hd (split_on CHR '':'' ''admin:*'') = ''admin''" by simp
    with each [OF 1] show ?thesis by (auto simp: tokenHasScope_def)
  next
    case 2
    then show ?thesis by (rule each)
  next
    case 3
    have "hd (split_on CHR '':'' (?res @ '':*'')) = ?res" by (rule wild) (rule hd_split_on)
    with each [OF 3(2)] 3(1) show ?thesis unfolding tokenHasScope_def Let_def by auto
  qed
qed

section \<open>Lemmas on authentication\<close>






lemma select_first_snoc:
  "select_first P (t @ [r]) = (case select_first P t of Some x \<Rightarrow> Some x | None \<Rightarrow> if P r then Some r else None)"
  by (induction t) (simp_all add: select_first_def)

section \<open>Properties\<close>


definition demo_access :: access_state where
  "demo_access = \<lparr>ax_users = [\<lparr>us_id = ''u1'', us_email = ''a@b.c'', us_display_name = ''A'', us_is_instance_admin = False\<rparr>],
     ax_tokens = [], ax_sessions = createSession demo_hash ''t1'' [] 0 ''s1'' ''u1'' [] [] [],
     ax_members = [owner_membership ''m1'' ''p1'' ''u1'' 0], ax_passkeys = [], ax_backup = [], ax_totp = [], ax_audit = []\<rparr>"



text \<open>
  C16. Nobody mints a token that can do more than their role: whatever scope an
  issued token grants, directly or through a wildcard, is granted by the scopes
  of the highest role the user holds.
\<close>

theorem minted_scopes_within_role:
  assumes "create_token sha256 hash token salt tokenId now (Some u) body st = (Token_created tok row, st')"
    and "tokenHasScope (at_scopes row) s"
  shows "tokenHasScope (userMaxScopes (au_id u) (ax_members st)) s"
proof -
  define max_scopes where "max_scopes = userMaxScopes (au_id u) (ax_members st)"
  define used where "used = (case ti_scopes body of
    Some s \<Rightarrow> s | None \<Rightarrow> if ''admin:*'' \<in> set max_scopes then [''admin:*''] else [''apps:read''])"
  have ok: "token_input_ok body" and none: "assertScopesAllowed used max_scopes = []"
    using assms(1) by (auto simp: create_token_def Let_def used_def max_scopes_def createToken_def split: if_splits)
  have "used \<noteq> []" using ok by (auto simp: used_def token_input_ok_def split: option.splits)
  then have "at_scopes row = used"
    using assms(1) by (auto simp: create_token_def Let_def used_def max_scopes_def createToken_def split: if_splits)
  with covered_scopes [OF none] assms(2) show ?thesis by (simp add: max_scopes_def)
qed

definition demo_user :: auth_user where
  "demo_user = \<lparr>au_id = ''u1'', au_email = ''a@b.c'', au_display_name = ''A'', au_session_id = ''s1'',
     au_token_scopes = None, au_pat_id = None\<rparr>"

definition demo_body :: "int option \<Rightarrow> token_input" where
  "demo_body days = \<lparr>ti_name = ''ci'', ti_expiresInDays = days, ti_scopes = Some [''databases:*'']\<rparr>"

definition demo_mint :: "int option \<Rightarrow> token_response \<times> access_state" where
  "demo_mint days = create_token id demo_hash ''plk_live_x'' [] ''k1'' 7 (Some demo_user) (demo_body days) demo_access"

definition demo_row :: "int option \<Rightarrow> api_token_row" where
  "demo_row days = \<lparr>at_id = ''k1'', at_user_id = ''u1'', at_name = ''ci'', at_token_hash = ''plk_live_x'',
     at_bcrypt_hash = Some ''plk_live_x'', at_scopes = [''databases:*''], at_last_used_at = None, at_created_at = 7,
     at_expires_at = map_option (\<lambda>d. 7 + d * 86400000) days, at_revoked_at = None\<rparr>"

lemma demo_mint_result:
  "days = None \<or> days = Some 30 \<Longrightarrow>
   demo_mint days = (Token_created ''plk_live_x'' (demo_row days), demo_access\<lparr>ax_tokens := [demo_row days]\<rparr>)"
  by (elim disjE; hypsubst; code_simp)

theorem minted_scopes_within_role_witness:
  "demo_mint None = (Token_created ''plk_live_x'' (demo_row None), demo_access\<lparr>ax_tokens := [demo_row None]\<rparr>)
   \<and> tokenHasScope (at_scopes (demo_row None)) ''databases:read''
   \<and> tokenHasScope (userMaxScopes (au_id demo_user) (ax_members demo_access)) ''databases:read''"
proof -
  have m: "demo_mint None = (Token_created ''plk_live_x'' (demo_row None), demo_access\<lparr>ax_tokens := [demo_row None]\<rparr>)"
    by (rule demo_mint_result) simp
  have s: "tokenHasScope (at_scopes (demo_row None)) ''databases:read''" by code_simp
  from minted_scopes_within_role [OF m [unfolded demo_mint_def] s] m s show ?thesis by blast
qed

text \<open>
  A freshly issued token works if and only if it was issued without an
  expiry. The query for active tokens joins its two conditions on the expiry
  with the operator of JavaScript instead of the one of SQL, so a token with an
  expiry is refused from the first moment.
\<close>

theorem minted_token_works_iff_no_expiry:
  assumes "create_token sha256 hash token salt tokenId now (Some u) body st = (Token_created tok row, st')"
    and "bcrypt_law hash compare" and "\<forall>r\<in>set (ax_tokens st). at_token_hash r \<noteq> sha256 token"
    and "starts_with ''plk_live_'' token" and "getUser (au_id u) (ax_users st) \<noteq> None"
  shows "fst (authenticatePat sha256 compare audit_ok later (Some (''Bearer '' @ token)) st') \<noteq> Pat_invalid
     \<longleftrightarrow> ti_expiresInDays body = None"
proof -
  have row: "at_token_hash row = sha256 token" "at_bcrypt_hash row = Some (hash salt token)" "at_revoked_at row = None"
      "at_expires_at row = map_option (\<lambda>d. now + d * 24 * 60 * 60 * 1000) (ti_expiresInDays body)" "at_user_id row = au_id u"
    and st': "ax_tokens st' = ax_tokens st @ [row]" "ax_users st' = ax_users st"
    using assms(1) by (auto simp: create_token_def Let_def createToken_def split: if_splits)
  have read: "readPatBearerToken (Some (''Bearer '' @ token)) = Some token"
    using assms(4) by (simp add: readPatBearerToken_def starts_with_def)
  have "select_first (\<lambda>r. at_token_hash r = sha256 token \<and> at_revoked_at r = None \<and> at_expires_at r = None) (ax_tokens st) = None"
    using assms(3) by (auto simp: select_first_None)
  then have active: "getActiveToken later (sha256 token) (ax_tokens st') =
      (if ti_expiresInDays body = None then Some row else None)"
    by (simp add: getActiveToken_def st' select_first_snoc row)
  have cmp: "compare token (hash salt token)" using assms(2) by (simp add: bcrypt_law_def)
  from assms(5) obtain x where x: "getUser (au_id u) (ax_users st) = Some x" by blast
  show ?thesis
    unfolding authenticatePat_def read
    by (cases "ti_expiresInDays body") (simp_all add: active row st'(2) cmp x)
qed

theorem minted_token_works_iff_no_expiry_witness:
  "fst (authenticatePat id demo_compare True 8 (Some (''Bearer '' @ ''plk_live_x'')) (snd (demo_mint None))) \<noteq> Pat_invalid
   \<and> fst (authenticatePat id demo_compare True 8 (Some (''Bearer '' @ ''plk_live_x'')) (snd (demo_mint (Some 30)))) = Pat_invalid"
proof -
  have new: "\<forall>r\<in>set (ax_tokens demo_access). at_token_hash r \<noteq> id ''plk_live_x''" by (simp add: demo_access_def)
  have live: "starts_with ''plk_live_'' ''plk_live_x''" by (simp add: starts_with_def)
  have user: "getUser (au_id demo_user) (ax_users demo_access) \<noteq> None"
    by (simp add: getUser_def select_first_def demo_access_def demo_user_def)
  have m: "demo_mint days = (Token_created ''plk_live_x'' (demo_row days), snd (demo_mint days))"
    if "days = None \<or> days = Some 30" for days using demo_mint_result [OF that] by simp
  have "fst (authenticatePat id demo_compare True 8 (Some (''Bearer '' @ ''plk_live_x'')) (snd (demo_mint days))) \<noteq> Pat_invalid
      \<longleftrightarrow> days = None" if "days = None \<or> days = Some 30" for days
    using minted_token_works_iff_no_expiry [OF m [OF that, unfolded demo_mint_def] demo_law new live user, folded demo_mint_def, of True 8]
    unfolding demo_body_def token_input.simps .
  from this [of None] this [of "Some 30"] show ?thesis by simp
qed

text \<open>
  The route that issues tokens looks at the role of the user and not at the scopes
  of the token the request came with: a token that may only read apps issues one
  that may do everything.
\<close>

lemma limited_token_mints_admin:
  "fst (create_token id demo_hash ''plk_live_y'' [] ''k2'' 9 (Some (demo_user\<lparr>au_token_scopes := Some [''apps:read'']\<rparr>))
      \<lparr>ti_name = ''x'', ti_expiresInDays = None, ti_scopes = Some [''admin:*'']\<rparr> demo_access)
   = Token_created ''plk_live_y''
       \<lparr>at_id = ''k2'', at_user_id = ''u1'', at_name = ''x'', at_token_hash = ''plk_live_y'', at_bcrypt_hash = Some ''plk_live_y'',
        at_scopes = [''admin:*''], at_last_used_at = None, at_created_at = 9, at_expires_at = None, at_revoked_at = None\<rparr>"
  by code_simp

end
