(* ===== verification/App_Volumes.thy ===== *)
theory App_Volumes
  imports Memberships Blue_Green
begin

text \<open>
  Persistent volumes of apps: the table (\<^verbatim>\<open>schema/app-volumes.ts\<close>), its queries
  (\<^verbatim>\<open>queries/app-volumes.ts\<close>), the input rules (\<^verbatim>\<open>packages/shared/src/apps.ts\<close>),
  the host directories (\<^verbatim>\<open>services/app-volumes.ts\<close>) and the routes
  (\<^verbatim>\<open>routes/apps-volumes.ts\<close>). The disk is the list of the directories below the
  volume root. A request body is given by its fields; \<open>None\<close> stands for a body
  that is not a JSON object. The scope and the second factor are checked before a
  handler runs and are modelled with those checks.
\<close>

section \<open>Paths\<close>

text \<open>\<^verbatim>\<open>path.posix.normalize\<close> on the segments of a path; the stack holds the last segment first.\<close>

fun normalize_segments :: "bool \<Rightarrow> string list \<Rightarrow> string list \<Rightarrow> string list" where
  "normalize_segments up stack [] = rev stack"
| "normalize_segments up stack (s # ss) =
     (if s = [] \<or> s = ''.'' then normalize_segments up stack ss
      else if s = ''..'' then
        (case stack of
           [] \<Rightarrow> normalize_segments up (if up then [''..''] else []) ss
         | t # ts \<Rightarrow> normalize_segments up (if t = ''..'' then ''..'' # stack else ts) ss)
      else normalize_segments up (s # stack) ss)"

fun join_with :: "char \<Rightarrow> string list \<Rightarrow> string" where
  "join_with c [] = []"
| "join_with c [s] = s"
| "join_with c (s # t # ss) = s @ c # join_with c (t # ss)"

definition path_normalize :: "string \<Rightarrow> string" where
  "path_normalize p =
     (if p = [] then ''.''
      else
        let absolute = (hd p = CHR ''/'');
            trailing = (last p = CHR ''/'');
            body = join_with CHR ''/'' (normalize_segments (\<not> absolute) [] (split_on CHR ''/'' p))
        in if body = [] then (if absolute then ''/'' else if trailing then ''./'' else ''.'')
           else (if absolute then ''/'' else []) @ body @ (if trailing then ''/'' else []))"

definition path_join :: "string list \<Rightarrow> string" where
  "path_join parts =
     (let nonempty = filter (\<lambda>s. s \<noteq> []) parts
      in if nonempty = [] then ''.'' else path_normalize (join_with CHR ''/'' nonempty))"

section \<open>Rows and host directories\<close>

record volume_row =
  vr_id :: ident
  vr_app_id :: ident
  vr_name :: string
  vr_mount_path :: string
  vr_size_limit_bytes :: "int option"
  vr_created_at :: instant

definition APP_VOLUMES_ROOT :: string where
  "APP_VOLUMES_ROOT = ''/var/lib/ploydok/app-volumes''"

definition appVolumesRootForApp :: "ident \<Rightarrow> string" where
  "appVolumesRootForApp appId = path_join [APP_VOLUMES_ROOT, appId]"

definition appVolumeHostPath :: "ident \<Rightarrow> ident \<Rightarrow> string" where
  "appVolumeHostPath appId volumeId = path_join [appVolumesRootForApp appId, volumeId]"

text \<open>\<^verbatim>\<open>mkdir -p\<close> and \<^verbatim>\<open>rm -rf\<close> on the list of directories.\<close>

definition make_dir :: "string \<Rightarrow> string list \<Rightarrow> string list" where
  "make_dir p dirs = (if p \<in> set dirs then dirs else dirs @ [p])"

definition at_or_below :: "string \<Rightarrow> string \<Rightarrow> bool" where
  "at_or_below p d \<longleftrightarrow> d = p \<or> starts_with (p @ ''/'') d"

definition remove_tree :: "string \<Rightarrow> string list \<Rightarrow> string list" where
  "remove_tree p dirs = filter (\<lambda>d. \<not> at_or_below p d) dirs"

record volume_state =
  vs_volumes :: "volume_row table"
  vs_dirs :: "string list"

definition purgeAppVolumeHostPath :: "ident \<Rightarrow> ident \<Rightarrow> volume_state \<Rightarrow> volume_state" where
  "purgeAppVolumeHostPath appId volumeId st =
     st\<lparr>vs_dirs := remove_tree (appVolumeHostPath appId volumeId) (vs_dirs st)\<rparr>"

definition purgeAppVolumeRoot :: "ident \<Rightarrow> volume_state \<Rightarrow> volume_state" where
  "purgeAppVolumeRoot appId st = st\<lparr>vs_dirs := remove_tree (appVolumesRootForApp appId) (vs_dirs st)\<rparr>"

section \<open>Queries\<close>

abbreviation app_volume :: "ident \<Rightarrow> ident \<Rightarrow> volume_row \<Rightarrow> bool" where
  "app_volume appId volumeId v \<equiv> vr_app_id v = appId \<and> vr_id v = volumeId"

text \<open>Ordered by creation, then by id: an order on strings is an argument, as the collation of the database decides it.\<close>

definition listAppVolumes :: "(ident \<Rightarrow> nat) \<Rightarrow> ident \<Rightarrow> volume_row table \<Rightarrow> volume_row list" where
  "listAppVolumes rank appId t =
     sort_key vr_created_at (sort_key (\<lambda>v. rank (vr_id v)) (select_where (\<lambda>v. vr_app_id v = appId) t))"

definition getAppVolume :: "ident \<Rightarrow> ident \<Rightarrow> volume_row table \<Rightarrow> volume_row option" where
  "getAppVolume appId volumeId t = select_first (app_volume appId volumeId) t"

text \<open>The unique index a set of rows would violate, in the order of their creation.\<close>

definition violated_index :: "volume_row \<Rightarrow> volume_row list \<Rightarrow> string option" where
  "violated_index v others =
     (if list_ex (\<lambda>w. vr_id w = vr_id v) others then Some ''app_volumes_pkey''
      else if list_ex (\<lambda>w. vr_app_id w = vr_app_id v \<and> vr_name w = vr_name v) others
      then Some ''app_volumes_app_name_idx''
      else if list_ex (\<lambda>w. vr_app_id w = vr_app_id v \<and> vr_mount_path w = vr_mount_path v) others
      then Some ''app_volumes_app_mount_path_idx''
      else None)"

definition insertAppVolume :: "volume_row \<Rightarrow> volume_row table \<Rightarrow> string + volume_row table" where
  "insertAppVolume v t = (case violated_index v t of Some idx \<Rightarrow> Inl idx | None \<Rightarrow> Inr (t @ [v]))"

text \<open>A patch names the columns it sets.\<close>

record volume_patch =
  vp_name :: "string option"
  vp_mount_path :: "string option"
  vp_size_limit_bytes :: "int option option"

definition patch_row :: "volume_patch \<Rightarrow> volume_row \<Rightarrow> volume_row" where
  "patch_row p v = v\<lparr>vr_name := or_default (vp_name p) (vr_name v),
     vr_mount_path := or_default (vp_mount_path p) (vr_mount_path v),
     vr_size_limit_bytes := or_default (vp_size_limit_bytes p) (vr_size_limit_bytes v)\<rparr>"

definition updateAppVolume ::
  "ident \<Rightarrow> ident \<Rightarrow> volume_patch \<Rightarrow> volume_row table \<Rightarrow> string + volume_row table" where
  "updateAppVolume appId volumeId p t =
     (case getAppVolume appId volumeId t of
        None \<Rightarrow> Inr t
      | Some v \<Rightarrow>
          (case violated_index (patch_row p v) (delete_where (app_volume appId volumeId) t) of
             Some idx \<Rightarrow> Inl idx
           | None \<Rightarrow> Inr (update_where (app_volume appId volumeId) (patch_row p) t)))"

definition deleteAppVolume :: "ident \<Rightarrow> ident \<Rightarrow> volume_row table \<Rightarrow> volume_row table" where
  "deleteAppVolume appId volumeId t = delete_where (app_volume appId volumeId) t"

section \<open>Mounts for the runner\<close>

definition runtime_mount :: "ident \<Rightarrow> volume_row \<Rightarrow> runtime_volume" where
  "runtime_mount appId v =
     \<lparr>rv_id = vr_id v, rv_name = vr_name v, rv_mount_path = vr_mount_path v,
      rv_host_path = appVolumeHostPath appId (vr_id v),
      rv_size_limit_bytes = vr_size_limit_bytes v, rv_read_only = False\<rparr>"

definition listRuntimeAppVolumeMounts ::
  "(ident \<Rightarrow> nat) \<Rightarrow> bool \<Rightarrow> ident \<Rightarrow> volume_state \<Rightarrow> runtime_volume list \<times> volume_state" where
  "listRuntimeAppVolumeMounts rank ensureDirectories appId st =
     (let mounts = map (runtime_mount appId) (listAppVolumes rank appId (vs_volumes st))
      in (mounts,
          if ensureDirectories then st\<lparr>vs_dirs := fold make_dir (map rv_host_path mounts) (vs_dirs st)\<rparr> else st))"

section \<open>Input rules\<close>

definition volume_name_char :: "char \<Rightarrow> bool" where
  "volume_name_char c \<longleftrightarrow> is_alnum c \<or> c \<in> set ''._-''"

definition valid_volume_name :: "string \<Rightarrow> bool" where
  "valid_volume_name s \<longleftrightarrow>
     1 \<le> length s \<and> length s \<le> 64
     \<and> (case s of [] \<Rightarrow> False | c # rest \<Rightarrow> is_alnum c \<and> length rest \<le> 63 \<and> list_all volume_name_char rest)"

definition isValidAppVolumeMountPath :: "string \<Rightarrow> bool" where
  "isValidAppVolumeMountPath s \<longleftrightarrow>
     \<not> (length s < 2 \<or> length s > 512) \<and> starts_with ''/'' s
     \<and> \<not> (s = ''/'' \<or> CHR 0x00 \<in> set s \<or> CHR 0x5C \<in> set s)
     \<and> list_all (\<lambda>seg. length seg > 0 \<and> seg \<noteq> ''.'' \<and> seg \<noteq> ''..'') (split_on CHR ''/'' (drop 1 s))"

text \<open>A field of a body: missing, null, of the right type, or of another type.\<close>

datatype 'a json_field = Missing | Null | Val 'a | Bad

record volume_body =
  vb_name :: "string json_field"
  vb_mount_path :: "string json_field"
  vb_size_limit_bytes :: "int json_field"

fun required_field :: "('a \<Rightarrow> bool) \<Rightarrow> 'a json_field \<Rightarrow> 'a option" where
  "required_field ok (Val v) = (if ok v then Some v else None)"
| "required_field ok _ = None"

text \<open>The outer \<open>None\<close> is a rejected field, the inner one a field that is missing.\<close>

fun optional_field :: "('a \<Rightarrow> bool) \<Rightarrow> 'a json_field \<Rightarrow> 'a option option" where
  "optional_field ok Missing = Some None"
| "optional_field ok f = map_option Some (required_field ok f)"

definition valid_size_limit :: "int \<Rightarrow> bool" where
  "valid_size_limit n \<longleftrightarrow> 0 < n \<and> n \<le> 9007199254740991"

fun size_limit_field :: "int json_field \<Rightarrow> int option option option" where
  "size_limit_field Missing = Some None"
| "size_limit_field Null = Some (Some None)"
| "size_limit_field (Val n) = (if valid_size_limit n then Some (Some (Some n)) else None)"
| "size_limit_field Bad = None"

definition parse_create :: "volume_body option \<Rightarrow> (string \<times> string \<times> int option) option" where
  "parse_create body =
     (case body of
        None \<Rightarrow> None
      | Some b \<Rightarrow>
          (case (required_field valid_volume_name (vb_name b),
                 required_field isValidAppVolumeMountPath (vb_mount_path b),
                 size_limit_field (vb_size_limit_bytes b)) of
             (Some name, Some mnt, Some limit) \<Rightarrow> Some (name, mnt, or_default limit None)
           | _ \<Rightarrow> None))"

definition parse_update :: "volume_body option \<Rightarrow> volume_patch option" where
  "parse_update body =
     (case body of
        None \<Rightarrow> None
      | Some b \<Rightarrow>
          (case (optional_field valid_volume_name (vb_name b),
                 optional_field isValidAppVolumeMountPath (vb_mount_path b),
                 size_limit_field (vb_size_limit_bytes b)) of
             (Some name, Some mnt, Some limit) \<Rightarrow>
               if name = None \<and> mnt = None \<and> limit = None then None
               else Some \<lparr>vp_name = name, vp_mount_path = mnt, vp_size_limit_bytes = limit\<rparr>
           | _ \<Rightarrow> None))"

section \<open>The routes\<close>

definition getAppForUser ::
  "ident \<Rightarrow> ident \<Rightarrow> app_row table \<Rightarrow> project_row table \<Rightarrow> membership_row table \<Rightarrow> app_row option" where
  "getAppForUser appId userId apps projects members = first_row
     [a. a \<leftarrow> apps, a_id a = appId, p \<leftarrow> projects, pj_id p = a_project_id a, m \<leftarrow> members,
         ms_org_id m = pj_id p \<and> ms_user_id m = userId \<and> ms_accepted_at m \<noteq> None]"

definition appHasLiveRuntime :: "app_row \<Rightarrow> bool" where
  "appHasLiveRuntime app \<longleftrightarrow> truthy (a_container_id app)
     \<and> a_status app \<in> {A_pending, A_building, A_running, A_serving, A_restarting}"

fun volumeConflictMessage :: "string \<Rightarrow> string" where
  "volumeConflictMessage idx =
     (if idx = ''app_volumes_app_name_idx'' then ''volume name already exists for this app''
      else if idx = ''app_volumes_app_mount_path_idx'' then ''mount path already exists for this app''
      else ''app volume conflicts with an existing volume'')"

datatype volume_response =
  Vol_list "volume_row list"
| Vol_created volume_row
| Vol_updated volume_row
| Vol_deleted
| Vol_app_not_found
| Vol_not_found
| Vol_invalid_body
| Vol_conflict string
| Vol_live_runtime

definition get_volumes :: "(ident \<Rightarrow> nat) \<Rightarrow> app_row option \<Rightarrow> ident \<Rightarrow> volume_state \<Rightarrow> volume_response" where
  "get_volumes rank app appId st =
     (case app of None \<Rightarrow> Vol_app_not_found | Some _ \<Rightarrow> Vol_list (listAppVolumes rank appId (vs_volumes st)))"

definition post_volume ::
  "app_row option \<Rightarrow> ident \<Rightarrow> ident \<Rightarrow> instant \<Rightarrow> volume_body option \<Rightarrow> volume_state \<Rightarrow> volume_response \<times> volume_state" where
  "post_volume app appId nanoid now body st =
     (case app of
        None \<Rightarrow> (Vol_app_not_found, st)
      | Some _ \<Rightarrow>
          (case parse_create body of
             None \<Rightarrow> (Vol_invalid_body, st)
           | Some (name, mnt, limit) \<Rightarrow>
               let v = \<lparr>vr_id = nanoid, vr_app_id = appId, vr_name = name, vr_mount_path = mnt,
                        vr_size_limit_bytes = limit, vr_created_at = now\<rparr>
               in (case insertAppVolume v (vs_volumes st) of
                     Inl idx \<Rightarrow> (Vol_conflict (volumeConflictMessage idx), st)
                   | Inr t \<Rightarrow> (Vol_created v, st\<lparr>vs_volumes := t\<rparr>))))"

definition patch_volume ::
  "app_row option \<Rightarrow> ident \<Rightarrow> ident \<Rightarrow> volume_body option \<Rightarrow> volume_state \<Rightarrow> volume_response \<times> volume_state" where
  "patch_volume app appId volumeId body st =
     (case app of
        None \<Rightarrow> (Vol_app_not_found, st)
      | Some _ \<Rightarrow>
          (case getAppVolume appId volumeId (vs_volumes st) of
             None \<Rightarrow> (Vol_not_found, st)
           | Some existing \<Rightarrow>
               (case parse_update body of
                  None \<Rightarrow> (Vol_invalid_body, st)
                | Some p \<Rightarrow>
                    (case updateAppVolume appId volumeId p (vs_volumes st) of
                       Inl idx \<Rightarrow> (Vol_conflict (volumeConflictMessage idx), st)
                     | Inr t \<Rightarrow> (Vol_updated (patch_row p existing), st\<lparr>vs_volumes := t\<rparr>)))))"

definition delete_volume ::
  "app_row option \<Rightarrow> ident \<Rightarrow> ident \<Rightarrow> volume_state \<Rightarrow> volume_response \<times> volume_state" where
  "delete_volume app appId volumeId st =
     (case app of
        None \<Rightarrow> (Vol_app_not_found, st)
      | Some a \<Rightarrow>
          (case getAppVolume appId volumeId (vs_volumes st) of
             None \<Rightarrow> (Vol_not_found, st)
           | Some _ \<Rightarrow>
               if appHasLiveRuntime a then (Vol_live_runtime, st)
               else (Vol_deleted, purgeAppVolumeHostPath appId volumeId
                       (st\<lparr>vs_volumes := deleteAppVolume appId volumeId (vs_volumes st)\<rparr>))))"

text \<open>
  What happens to the table and the disk: the routes, the runner that makes the
  directories, and the end of an app, whose rows go with it.
\<close>

inductive volume_step :: "volume_state \<Rightarrow> volume_state \<Rightarrow> bool" where
  posted: "volume_step st (snd (post_volume app appId nanoid now body st))"
| patched: "volume_step st (snd (patch_volume app appId volumeId body st))"
| deleted: "volume_step st (snd (delete_volume app appId volumeId st))"
| mounted: "volume_step st (snd (listRuntimeAppVolumeMounts rank True appId st))"
| purged: "volume_step st (purgeAppVolumeRoot appId st)"
| cascaded: "volume_step st (st\<lparr>vs_volumes := delete_where (\<lambda>v. vr_app_id v = appId) (vs_volumes st)\<rparr>)"

definition volume_init :: "volume_state \<Rightarrow> bool" where
  "volume_init st \<longleftrightarrow> vs_volumes st = [] \<and> vs_dirs st = []"

section \<open>Lemmas on paths\<close>

definition plain_segment :: "string \<Rightarrow> bool" where
  "plain_segment s \<longleftrightarrow> s \<noteq> [] \<and> CHR ''/'' \<notin> set s \<and> s \<noteq> ''.'' \<and> s \<noteq> ''..''"

lemma split_on_join_with:
  "ss \<noteq> [] \<Longrightarrow> \<forall>s\<in>set ss. c \<notin> set s \<Longrightarrow> split_on c (join_with c ss) = ss"
  by (induction c ss rule: join_with.induct) (simp_all add: split_on_no_sep split_on_append_sep)

lemma normalize_plain: "\<forall>s\<in>set ss. plain_segment s \<Longrightarrow> normalize_segments up st ss = rev st @ ss"
  by (induction ss arbitrary: st) (auto simp: plain_segment_def)

lemma join_with_snoc: "ss \<noteq> [] \<Longrightarrow> join_with c (ss @ [s]) = join_with c ss @ c # s"
  by (induction c ss rule: join_with.induct) auto

lemma join_with_Nil: "\<forall>s\<in>set ss. plain_segment s \<Longrightarrow> join_with c ss = [] \<longleftrightarrow> ss = []"
  by (induction c ss rule: join_with.induct) (auto simp: plain_segment_def)

lemma last_join_with:
  "ss \<noteq> [] \<Longrightarrow> \<forall>s\<in>set ss. plain_segment s \<Longrightarrow> last (join_with c ss) = last (last ss)"
proof (induction ss rule: rev_induct)
  case (snoc s ss)
  then show ?case by (cases "ss = []") (auto simp: join_with_snoc plain_segment_def)
qed simp

lemma path_normalize_plain:
  assumes "ss \<noteq> []" and "\<forall>s\<in>set ss. plain_segment s"
  shows "path_normalize (CHR ''/'' # join_with CHR ''/'' ss) = CHR ''/'' # join_with CHR ''/'' ss"
proof -
  have ns: "\<forall>s\<in>set ss. CHR ''/'' \<notin> set s" using assms(2) by (simp add: plain_segment_def)
  have l: "last (join_with CHR ''/'' ss) \<noteq> CHR ''/''"
  proof -
    have "last ss \<in> set ss" using assms(1) by simp
    then have "last ss \<noteq> []" "CHR ''/'' \<notin> set (last ss)" using assms(2) by (auto simp: plain_segment_def)
    then show ?thesis unfolding last_join_with [OF assms] by (metis last_in_set)
  qed
  have n: "join_with CHR ''/'' ss \<noteq> []" using join_with_Nil [OF assms(2)] assms(1) by simp
  have s: "split_on CHR ''/'' (CHR ''/'' # join_with CHR ''/'' ss) = [] # ss"
    using split_on_join_with [OF assms(1) ns] by simp
  show ?thesis unfolding path_normalize_def s using n l normalize_plain [OF assms(2)] by simp
qed

lemma path_join_plain:
  assumes "ss \<noteq> []" and "\<forall>s\<in>set ss. plain_segment s" and "plain_segment s"
  shows "path_join [CHR ''/'' # join_with CHR ''/'' ss, s] = CHR ''/'' # join_with CHR ''/'' (ss @ [s])"
proof -
  have e: "join_with CHR ''/'' [CHR ''/'' # join_with CHR ''/'' ss, s] = CHR ''/'' # join_with CHR ''/'' (ss @ [s])"
    using assms(1) by (simp add: join_with_snoc)
  have "s \<noteq> []" using assms(3) by (simp add: plain_segment_def)
  then show ?thesis unfolding path_join_def using assms e path_normalize_plain [of "ss @ [s]"] by simp
qed

abbreviation root_segments :: "string list" where
  "root_segments \<equiv> [''var'', ''lib'', ''ploydok'', ''app-volumes'']"

lemma root_is_join: "APP_VOLUMES_ROOT = CHR ''/'' # join_with CHR ''/'' root_segments"
  by (simp add: APP_VOLUMES_ROOT_def)

lemma root_segments_plain: "\<forall>s\<in>set root_segments. plain_segment s"
  by (simp add: plain_segment_def)

lemma app_root_path:
  "plain_segment a \<Longrightarrow> appVolumesRootForApp a = CHR ''/'' # join_with CHR ''/'' (root_segments @ [a])"
  unfolding appVolumesRootForApp_def root_is_join by (rule path_join_plain [OF _ root_segments_plain]) simp

lemma volume_path:
  assumes "plain_segment a" and "plain_segment v"
  shows "appVolumeHostPath a v = CHR ''/'' # join_with CHR ''/'' (root_segments @ [a, v])"
proof -
  have "\<forall>s\<in>set (root_segments @ [a]). plain_segment s" using root_segments_plain assms(1) by simp
  from path_join_plain [OF _ this assms(2)] show ?thesis
    unfolding appVolumeHostPath_def app_root_path [OF assms(1)] by simp
qed

lemma volume_path_text:
  assumes "plain_segment a" and "plain_segment v"
  shows "appVolumeHostPath a v = APP_VOLUMES_ROOT @ CHR ''/'' # a @ CHR ''/'' # v"
  unfolding volume_path [OF assms] root_is_join by simp

text \<open>Directories of different volumes lie beside each other, never one below the other.\<close>

lemma segments_below:
  assumes "\<forall>s\<in>set ss. CHR ''/'' \<notin> set s" "\<forall>s\<in>set us. CHR ''/'' \<notin> set s" "ss \<noteq> []" "us \<noteq> []" "length ss = length us"
    and "at_or_below (join_with CHR ''/'' ss) (join_with CHR ''/'' us)"
  shows "ss = us"
proof -
  have "join_with CHR ''/'' us = join_with CHR ''/'' ss \<or> (\<exists>r. join_with CHR ''/'' us = join_with CHR ''/'' ss @ CHR ''/'' # r)"
    using assms(6) by (auto simp: at_or_below_def starts_with_iff)
  then show ?thesis
  proof
    assume "join_with CHR ''/'' us = join_with CHR ''/'' ss"
    then show ?thesis by (metis assms(1-4) split_on_join_with)
  next
    assume "\<exists>r. join_with CHR ''/'' us = join_with CHR ''/'' ss @ CHR ''/'' # r"
    then obtain r where r: "join_with CHR ''/'' us = join_with CHR ''/'' ss @ CHR ''/'' # r" by blast
    have "split_on CHR ''/'' (x @ CHR ''/'' # y) = split_on CHR ''/'' x @ split_on CHR ''/'' y" for x y
      by (induction x) (auto split: list.splits)
    from this [of "join_with CHR ''/'' ss" r] have "us = ss @ split_on CHR ''/'' r"
      using r assms(1-4) split_on_join_with by metis
    then have "split_on CHR ''/'' r = []" using assms(5) by simp
    then show ?thesis by simp
  qed
qed

lemma at_or_below_Cons: "at_or_below (c # p) (c # d) \<longleftrightarrow> at_or_below p d"
  by (simp add: at_or_below_def starts_with_def)

lemma volume_paths_apart:
  assumes "plain_segment a" "plain_segment v" "plain_segment b" "plain_segment w"
  shows "at_or_below (appVolumeHostPath a v) (appVolumeHostPath b w) \<longleftrightarrow> a = b \<and> v = w"
proof
  assume "at_or_below (appVolumeHostPath a v) (appVolumeHostPath b w)"
  then have "root_segments @ [a, v] = root_segments @ [b, w]"
    unfolding volume_path [OF assms(1,2)] volume_path [OF assms(3,4)] at_or_below_Cons
    by (intro segments_below) (use assms in \<open>auto simp: plain_segment_def\<close>)
  then show "a = b \<and> v = w" by simp
qed (simp add: at_or_below_def)

section \<open>The invariant of the table\<close>

definition volume_ok :: "volume_row \<Rightarrow> bool" where
  "volume_ok v \<longleftrightarrow> valid_volume_name (vr_name v) \<and> isValidAppVolumeMountPath (vr_mount_path v)
     \<and> (case vr_size_limit_bytes v of None \<Rightarrow> True | Some n \<Rightarrow> 0 < n)"

abbreviation name_key :: "volume_row \<Rightarrow> ident \<times> string" where
  "name_key v \<equiv> (vr_app_id v, vr_name v)"

abbreviation mount_key :: "volume_row \<Rightarrow> ident \<times> string" where
  "mount_key v \<equiv> (vr_app_id v, vr_mount_path v)"

definition volume_inv :: "volume_state \<Rightarrow> bool" where
  "volume_inv st \<longleftrightarrow> keyed vr_id (vs_volumes st) \<and> keyed name_key (vs_volumes st)
     \<and> keyed mount_key (vs_volumes st) \<and> (\<forall>v\<in>set (vs_volumes st). volume_ok v)"

lemma violated_index_None:
  "violated_index v others = None \<longleftrightarrow>
     vr_id v \<notin> vr_id ` set others \<and> name_key v \<notin> name_key ` set others \<and> mount_key v \<notin> mount_key ` set others"
  unfolding violated_index_def list_ex_iff image_iff by (auto simp: eq_commute)

lemma keyed_update_one:
  assumes "keyed g t" and "length (filter P t) \<le> 1"
    and "\<And>r. r \<in> set t \<Longrightarrow> P r \<Longrightarrow> g (f r) \<notin> g ` set (delete_where P t)"
  shows "keyed g (update_where P f t)"
  using assms
proof (induction t)
  case (Cons r t)
  show ?case
  proof (cases "P r")
    case True
    with Cons.prems(2) have none: "filter P t = []" by simp
    then have "update_where P f t = t" "delete_where P (r # t) = t"
      using True by (auto simp: filter_empty_conv delete_where_def intro!: update_where_none)
    with True Cons.prems show ?thesis by (auto simp: keyed_def update_where_def)
  next
    case False
    have "keyed g (update_where P f t)"
      using Cons.prems False by (intro Cons.IH) (auto simp: keyed_def delete_where_def)
    moreover have "g r \<notin> g ` set (update_where P f t)"
    proof
      assume "g r \<in> g ` set (update_where P f t)"
      then obtain u where u: "u \<in> set (update_where P f t)" "g u = g r" by auto
      from u(1) show False
      proof (cases rule: update_whereE)
        case (hit s)
        then have "g (f s) \<notin> g ` set (delete_where P (r # t))" by (intro Cons.prems(3)) simp_all
        with hit u(2) False show False by (simp add: delete_where_def)
      next
        case miss
        with u(2) Cons.prems(1) show False by (auto simp: keyed_def intro: rev_image_eqI)
      qed
    qed
    moreover have "update_where P f (r # t) = r # update_where P f t" using False by (simp add: update_where_def)
    ultimately show ?thesis by (simp add: keyed_def)
  qed
qed (simp add: keyed_def update_where_def)

lemma app_volume_unique: "keyed vr_id t \<Longrightarrow> length (filter (app_volume a i) t) \<le> 1"
proof (induction t)
  case (Cons v t)
  have "filter (app_volume a i) t = []" if "vr_id v = i"
    using Cons.prems that by (auto simp: keyed_def filter_empty_conv intro: rev_image_eqI)
  with Cons show ?case by (auto simp: keyed_def)
qed simp

lemma patch_row_keeps [simp]: "vr_id (patch_row p v) = vr_id v" "vr_app_id (patch_row p v) = vr_app_id v"
  "vr_created_at (patch_row p v) = vr_created_at v"
  by (simp_all add: patch_row_def)

lemma getAppVolume_found:
  assumes "keyed vr_id t" "v \<in> set t" "app_volume a i v" shows "getAppVolume a i t = Some v"
proof (cases "getAppVolume a i t")
  case None
  then show ?thesis using assms by (auto simp: getAppVolume_def select_first_None)
next
  case (Some w)
  then have "w \<in> set t" "vr_id w = vr_id v" using assms(3) by (auto simp: getAppVolume_def dest!: select_first_Some)
  with assms keyed_unique [of vr_id t w v] Some show ?thesis by simp
qed

lemma required_field_ok: "required_field ok f = Some v \<Longrightarrow> ok v"
  by (cases f) (auto split: if_splits)

lemma optional_field_ok: "optional_field ok f = Some (Some v) \<Longrightarrow> ok v"
  by (cases f) (auto split: if_splits)

lemma size_limit_ok: "size_limit_field f = Some (Some (Some n)) \<Longrightarrow> 0 < n"
  by (cases f) (auto simp: valid_size_limit_def split: if_splits)

lemma parse_create_ok:
  assumes "parse_create body = Some (name, mnt, limit)"
  shows "valid_volume_name name" "isValidAppVolumeMountPath mnt" "limit = Some n \<Longrightarrow> 0 < n"
proof -
  from assms obtain b :: volume_body and l where "required_field valid_volume_name (vb_name b) = Some name"
    "required_field isValidAppVolumeMountPath (vb_mount_path b) = Some mnt"
    "size_limit_field (vb_size_limit_bytes b) = Some l" "limit = or_default l None"
    by (auto simp: parse_create_def split: option.splits)
  then show "valid_volume_name name" "isValidAppVolumeMountPath mnt" "limit = Some n \<Longrightarrow> 0 < n"
    by (auto simp: or_default_def dest: required_field_ok size_limit_ok split: option.splits)
qed

lemma patched_ok:
  assumes "parse_update body = Some p" and "volume_ok v" shows "volume_ok (patch_row p v)"
proof -
  from assms(1) obtain b :: volume_body where b: "optional_field valid_volume_name (vb_name b) = Some (vp_name p)"
    "optional_field isValidAppVolumeMountPath (vb_mount_path b) = Some (vp_mount_path p)"
    "size_limit_field (vb_size_limit_bytes b) = Some (vp_size_limit_bytes p)"
    by (auto simp: parse_update_def split: option.splits if_splits)
  have "vp_name p = Some x \<Longrightarrow> valid_volume_name x" for x
    using b(1) optional_field_ok by metis
  moreover have "vp_mount_path p = Some x \<Longrightarrow> isValidAppVolumeMountPath x" for x
    using b(2) optional_field_ok by metis
  moreover have "vp_size_limit_bytes p = Some (Some n) \<Longrightarrow> 0 < n" for n
    using b(3) size_limit_ok by metis
  ultimately show ?thesis using assms(2)
    by (cases "vp_name p"; cases "vp_mount_path p"; cases "vp_size_limit_bytes p")
      (auto simp: volume_ok_def patch_row_def or_default_def split: option.splits)
qed

lemma post_volume_inv: "volume_inv st \<Longrightarrow> volume_inv (snd (post_volume app appId nanoid now body st))"
proof -
  assume inv: "volume_inv st"
  show ?thesis
  proof (cases "parse_create body")
    case (Some q)
    obtain name mnt limit where q: "parse_create body = Some (name, mnt, limit)" using Some by (cases q) auto
    let ?v = "\<lparr>vr_id = nanoid, vr_app_id = appId, vr_name = name, vr_mount_path = mnt,
      vr_size_limit_bytes = limit, vr_created_at = now\<rparr>"
    have "volume_ok ?v" using parse_create_ok [OF q] by (simp add: volume_ok_def split: option.splits)
    with inv show ?thesis
      by (auto simp: post_volume_def q insertAppVolume_def volume_inv_def keyed_snoc violated_index_None Let_def
          split: option.splits)
  qed (simp add: post_volume_def inv split: option.splits)
qed

lemma update_keyed:
  assumes "keyed vr_id t" "keyed g t" "getAppVolume a i t = Some v"
    and "g (patch_row p v) \<notin> g ` set (delete_where (app_volume a i) t)"
  shows "keyed g (update_where (app_volume a i) (patch_row p) t)"
proof (rule keyed_update_one [OF assms(2) app_volume_unique [OF assms(1)]])
  fix r assume r: "r \<in> set t" "app_volume a i r"
  from getAppVolume_found [OF assms(1) r] assms(3) have "r = v" by simp
  with assms(4) show "g (patch_row p r) \<notin> g ` set (delete_where (app_volume a i) t)" by simp
qed

lemma patch_volume_inv: "volume_inv st \<Longrightarrow> volume_inv (snd (patch_volume app appId volumeId body st))"
proof -
  assume inv: "volume_inv st"
  show ?thesis
  proof (cases "parse_update body")
    case (Some p)
    have "volume_inv (st\<lparr>vs_volumes := t\<rparr>)"
      if u: "updateAppVolume appId volumeId p (vs_volumes st) = Inr t" and g: "getAppVolume appId volumeId (vs_volumes st) = Some v" for v t
    proof -
      have t: "t = update_where (app_volume appId volumeId) (patch_row p) (vs_volumes st)"
        and nv: "violated_index (patch_row p v) (delete_where (app_volume appId volumeId) (vs_volumes st)) = None"
        using u g by (auto simp: updateAppVolume_def split: option.splits)
      have "keyed vr_id t" unfolding t using inv by (intro keyed_update_where) (simp_all add: volume_inv_def)
      moreover have "keyed name_key t" "keyed mount_key t"
        unfolding t using inv g nv by (auto intro!: update_keyed simp: volume_inv_def violated_index_None)
      moreover have "\<forall>r\<in>set t. volume_ok r"
        unfolding t using inv patched_ok [OF Some] by (auto simp: set_update_where volume_inv_def)
      ultimately show ?thesis by (simp add: volume_inv_def)
    qed
    with inv Some show ?thesis by (auto simp: patch_volume_def split: option.splits sum.splits)
  qed (simp add: patch_volume_def inv split: option.splits)
qed

lemma volume_inv_delete_where:
  "volume_inv st \<Longrightarrow> volume_inv (st\<lparr>vs_volumes := delete_where P (vs_volumes st)\<rparr>)"
  by (auto simp: volume_inv_def delete_where_def intro: keyed_delete_where [unfolded delete_where_def])

lemma volume_inv_dirs: "volume_inv (st\<lparr>vs_dirs := d\<rparr>) \<longleftrightarrow> volume_inv st"
  by (simp add: volume_inv_def)

lemma volume_inv_step: "volume_step st st' \<Longrightarrow> volume_inv st \<Longrightarrow> volume_inv st'"
proof (induction rule: volume_step.induct)
  case (deleted st app appId volumeId)
  then show ?case using volume_inv_delete_where
    by (auto simp: delete_volume_def purgeAppVolumeHostPath_def deleteAppVolume_def volume_inv_dirs split: option.splits)
qed (auto intro: post_volume_inv patch_volume_inv volume_inv_delete_where
    simp: listRuntimeAppVolumeMounts_def purgeAppVolumeRoot_def volume_inv_dirs Let_def)

lemma volume_inv_init: "volume_init st \<Longrightarrow> volume_inv st"
  by (simp add: volume_init_def volume_inv_def keyed_def)

interpretation app_volumes: step_machine volume_init volume_step volume_inv
  by unfold_locales (blast intro: volume_inv_init volume_inv_step)+

section \<open>Properties\<close>

text \<open>
  Whatever sequence of requests, deploys and deletions runs, two volumes of
  an app never have the same name or the same mount path, and every mount path
  is absolute and free of empty, dot and double-dot segments.
\<close>

theorem volume_mounts_never_collide:
  assumes "reachable volume_init volume_step st" and "v \<in> set (vs_volumes st)" and "w \<in> set (vs_volumes st)"
    and "vr_app_id v = vr_app_id w" and "v \<noteq> w"
  shows "vr_id v \<noteq> vr_id w \<and> vr_name v \<noteq> vr_name w \<and> vr_mount_path v \<noteq> vr_mount_path w
    \<and> hd (vr_mount_path v) = CHR ''/''
    \<and> {[], ''.'', ''..''} \<inter> set (split_on CHR ''/'' (tl (vr_mount_path v))) = {}"
proof -
  from app_volumes.inv_reachable [OF assms(1)] have k: "keyed vr_id (vs_volumes st)"
    "keyed name_key (vs_volumes st)" "keyed mount_key (vs_volumes st)" and ok: "volume_ok v"
    using assms(2) by (auto simp: volume_inv_def)
  have "vr_id v \<noteq> vr_id w" "vr_name v \<noteq> vr_name w" "vr_mount_path v \<noteq> vr_mount_path w"
    using keyed_unique [OF k(1) assms(2,3)] keyed_unique [OF k(2) assms(2,3)] keyed_unique [OF k(3) assms(2,3)]
      assms(4,5) by auto
  moreover have "hd (vr_mount_path v) = CHR ''/''" "{[], ''.'', ''..''} \<inter> set (split_on CHR ''/'' (tl (vr_mount_path v))) = {}"
    using ok by (cases "vr_mount_path v"; auto simp: volume_ok_def isValidAppVolumeMountPath_def starts_with_def list_all_iff)+
  ultimately show ?thesis by blast
qed

definition sample_body :: "string \<Rightarrow> string \<Rightarrow> volume_body option" where
  "sample_body name mnt = Some \<lparr>vb_name = Val name, vb_mount_path = Val mnt, vb_size_limit_bytes = Missing\<rparr>"

definition sample_app :: app_row where
  "sample_app = default_app ''a1'' ''p1'' ''web'' 0"

definition sample_volumes :: volume_state where
  "sample_volumes =
     snd (post_volume (Some sample_app) ''a1'' ''v2'' 6 (sample_body ''cache'' ''/var/cache'')
       (snd (post_volume (Some sample_app) ''a1'' ''v1'' 5 (sample_body ''data'' ''/data'') \<lparr>vs_volumes = [], vs_dirs = []\<rparr>)))"

lemma reachable_post:
  "reachable volume_init volume_step st \<Longrightarrow>
   reachable volume_init volume_step (snd (post_volume app appId nanoid now body st))"
  by (erule reachable.next_state) (rule volume_step.posted)

lemma sample_volumes_reachable: "reachable volume_init volume_step sample_volumes"
  unfolding sample_volumes_def
  by (intro reachable_post reachable.start) (simp add: volume_init_def)

definition sample_row :: "ident \<Rightarrow> string \<Rightarrow> string \<Rightarrow> instant \<Rightarrow> volume_row" where
  "sample_row i name mnt t = \<lparr>vr_id = i, vr_app_id = ''a1'', vr_name = name, vr_mount_path = mnt,
     vr_size_limit_bytes = None, vr_created_at = t\<rparr>"

lemma sample_volumes_rows:
  "vs_volumes sample_volumes = [sample_row ''v1'' ''data'' ''/data'' 5, sample_row ''v2'' ''cache'' ''/var/cache'' 6]"
  by code_simp

theorem volume_mounts_never_collide_witness:
  "vr_mount_path (sample_row ''v1'' ''data'' ''/data'' 5) \<noteq> vr_mount_path (sample_row ''v2'' ''cache'' ''/var/cache'' 6)"
  using volume_mounts_never_collide [OF sample_volumes_reachable,
      of "sample_row ''v1'' ''data'' ''/data'' 5" "sample_row ''v2'' ''cache'' ''/var/cache'' 6"]
  unfolding sample_volumes_rows by (simp add: sample_row_def)

text \<open>
  C27. Deleting a volume removes its row and its directory and nothing else: when
  the ids of apps and volumes are plain path segments, as generated ids are, every
  other volume keeps its row and its directory, of whatever app it is.
\<close>

theorem delete_volume_spares_others:
  assumes "delete_volume app appId volumeId st = (Vol_deleted, st')"
    and "plain_segment appId" and "plain_segment volumeId"
    and "\<forall>v\<in>set (vs_volumes st). plain_segment (vr_app_id v) \<and> plain_segment (vr_id v)"
  shows "set (vs_volumes st') = {v \<in> set (vs_volumes st). \<not> (vr_app_id v = appId \<and> vr_id v = volumeId)}
    \<and> appVolumeHostPath appId volumeId \<notin> set (vs_dirs st')
    \<and> (\<forall>v\<in>set (vs_volumes st'). appVolumeHostPath (vr_app_id v) (vr_id v) \<in> set (vs_dirs st')
           \<longleftrightarrow> appVolumeHostPath (vr_app_id v) (vr_id v) \<in> set (vs_dirs st))"
proof -
  have st': "st' = purgeAppVolumeHostPath appId volumeId (st\<lparr>vs_volumes := deleteAppVolume appId volumeId (vs_volumes st)\<rparr>)"
    using assms(1) by (auto simp: delete_volume_def split: option.splits if_splits)
  have "set (vs_volumes st') = {v \<in> set (vs_volumes st). \<not> (vr_app_id v = appId \<and> vr_id v = volumeId)}"
    by (auto simp: st' purgeAppVolumeHostPath_def deleteAppVolume_def delete_where_def)
  moreover have "appVolumeHostPath appId volumeId \<notin> set (vs_dirs st')"
    by (simp add: st' purgeAppVolumeHostPath_def remove_tree_def at_or_below_def)
  moreover have "\<forall>v\<in>set (vs_volumes st'). appVolumeHostPath (vr_app_id v) (vr_id v) \<in> set (vs_dirs st')
           \<longleftrightarrow> appVolumeHostPath (vr_app_id v) (vr_id v) \<in> set (vs_dirs st)"
    using assms(2-4) volume_paths_apart
    by (auto simp: st' purgeAppVolumeHostPath_def remove_tree_def deleteAppVolume_def delete_where_def)
  ultimately show ?thesis by blast
qed

definition sample_disk :: volume_state where
  "sample_disk = snd (listRuntimeAppVolumeMounts length True ''a1'' sample_volumes)"

theorem delete_volume_spares_others_witness:
  "appVolumeHostPath ''a1'' ''v2'' \<in> set (vs_dirs (snd (delete_volume (Some sample_app) ''a1'' ''v1'' sample_disk)))"
proof -
  have "delete_volume (Some sample_app) ''a1'' ''v1'' sample_disk =
      (Vol_deleted, snd (delete_volume (Some sample_app) ''a1'' ''v1'' sample_disk))"
    by code_simp
  note d = delete_volume_spares_others [OF this]
  have rows: "vs_volumes sample_disk = [sample_row ''v1'' ''data'' ''/data'' 5, sample_row ''v2'' ''cache'' ''/var/cache'' 6]"
    unfolding sample_disk_def listRuntimeAppVolumeMounts_def by (simp add: Let_def sample_volumes_rows)
  have plain: "plain_segment ''a1'' \<and> plain_segment ''v1'' \<and> plain_segment ''v2''" by (simp add: plain_segment_def)
  have r: "\<forall>v\<in>set (vs_volumes sample_disk). plain_segment (vr_app_id v) \<and> plain_segment (vr_id v)"
    using plain by (simp add: rows sample_row_def)
  have "sample_row ''v2'' ''cache'' ''/var/cache'' 6 \<in> set (vs_volumes (snd (delete_volume (Some sample_app) ''a1'' ''v1'' sample_disk)))"
    using d [OF _ _ r] plain by (simp add: rows sample_row_def)
  moreover have "appVolumeHostPath ''a1'' ''v2'' \<in> set (vs_dirs sample_disk)" by code_simp
  ultimately show ?thesis using d [OF _ _ r] plain by (force simp: sample_row_def)
qed

end
