(* ===== verification/Project_Networks.thy ===== *)
theory Project_Networks
  imports Agent_Validator
begin

text \<open>
  Networks of projects (\<^verbatim>\<open>services/projects.ts\<close>), the attachment of Caddy to them
  (\<^verbatim>\<open>caddy/attachment.ts\<close>) and the classification of agent errors
  (\<^verbatim>\<open>agent/errors.ts\<close>). Calls to the agent are recorded with their replies; an
  environment, which may depend on all earlier calls, gives the replies. Log lines
  are left out.
\<close>

section \<open>Errors of the agent\<close>

text \<open>A failed call throws an \<^verbatim>\<open>AgentError\<close> with its gRPC code and details, or some other error with its message.\<close>

datatype thrown = Agent_error nat string | Other_error string

definition CODE_MESSAGES :: "(nat \<times> string) list" where
  "CODE_MESSAGES =
     [(14, ''agent injoignable''),
      (7, ''action refus'' @ [CHR 0xE9] @ ''e par allowlist''),
      (5, ''ressource introuvable''),
      (6, ''la ressource existe d'' @ [CHR 0xE9] @ ''j'' @ [CHR 0xE0]),
      (4, ''d'' @ [CHR 0xE9] @ ''lai d'' @ [CHR 0x27] @ ''attente d'' @ [CHR 0xE9] @ ''pass'' @ [CHR 0xE9]),
      (8, ''ressources '' @ [CHR 0xE9] @ ''puis'' @ [CHR 0xE9] @ ''es''),
      (13, ''erreur interne de l'' @ [CHR 0x27] @ ''agent''),
      (16, ''authentification requise''),
      (12, ''RPC non impl'' @ [CHR 0xE9] @ ''ment'' @ [CHR 0xE9] @ ''e''),
      (1, ''appel annul'' @ [CHR 0xE9])]"

definition agent_message :: "nat \<Rightarrow> string \<Rightarrow> string" where
  "agent_message code details =
     ''[agent] '' @ (case map_of CODE_MESSAGES code of Some m \<Rightarrow> m | None \<Rightarrow> ''code gRPC '' @ nat_str code)
     @ (if details = [] then [] else '' : '' @ details)"

fun message_of :: "thrown \<Rightarrow> string" where
  "message_of (Agent_error code details) = agent_message code details"
| "message_of (Other_error msg) = msg"

text \<open>An error that is no \<^verbatim>\<open>AgentError\<close> becomes one with the code \<^verbatim>\<open>INTERNAL\<close>; \<^verbatim>\<open>String(err)\<close> puts \<^verbatim>\<open>Error: \<close> in front.\<close>

fun toAgentError :: "thrown \<Rightarrow> nat \<times> string" where
  "toAgentError (Agent_error code details) = (code, details)"
| "toAgentError (Other_error msg) = (13, ''Error: '' @ msg)"

definition already_exists_error :: "nat \<times> string \<Rightarrow> bool" where
  "already_exists_error e \<longleftrightarrow> fst e = 6 \<or> fst e = 13 \<and> str_includes ''already exists'' (to_lower (snd e))"

definition not_found_error :: "nat \<times> string \<Rightarrow> bool" where
  "not_found_error e \<longleftrightarrow> fst e = 5
     \<or> fst e = 13 \<and> list_ex (\<lambda>p. str_includes p (to_lower (snd e))) [''no such'', ''not found'', ''is not connected'']"

section \<open>State and calls\<close>

record project_net =
  pn_id :: ident
  pn_network_name :: "string option"

record database_net =
  dn_id :: ident
  dn_project_id :: ident
  dn_host :: "string option"
  dn_managed :: bool
  dn_container_id :: "string option"

datatype net_call =
  Network_create network_create_request "(string \<times> string) list"
| Network_connect string string "string list"
| Network_disconnect string string bool
| Network_remove string
| List_containers

datatype net_reply =
  N_ok
| N_containers "(string \<times> string) list"
| N_thrown thrown

type_synonym net_history = "(net_call \<times> net_reply) list"

type_synonym net_environment = "net_history \<Rightarrow> net_call \<Rightarrow> net_reply"

record net_state =
  nw_projects :: "project_net table"
  nw_databases :: "database_net table"
  nw_apps :: "app_row table"
  nw_caddy_id :: "string option"
  nw_trace :: net_history

type_synonym 'a net_run = "(net_state, thrown, 'a) task"

definition net_ask :: "net_environment \<Rightarrow> net_call \<Rightarrow> net_reply net_run" where
  "net_ask env c st = (let r = env (nw_trace st) c in (Inr r, st\<lparr>nw_trace := nw_trace st @ [(c, r)]\<rparr>))"

text \<open>A call for its effect: an error is thrown.\<close>

definition net_do :: "net_environment \<Rightarrow> net_call \<Rightarrow> unit net_run" where
  "net_do env c = t_bind (net_ask env c) (\<lambda>r. case r of N_thrown e \<Rightarrow> t_throw e | _ \<Rightarrow> t_return ())"

section \<open>Names\<close>

definition projectNetworkName :: "ident \<Rightarrow> string" where
  "projectNetworkName projectId = ''ploydok-proj-'' @ to_lower projectId"

definition projectSwarmNetworkName :: "ident \<Rightarrow> string" where
  "projectSwarmNetworkName projectId = ''ploydok-swarm-proj-'' @ to_lower projectId"

definition networksForApp :: "string \<Rightarrow> string list" where
  "networksForApp projectNetwork = [projectNetwork]"

section \<open>Networks of a project\<close>

definition project_net_by_id :: "ident \<Rightarrow> net_state \<Rightarrow> project_net option" where
  "project_net_by_id i st = select_first (\<lambda>p. pn_id p = i) (nw_projects st)"

definition create_message_is_exists :: "thrown \<Rightarrow> bool" where
  "create_message_is_exists e \<longleftrightarrow>
     str_includes ''already exists'' (message_of e) \<or> str_includes ''ALREADY_EXISTS'' (message_of e)"

definition create_network :: "net_environment \<Rightarrow> network_create_request \<Rightarrow> (string \<times> string) list \<Rightarrow> unit net_run" where
  "create_network env req labels =
     t_catch (net_do env (Network_create req labels))
       (\<lambda>e. if create_message_is_exists e then t_return () else t_throw e)"

definition ensureProjectNetwork :: "net_environment \<Rightarrow> ident \<Rightarrow> string net_run" where
  "ensureProjectNetwork env projectId =
     t_bind (t_get (project_net_by_id projectId)) (\<lambda>row.
     case row of
       None \<Rightarrow> t_throw (Other_error (''Project not found: '' @ projectId))
     | Some p \<Rightarrow>
         if truthy (pn_network_name p) then t_return (the (pn_network_name p))
         else
           let name = projectNetworkName projectId in
           t_bind (create_network env \<lparr>an_name = name, an_driver = ''bridge'', an_attachable = False\<rparr>
               [(''ploydok.kind'', ''project-network''), (''ploydok.project_id'', projectId)]) (\<lambda>_.
           t_bind (t_update (\<lambda>st. st\<lparr>nw_projects :=
               update_where (\<lambda>q. pn_id q = projectId) (\<lambda>q. q\<lparr>pn_network_name := Some name\<rparr>) (nw_projects st)\<rparr>)) (\<lambda>_.
           t_return name)))"

definition ensureProjectSwarmNetwork :: "net_environment \<Rightarrow> ident \<Rightarrow> string net_run" where
  "ensureProjectSwarmNetwork env projectId =
     t_bind (t_get (project_net_by_id projectId)) (\<lambda>row.
     case row of
       None \<Rightarrow> t_throw (Other_error (''Project not found: '' @ projectId))
     | Some _ \<Rightarrow>
         let name = projectSwarmNetworkName projectId in
         t_bind (create_network env \<lparr>an_name = name, an_driver = ''overlay'', an_attachable = True\<rparr>
             [(''ploydok.kind'', ''project-swarm-network''), (''ploydok.project_id'', projectId)]) (\<lambda>_.
         t_return name))"

section \<open>Databases on the swarm network\<close>

definition connect_is_repeat :: "thrown \<Rightarrow> bool" where
  "connect_is_repeat e \<longleftrightarrow>
     (case e of Agent_error code details \<Rightarrow> already_exists_error (code, details) | Other_error _ \<Rightarrow> False)
     \<or> list_ex (\<lambda>p. str_includes p (to_lower (message_of e)))
         [''already exists'', ''already connected'', ''is already attached'']"

record attach_counts =
  ac_scanned :: nat
  ac_attached :: nat
  ac_already :: nat

fun attach_databases :: "net_environment \<Rightarrow> string \<Rightarrow> database_net list \<Rightarrow> attach_counts \<Rightarrow> attach_counts net_run" where
  "attach_databases env net [] res = t_return res"
| "attach_databases env net (d # ds) res =
     (if \<not> truthy (dn_container_id d) then attach_databases env net ds res
      else
        t_bind (net_ask env (Network_connect net (the (dn_container_id d))
            (if truthy (dn_host d) then [the (dn_host d)] else []))) (\<lambda>r.
        case r of
          N_thrown e \<Rightarrow>
            if connect_is_repeat e then attach_databases env net ds (res\<lparr>ac_already := ac_already res + 1\<rparr>)
            else t_throw e
        | _ \<Rightarrow> attach_databases env net ds (res\<lparr>ac_attached := ac_attached res + 1\<rparr>)))"

definition attachable_databases :: "ident \<Rightarrow> net_state \<Rightarrow> database_net list" where
  "attachable_databases projectId st =
     select_where (\<lambda>d. dn_project_id d = projectId \<and> dn_managed d \<and> dn_container_id d \<noteq> None) (nw_databases st)"

definition ensureProjectDatabasesOnSwarmNetwork :: "net_environment \<Rightarrow> ident \<Rightarrow> string \<Rightarrow> attach_counts net_run" where
  "ensureProjectDatabasesOnSwarmNetwork env projectId swarmNetwork =
     t_bind (t_get (attachable_databases projectId)) (\<lambda>rows.
     attach_databases env swarmNetwork rows \<lparr>ac_scanned = length rows, ac_attached = 0, ac_already = 0\<rparr>)"

record reconcile_counts =
  rc_projects :: nat
  rc_scanned :: nat
  rc_attached :: nat
  rc_already :: nat
  rc_failed :: nat

fun reconcile_projects :: "net_environment \<Rightarrow> ident list \<Rightarrow> reconcile_counts \<Rightarrow> reconcile_counts net_run" where
  "reconcile_projects env [] res = t_return res"
| "reconcile_projects env (p # ps) res =
     t_bind
       (t_catch
          (t_bind (ensureProjectSwarmNetwork env p) (\<lambda>net.
           t_bind (ensureProjectDatabasesOnSwarmNetwork env p net) (\<lambda>n.
           t_return (res\<lparr>rc_scanned := rc_scanned res + ac_scanned n,
             rc_attached := rc_attached res + ac_attached n,
             rc_already := rc_already res + ac_already n\<rparr>))))
          (\<lambda>_. t_return (res\<lparr>rc_failed := rc_failed res + 1\<rparr>)))
       (\<lambda>res'. reconcile_projects env ps res')"

text \<open>\<^verbatim>\<open>Array.from(new Set(xs))\<close> keeps the first of equal elements.\<close>

fun first_occurrences :: "'a list \<Rightarrow> 'a list" where
  "first_occurrences [] = []"
| "first_occurrences (x # xs) = x # filter (\<lambda>y. y \<noteq> x) (first_occurrences xs)"

definition reconcileSwarmProjectNetworks :: "net_environment \<Rightarrow> reconcile_counts net_run" where
  "reconcileSwarmProjectNetworks env =
     t_bind (t_get (\<lambda>st. first_occurrences (map a_project_id
       (select_where (\<lambda>a. a_runtime_mode a = Rt_swarm \<and> a_status a = A_running) (nw_apps st))))) (\<lambda>ids.
     reconcile_projects env ids
       \<lparr>rc_projects = length ids, rc_scanned = 0, rc_attached = 0, rc_already = 0, rc_failed = 0\<rparr>)"

section \<open>Caddy\<close>

definition CADDY_CONTAINER_NAMES :: "string list" where
  "CADDY_CONTAINER_NAMES = [''ploydok-caddy'', ''ploydok-caddy-1'']"

fun find_caddy :: "string list \<Rightarrow> (string \<times> string) list \<Rightarrow> string option" where
  "find_caddy [] containers = None"
| "find_caddy (n # ns) containers =
     (case find (\<lambda>c. snd c = n \<or> snd c = CHR ''/'' # n) containers of
        Some c \<Rightarrow> Some (fst c)
      | None \<Rightarrow> find_caddy ns containers)"

definition caddy_missing :: thrown where
  "caddy_missing = Other_error (''caddy container not found (expected one of ploydok-caddy, ploydok-caddy-1). Is ''
     @ [CHR 0x27] @ ''make infra-up'' @ [CHR 0x27] @ '' running?'')"

definition resolveCaddyContainerId :: "net_environment \<Rightarrow> string net_run" where
  "resolveCaddyContainerId env =
     t_bind (t_get nw_caddy_id) (\<lambda>cached.
     if truthy cached then t_return (the cached)
     else
       t_bind (net_ask env List_containers) (\<lambda>r.
       case r of
         N_thrown e \<Rightarrow> t_throw e
       | N_ok \<Rightarrow> t_throw caddy_missing
       | N_containers containers \<Rightarrow>
           (case find_caddy CADDY_CONTAINER_NAMES containers of
              Some i \<Rightarrow> t_bind (t_update (\<lambda>st. st\<lparr>nw_caddy_id := Some i\<rparr>)) (\<lambda>_. t_return i)
            | None \<Rightarrow> t_throw caddy_missing)))"

definition resetCaddyIdCache :: "unit net_run" where
  "resetCaddyIdCache = t_update (\<lambda>st. st\<lparr>nw_caddy_id := None\<rparr>)"

definition ensureCaddyOnProjectNetwork :: "net_environment \<Rightarrow> string \<Rightarrow> unit net_run" where
  "ensureCaddyOnProjectNetwork env projectNetwork =
     t_bind (resolveCaddyContainerId env) (\<lambda>caddyId.
     t_catch (net_do env (Network_connect projectNetwork caddyId []))
       (\<lambda>err. let e = toAgentError err in
          if already_exists_error e then t_return ()
          else if not_found_error e \<and> str_includes ''container'' (to_lower (snd e)) then
            t_bind resetCaddyIdCache (\<lambda>_.
            t_bind (resolveCaddyContainerId env) (\<lambda>freshId.
            net_do env (Network_connect projectNetwork freshId [])))
          else t_throw err))"

definition detachCaddyFromProjectNetwork :: "net_environment \<Rightarrow> string \<Rightarrow> unit net_run" where
  "detachCaddyFromProjectNetwork env projectNetwork =
     t_bind (t_catch (t_bind (resolveCaddyContainerId env) (\<lambda>i. t_return (Some i))) (\<lambda>_. t_return None))
       (\<lambda>caddyId. case caddyId of
          None \<Rightarrow> t_return ()
        | Some i \<Rightarrow>
            t_catch (net_do env (Network_disconnect projectNetwork i True))
              (\<lambda>err. if not_found_error (toAgentError err) then t_return () else t_throw err))"

record caddy_counts =
  cc_attached :: nat
  cc_skipped :: nat
  cc_failed :: nat

fun attach_caddy :: "net_environment \<Rightarrow> string list \<Rightarrow> caddy_counts \<Rightarrow> caddy_counts net_run" where
  "attach_caddy env [] res = t_return res"
| "attach_caddy env (n # ns) res =
     (if n = [] then attach_caddy env ns (res\<lparr>cc_skipped := cc_skipped res + 1\<rparr>)
      else
        t_bind
          (t_catch (t_bind (ensureCaddyOnProjectNetwork env n) (\<lambda>_. t_return (res\<lparr>cc_attached := cc_attached res + 1\<rparr>)))
             (\<lambda>_. t_return (res\<lparr>cc_failed := cc_failed res + 1\<rparr>)))
          (\<lambda>res'. attach_caddy env ns res'))"

definition live_networks :: "net_state \<Rightarrow> string list" where
  "live_networks st = first_occurrences
     [n. p \<leftarrow> nw_projects st, a \<leftarrow> nw_apps st, a_project_id a = pn_id p \<and> a_status a \<in> {A_running, A_restarting},
         n \<leftarrow> (case pn_network_name p of None \<Rightarrow> [] | Some m \<Rightarrow> [m])]"

definition reconcileCaddyAttachments :: "net_environment \<Rightarrow> caddy_counts net_run" where
  "reconcileCaddyAttachments env =
     t_bind (t_get live_networks) (\<lambda>names.
     attach_caddy env names \<lparr>cc_attached = 0, cc_skipped = 0, cc_failed = 0\<rparr>)"

section \<open>What happens to the networks\<close>

text \<open>
  The deploys (\<^verbatim>\<open>ensured\<close>, \<^verbatim>\<open>attached\<close>, \<^verbatim>\<open>on_swarm\<close>), the two reconcilers at boot, the
  end of a project network, new projects, and whatever else changes apps and databases.
\<close>

inductive net_step :: "net_environment \<Rightarrow> net_state \<Rightarrow> net_state \<Rightarrow> bool" for env where
  ensured: "net_step env st (snd (ensureProjectNetwork env p st))"
| attached: "net_step env st (snd (t_bind (ensureProjectNetwork env p) (ensureCaddyOnProjectNetwork env) st))"
| on_swarm: "net_step env st (snd (t_bind (ensureProjectSwarmNetwork env p)
    (\<lambda>n. t_bind (ensureProjectDatabasesOnSwarmNetwork env p n) (\<lambda>_. ensureCaddyOnProjectNetwork env n)) st))"
| swarm_reconciled: "net_step env st (snd (reconcileSwarmProjectNetworks env st))"
| caddy_reconciled: "net_step env st (snd (reconcileCaddyAttachments env st))"
| detached: "q \<in> set (nw_projects st) \<Longrightarrow> pn_network_name q = Some n \<Longrightarrow>
    net_step env st (snd (detachCaddyFromProjectNetwork env n st))"
| cleared: "net_step env st (st\<lparr>nw_projects :=
    update_where (\<lambda>q. pn_id q = p) (\<lambda>q. q\<lparr>pn_network_name := None\<rparr>) (nw_projects st)\<rparr>)"
| project_added: "net_step env st (st\<lparr>nw_projects := nw_projects st @ [\<lparr>pn_id = p, pn_network_name = None\<rparr>]\<rparr>)"
| others_changed: "net_step env st (st\<lparr>nw_databases := ds, nw_apps := as\<rparr>)"

definition net_init :: "net_state \<Rightarrow> bool" where
  "net_init st \<longleftrightarrow> nw_projects st = [] \<and> nw_caddy_id st = None \<and> nw_trace st = []"

text \<open>The allowlist of the agent on these calls.\<close>

fun agent_accepts :: "net_call \<Rightarrow> bool" where
  "agent_accepts (Network_create req labels) \<longleftrightarrow> validate_network_create req = None"
| "agent_accepts (Network_connect n c aliases) \<longleftrightarrow> validate_network_connect n c = None"
| "agent_accepts (Network_disconnect n c force) \<longleftrightarrow> validate_network_disconnect n c = None"
| "agent_accepts (Network_remove n) \<longleftrightarrow> validate_network_remove n = None"
| "agent_accepts List_containers \<longleftrightarrow> True"

section \<open>Runs that keep an invariant\<close>

text \<open>
  A run is good when, from a state in which every stored network name is the one
  derived from the project id and the cached id of Caddy is not empty, it makes
  only calls the agent accepts, keeps that property, and returns a result that satisfies \<open>Q\<close>.
\<close>

definition net_inv :: "net_state \<Rightarrow> bool" where
  "net_inv st \<longleftrightarrow>
     (\<forall>p\<in>set (nw_projects st). pn_network_name p = None \<or> pn_network_name p = Some (projectNetworkName (pn_id p)))
     \<and> nw_caddy_id st \<noteq> Some []
     \<and> (\<forall>e\<in>set (nw_trace st). agent_accepts (fst e))"

definition good_run :: "'a net_run \<Rightarrow> ('a \<Rightarrow> bool) \<Rightarrow> bool" where
  "good_run m Q \<longleftrightarrow> (\<forall>st. net_inv st \<longrightarrow>
     net_inv (snd (m st)) \<and> (\<exists>xs. nw_trace (snd (m st)) = nw_trace st @ xs)
     \<and> (case fst (m st) of Inl _ \<Rightarrow> True | Inr x \<Rightarrow> Q x))"

definition lists_real_ids :: "net_environment \<Rightarrow> bool" where
  "lists_real_ids env \<longleftrightarrow> (\<forall>h cs. env h List_containers = N_containers cs \<longrightarrow> (\<forall>c\<in>set cs. fst c \<noteq> []))"

lemma good_return: "Q x \<Longrightarrow> good_run (t_return x) Q"
  by (simp add: good_run_def t_return_def)

lemma good_throw: "good_run (t_throw e) Q"
  by (simp add: good_run_def t_throw_def)

lemma good_bind:
  assumes "good_run m R" and "\<And>x. R x \<Longrightarrow> good_run (f x) Q" shows "good_run (t_bind m f) Q"
  unfolding good_run_def
proof (intro allI impI)
  fix st assume inv: "net_inv st"
  obtain r st1 where m: "m st = (r, st1)" by (cases "m st")
  from assms(1) inv obtain xs where 1: "net_inv st1" "nw_trace st1 = nw_trace st @ xs"
    and R: "case r of Inl _ \<Rightarrow> True | Inr x \<Rightarrow> R x"
    unfolding good_run_def by (metis fst_conv m snd_conv)
  show "net_inv (snd (t_bind m f st)) \<and> (\<exists>xs. nw_trace (snd (t_bind m f st)) = nw_trace st @ xs)
     \<and> (case fst (t_bind m f st) of Inl _ \<Rightarrow> True | Inr x \<Rightarrow> Q x)"
  proof (cases r)
    case (Inl e)
    then show ?thesis using 1 by (simp add: t_bind_def m)
  next
    case (Inr x)
    with R assms(2) have "good_run (f x) Q" by simp
    with 1 obtain ys where "net_inv (snd (f x st1))" "nw_trace (snd (f x st1)) = nw_trace st1 @ ys"
      "case fst (f x st1) of Inl _ \<Rightarrow> True | Inr x \<Rightarrow> Q x" unfolding good_run_def by blast
    then show ?thesis using 1 Inr by (simp add: t_bind_def m)
  qed
qed

lemma good_catch:
  assumes "good_run m Q" and "\<And>e. good_run (h e) Q" shows "good_run (t_catch m h) Q"
  unfolding good_run_def
proof (intro allI impI)
  fix st assume inv: "net_inv st"
  obtain r st1 where m: "m st = (r, st1)" by (cases "m st")
  from assms(1) inv obtain xs where 1: "net_inv st1" "nw_trace st1 = nw_trace st @ xs"
    and R: "case r of Inl _ \<Rightarrow> True | Inr x \<Rightarrow> Q x"
    unfolding good_run_def by (metis fst_conv m snd_conv)
  show "net_inv (snd (t_catch m h st)) \<and> (\<exists>xs. nw_trace (snd (t_catch m h st)) = nw_trace st @ xs)
     \<and> (case fst (t_catch m h st) of Inl _ \<Rightarrow> True | Inr x \<Rightarrow> Q x)"
  proof (cases r)
    case (Inl e)
    from assms(2) [of e] 1 obtain ys where "net_inv (snd (h e st1))" "nw_trace (snd (h e st1)) = nw_trace st1 @ ys"
      "case fst (h e st1) of Inl _ \<Rightarrow> True | Inr x \<Rightarrow> Q x" unfolding good_run_def by blast
    then show ?thesis using 1 Inl by (simp add: t_catch_def m)
  next
    case (Inr x)
    then show ?thesis using 1 R by (simp add: t_catch_def m)
  qed
qed

lemma good_ask: "agent_accepts c \<Longrightarrow> (\<And>h. Q (env h c)) \<Longrightarrow> good_run (net_ask env c) Q"
  by (auto simp: good_run_def net_ask_def net_inv_def Let_def)

lemma good_do: "agent_accepts c \<Longrightarrow> good_run (net_do env c) (\<lambda>_. True)"
  unfolding net_do_def
  by (rule good_bind [where R = "\<lambda>_. True"]) (auto intro: good_ask good_throw good_return split: net_reply.splits)

lemma good_get: "(\<And>st. net_inv st \<Longrightarrow> Q (f st)) \<Longrightarrow> good_run (t_get f) Q"
  by (simp add: good_run_def t_get_def)

lemma good_update:
  "(\<And>st. net_inv st \<Longrightarrow> net_inv (f st) \<and> nw_trace (f st) = nw_trace st) \<Longrightarrow> good_run (t_update f) (\<lambda>_. True)"
  by (auto simp: good_run_def t_update_def)

lemma good_weaken: "good_run m R \<Longrightarrow> (\<And>x. R x \<Longrightarrow> Q x) \<Longrightarrow> good_run m Q"
  by (auto simp: good_run_def split: sum.splits)

abbreviation platform_name :: "string \<Rightarrow> bool" where
  "platform_name n \<equiv> starts_with ''ploydok-'' n"

lemma network_names_platform [simp]:
  "platform_name (projectNetworkName p)" "platform_name (projectSwarmNetworkName p)"
  by (simp_all add: projectNetworkName_def projectSwarmNetworkName_def starts_with_def)

lemma accepts_connect: "platform_name n \<Longrightarrow> c \<noteq> [] \<Longrightarrow> agent_accepts (Network_connect n c aliases)"
  by (auto simp: validate_network_connect_def validate_network_remove_def starts_with_def)

lemma accepts_disconnect: "platform_name n \<Longrightarrow> c \<noteq> [] \<Longrightarrow> agent_accepts (Network_disconnect n c force)"
  by (auto simp: validate_network_disconnect_def validate_network_remove_def starts_with_def)

lemma good_create:
  "validate_network_create req = None \<Longrightarrow> good_run (create_network env req labels) (\<lambda>_. True)"
  unfolding create_network_def by (auto intro!: good_catch good_do good_return good_throw)

lemma bridge_accepted: "platform_name n \<Longrightarrow>
    validate_network_create \<lparr>an_name = n, an_driver = ''bridge'', an_attachable = False\<rparr> = None"
  by (simp add: validate_network_create_def)

lemma overlay_accepted: "platform_name n \<Longrightarrow>
    validate_network_create \<lparr>an_name = n, an_driver = ''overlay'', an_attachable = True\<rparr> = None"
  by (simp add: validate_network_create_def)

lemma stored_name:
  assumes "net_inv st" "project_net_by_id i st = Some p"
  shows "truthy (pn_network_name p) \<Longrightarrow> the (pn_network_name p) = projectNetworkName i"
  using assms by (auto simp: net_inv_def project_net_by_id_def dest!: select_first_Some)

lemma good_ensure: "good_run (ensureProjectNetwork env i) (\<lambda>n. n = projectNetworkName i)"
  unfolding ensureProjectNetwork_def
proof (rule good_bind [where R = "\<lambda>row. case row of None \<Rightarrow> True
    | Some p \<Rightarrow> truthy (pn_network_name p) \<longrightarrow> the (pn_network_name p) = projectNetworkName i"])
  show "good_run (t_get (project_net_by_id i)) (\<lambda>row. case row of None \<Rightarrow> True
      | Some p \<Rightarrow> truthy (pn_network_name p) \<longrightarrow> the (pn_network_name p) = projectNetworkName i)"
    by (rule good_get) (auto split: option.splits dest: stored_name)
  have upd: "good_run (t_update (\<lambda>st. st\<lparr>nw_projects := update_where (\<lambda>q. pn_id q = i)
      (\<lambda>q. q\<lparr>pn_network_name := Some (projectNetworkName i)\<rparr>) (nw_projects st)\<rparr>)) (\<lambda>_. True)"
    by (rule good_update) (auto simp: net_inv_def set_update_where)
  fix row :: "project_net option"
  assume row: "case row of None \<Rightarrow> True | Some p \<Rightarrow> truthy (pn_network_name p) \<longrightarrow> the (pn_network_name p) = projectNetworkName i"
  show "good_run (case row of None \<Rightarrow> t_throw (Other_error (''Project not found: '' @ i))
     | Some p \<Rightarrow> if truthy (pn_network_name p) then t_return (the (pn_network_name p))
         else let name = projectNetworkName i in
           t_bind (create_network env \<lparr>an_name = name, an_driver = ''bridge'', an_attachable = False\<rparr>
               [(''ploydok.kind'', ''project-network''), (''ploydok.project_id'', i)]) (\<lambda>_.
           t_bind (t_update (\<lambda>st. st\<lparr>nw_projects :=
               update_where (\<lambda>q. pn_id q = i) (\<lambda>q. q\<lparr>pn_network_name := Some name\<rparr>) (nw_projects st)\<rparr>)) (\<lambda>_.
           t_return name))) (\<lambda>n. n = projectNetworkName i)"
  proof (cases row)
    case (Some p)
    show ?thesis
    proof (cases "truthy (pn_network_name p)")
      case True
      then show ?thesis using row Some by (simp add: good_return)
    next
      case False
      then show ?thesis using Some upd
        by (simp add: Let_def) (intro good_bind [OF good_create [OF bridge_accepted]] good_bind [OF upd] good_return; simp)
    qed
  qed (simp add: good_throw)
qed

lemma good_ensure_swarm: "good_run (ensureProjectSwarmNetwork env i) (\<lambda>n. n = projectSwarmNetworkName i)"
  unfolding ensureProjectSwarmNetwork_def Let_def
  by (rule good_bind [where R = "\<lambda>_. True"])
    (auto intro!: good_get good_throw good_return good_bind [OF good_create [OF overlay_accepted]] split: option.splits)

lemma good_attach: "platform_name n \<Longrightarrow> good_run (attach_databases env n ds res) (\<lambda>_. True)"
proof (induction ds arbitrary: res)
  case (Cons d ds)
  have "agent_accepts (Network_connect n (the (dn_container_id d)) al)" if "truthy (dn_container_id d)" for al
    using that Cons.prems by (intro accepts_connect) (cases "dn_container_id d"; simp)+
  then show ?case using Cons
    by (auto intro!: good_bind [OF good_ask [where Q = "\<lambda>_. True"]] good_throw split: net_reply.splits)
qed (simp add: good_return)

lemma good_databases: "platform_name n \<Longrightarrow> good_run (ensureProjectDatabasesOnSwarmNetwork env i n) (\<lambda>_. True)"
  unfolding ensureProjectDatabasesOnSwarmNetwork_def
  by (rule good_bind [where R = "\<lambda>_. True"]) (auto intro: good_get good_attach)

lemma good_reconcile_projects: "good_run (reconcile_projects env ps res) (\<lambda>_. True)"
proof (induction ps arbitrary: res)
  case (Cons p ps)
  show ?case unfolding reconcile_projects.simps
    by (rule good_bind [OF good_catch [OF good_bind [OF good_ensure_swarm good_bind [OF good_databases]]] Cons.IH])
      (auto intro: good_return)
qed (simp add: good_return)

lemma good_reconcile: "good_run (reconcileSwarmProjectNetworks env) (\<lambda>_. True)"
  unfolding reconcileSwarmProjectNetworks_def
  by (rule good_bind [where R = "\<lambda>_. True"]) (auto intro: good_get good_reconcile_projects)

lemma find_caddy_nonempty: "find_caddy ns cs = Some i \<Longrightarrow> \<forall>c\<in>set cs. fst c \<noteq> [] \<Longrightarrow> i \<noteq> []"
proof (induction ns)
  case (Cons n ns)
  show ?case
  proof (cases "find (\<lambda>c. snd c = n \<or> snd c = CHR ''/'' # n) cs")
    case (Some c)
    then have "c \<in> set cs" by (auto simp: find_Some_iff)
    with Some Cons.prems show ?thesis by auto
  qed (use Cons in simp)
qed simp

lemma good_cache_id:
  assumes "find_caddy ns cs = Some i" "\<forall>c\<in>set cs. fst c \<noteq> []"
  shows "good_run (t_bind (t_update (\<lambda>st. st\<lparr>nw_caddy_id := Some i\<rparr>)) (\<lambda>_. t_return i)) (\<lambda>i. i \<noteq> [])"
  using find_caddy_nonempty [OF assms]
  by (intro good_bind [where R = "\<lambda>_. True"] good_update good_return) (simp_all add: net_inv_def)

lemma good_list:
  "lists_real_ids env \<Longrightarrow> good_run (net_ask env List_containers)
     (\<lambda>r. \<forall>cs. r = N_containers cs \<longrightarrow> (\<forall>c\<in>set cs. fst c \<noteq> []))"
  by (rule good_ask) (auto simp: lists_real_ids_def)

lemma good_resolve:
  assumes "lists_real_ids env" shows "good_run (resolveCaddyContainerId env) (\<lambda>i. i \<noteq> [])"
  unfolding resolveCaddyContainerId_def
proof (rule good_bind [where R = "\<lambda>c. c \<noteq> Some []"])
  show "good_run (t_get nw_caddy_id) (\<lambda>c. c \<noteq> Some [])" by (rule good_get) (simp add: net_inv_def)
  fix cached :: "string option" assume c: "cached \<noteq> Some []"
  show "good_run (if truthy cached then t_return (the cached)
     else t_bind (net_ask env List_containers) (\<lambda>r.
       case r of N_ok \<Rightarrow> t_throw caddy_missing
       | N_containers containers \<Rightarrow>
           (case find_caddy CADDY_CONTAINER_NAMES containers of
              None \<Rightarrow> t_throw caddy_missing
            | Some i \<Rightarrow> t_bind (t_update (\<lambda>st. st\<lparr>nw_caddy_id := Some i\<rparr>)) (\<lambda>_. t_return i))
       | N_thrown e \<Rightarrow> t_throw e)) (\<lambda>i. i \<noteq> [])"
  proof (cases "truthy cached")
    case True
    with c show ?thesis by (cases cached) (auto intro: good_return)
  next
    case False
    have "good_run (case r of N_ok \<Rightarrow> t_throw caddy_missing
       | N_containers containers \<Rightarrow>
           (case find_caddy CADDY_CONTAINER_NAMES containers of
              None \<Rightarrow> t_throw caddy_missing
            | Some i \<Rightarrow> t_bind (t_update (\<lambda>st. st\<lparr>nw_caddy_id := Some i\<rparr>)) (\<lambda>_. t_return i))
       | N_thrown e \<Rightarrow> t_throw e) (\<lambda>i. i \<noteq> [])"
      if "\<forall>cs. r = N_containers cs \<longrightarrow> (\<forall>c\<in>set cs. fst c \<noteq> [])" for r
      using that good_cache_id by (cases r) (simp_all add: good_throw split: option.split)
    with False show ?thesis by (simp only: if_False) (rule good_bind [OF good_list [OF assms]])
  qed
qed

lemma good_caddy:
  assumes "lists_real_ids env" and "platform_name n"
  shows "good_run (ensureCaddyOnProjectNetwork env n) (\<lambda>_. True)"
proof -
  have reset: "good_run resetCaddyIdCache (\<lambda>_. True)"
    unfolding resetCaddyIdCache_def by (rule good_update) (simp add: net_inv_def)
  have con: "good_run (net_do env (Network_connect n c [])) (\<lambda>_. True)" if "c \<noteq> []" for c
    by (rule good_do) (rule accepts_connect [OF assms(2) that])
  show ?thesis unfolding ensureCaddyOnProjectNetwork_def
    by (rule good_bind [OF good_resolve [OF assms(1)] good_catch [OF con]])
      (auto simp: Let_def intro!: good_return good_throw good_bind [OF reset] good_bind [OF good_resolve [OF assms(1)]] con)
qed

lemma good_detach:
  assumes "lists_real_ids env" and "platform_name n"
  shows "good_run (detachCaddyFromProjectNetwork env n) (\<lambda>_. True)"
  unfolding detachCaddyFromProjectNetwork_def
proof (rule good_bind [where R = "\<lambda>c. c \<noteq> Some []"])
  show "good_run (t_catch (t_bind (resolveCaddyContainerId env) (\<lambda>i. t_return (Some i))) (\<lambda>_. t_return None))
      (\<lambda>c. c \<noteq> Some [])"
    by (intro good_catch good_bind [OF good_resolve [OF assms(1)]] good_return) simp_all
  fix c :: "string option" assume "c \<noteq> Some []"
  then show "good_run (case c of None \<Rightarrow> t_return ()
      | Some i \<Rightarrow> t_catch (net_do env (Network_disconnect n i True))
            (\<lambda>err. if not_found_error (toAgentError err) then t_return () else t_throw err)) (\<lambda>_. True)"
    using accepts_disconnect [OF assms(2)]
    by (auto intro!: good_return good_catch good_throw good_do split: option.splits)
qed

lemma good_attach_caddy:
  "lists_real_ids env \<Longrightarrow> \<forall>n\<in>set ns. platform_name n \<Longrightarrow> good_run (attach_caddy env ns res) (\<lambda>_. True)"
proof (induction ns arbitrary: res)
  case (Cons n ns)
  then show ?case
    by (auto intro!: good_bind [where R = "\<lambda>_. True"] good_catch good_return good_caddy)
qed (simp add: good_return)

lemma set_first_occurrences [simp]: "set (first_occurrences xs) = set xs"
  by (induction xs) auto

lemma good_reconcile_caddy:
  assumes "lists_real_ids env" shows "good_run (reconcileCaddyAttachments env) (\<lambda>_. True)"
  unfolding reconcileCaddyAttachments_def
proof (rule good_bind [where R = "\<lambda>ns. \<forall>n\<in>set ns. platform_name n"])
  show "good_run (t_get live_networks) (\<lambda>ns. \<forall>n\<in>set ns. platform_name n)"
    by (rule good_get) (auto simp: live_networks_def net_inv_def split: option.splits)
qed (use assms in \<open>auto intro: good_attach_caddy\<close>)

lemma good_keeps: "good_run m Q \<Longrightarrow> net_inv st \<Longrightarrow> net_inv (snd (m st))"
  by (simp add: good_run_def)

lemma good_result: "good_run m Q \<Longrightarrow> net_inv st \<Longrightarrow> m st = (Inr x, st') \<Longrightarrow> Q x"
  by (auto simp: good_run_def split: sum.splits)

lemma net_inv_step:
  assumes "lists_real_ids env" shows "net_step env st st' \<Longrightarrow> net_inv st \<Longrightarrow> net_inv st'"
proof (induction rule: net_step.induct)
  case (attached st p)
  then show ?case
    by (intro good_keeps [OF good_bind [OF good_ensure good_caddy [OF assms]]]) simp_all
next
  case (on_swarm st p)
  then show ?case
    by (intro good_keeps [OF good_bind [OF good_ensure_swarm good_bind [OF good_databases good_caddy [OF assms]]]]) simp_all
next
  case (detached q st n)
  then have "n = projectNetworkName (pn_id q)" unfolding net_inv_def by (metis option.distinct(1) option.inject)
  then have "platform_name n" by simp
  with detached show ?case by (intro good_keeps [OF good_detach [OF assms]])
next
  case (ensured st p)
  then show ?case by (rule good_keeps [OF good_ensure])
next
  case (swarm_reconciled st)
  then show ?case by (rule good_keeps [OF good_reconcile])
next
  case (caddy_reconciled st)
  then show ?case by (rule good_keeps [OF good_reconcile_caddy [OF assms]])
qed (auto simp: net_inv_def set_update_where)

lemma net_inv_init: "net_init st \<Longrightarrow> net_inv st"
  by (simp add: net_init_def net_inv_def)

text \<open>The machine runs against any agent that lists containers with their ids.\<close>

definition honest_step :: "net_environment \<Rightarrow> net_state \<Rightarrow> net_state \<Rightarrow> bool" where
  "honest_step env st st' \<longleftrightarrow> lists_real_ids env \<and> net_step env st st'"

interpretation networks: step_machine net_init "honest_step env" net_inv for env
  by unfold_locales (auto simp: honest_step_def intro: net_inv_init net_inv_step)

section \<open>Properties\<close>

text \<open>
  C20. Apps of different projects share no network: whatever ran before, the network
  a deploy attaches its container to is the one named after the project, and two
  projects get the same network, or one of them the overlay network of the other,
  only when their ids agree up to case.
\<close>

theorem project_networks_isolated:
  assumes "reachable net_init (honest_step env) st" and "ensureProjectNetwork env p st = (Inr n, st1)"
    and "reachable net_init (honest_step env') st'" and "ensureProjectNetwork env' q st' = (Inr m, st2)"
    and "to_lower p \<noteq> to_lower q"
  shows "set (networksForApp n) \<inter> set (networksForApp m) = {}
    \<and> n \<noteq> projectSwarmNetworkName q \<and> projectSwarmNetworkName p \<noteq> projectSwarmNetworkName q"
proof -
  have "n = projectNetworkName p"
    by (rule good_result [OF good_ensure networks.inv_reachable [OF assms(1)] assms(2)])
  moreover have "m = projectNetworkName q"
    by (rule good_result [OF good_ensure networks.inv_reachable [OF assms(3)] assms(4)])
  ultimately show ?thesis using assms(5)
    by (simp add: networksForApp_def projectNetworkName_def projectSwarmNetworkName_def)
qed

text \<open>
  The agent never refuses a network operation of the API: whatever the replies
  so far, every network creation, connection and disconnection the API has asked
  for passes the allowlist, provided Docker lists containers with their ids.
\<close>

theorem network_calls_pass_agent:
  assumes "reachable net_init (honest_step env) st" and "(c, r) \<in> set (nw_trace st)"
  shows "case c of
      Network_create req _ \<Rightarrow> validate_network_create req = None
    | Network_connect net container _ \<Rightarrow> validate_network_connect net container = None
    | Network_disconnect net container _ \<Rightarrow> validate_network_disconnect net container = None
    | Network_remove net \<Rightarrow> validate_network_remove net = None
    | List_containers \<Rightarrow> True"
proof -
  have "agent_accepts c" using networks.inv_reachable [OF assms(1)] assms(2) by (force simp: net_inv_def)
  then show ?thesis by (cases c) simp_all
qed

text \<open>An agent that grants everything, and a state with two projects, for the witnesses.\<close>

definition sample_agent :: net_environment where
  "sample_agent h c = (case c of List_containers \<Rightarrow> N_containers [(''c1'', ''/ploydok-caddy'')] | _ \<Rightarrow> N_ok)"

definition sample_networks :: net_state where
  "sample_networks = \<lparr>nw_projects = [\<lparr>pn_id = ''P1'', pn_network_name = None\<rparr>, \<lparr>pn_id = ''q2'', pn_network_name = None\<rparr>],
     nw_databases = [], nw_apps = [], nw_caddy_id = None, nw_trace = []\<rparr>"

lemma sample_agent_honest: "lists_real_ids sample_agent"
  by (simp add: lists_real_ids_def sample_agent_def)

lemma sample_networks_reachable: "reachable net_init (honest_step sample_agent) sample_networks"
proof -
  let ?st = "\<lambda>ps. \<lparr>nw_projects = ps, nw_databases = [], nw_apps = [], nw_caddy_id = None, nw_trace = []\<rparr>"
  have add: "reachable net_init (honest_step sample_agent) (?st (ps @ [\<lparr>pn_id = i, pn_network_name = None\<rparr>]))"
    if "reachable net_init (honest_step sample_agent) (?st ps)" for ps i
    using that sample_agent_honest net_step.project_added [of sample_agent "?st ps" i]
    by (intro reachable.next_state [OF that]) (simp add: honest_step_def)
  have "reachable net_init (honest_step sample_agent) (?st [])" by (rule reachable.start) (simp add: net_init_def)
  from add [OF add [OF this, of "''P1''"], of "''q2''"] show ?thesis by (simp add: sample_networks_def)
qed

theorem project_networks_isolated_witness:
  "set (networksForApp ''ploydok-proj-p1'') \<inter> set (networksForApp ''ploydok-proj-q2'') = {}"
proof -
  have "ensureProjectNetwork sample_agent ''P1'' sample_networks =
      (Inr ''ploydok-proj-p1'', snd (ensureProjectNetwork sample_agent ''P1'' sample_networks))" by code_simp
  moreover have "ensureProjectNetwork sample_agent ''q2'' sample_networks =
      (Inr ''ploydok-proj-q2'', snd (ensureProjectNetwork sample_agent ''q2'' sample_networks))" by code_simp
  moreover have "to_lower ''P1'' \<noteq> to_lower ''q2''" by code_simp
  ultimately show ?thesis
    using project_networks_isolated [OF sample_networks_reachable _ sample_networks_reachable] by blast
qed

theorem network_calls_pass_agent_witness:
  "validate_network_connect ''ploydok-proj-p1'' ''c1'' = None"
proof -
  let ?st = "snd (t_bind (ensureProjectNetwork sample_agent ''P1'') (ensureCaddyOnProjectNetwork sample_agent) sample_networks)"
  have "reachable net_init (honest_step sample_agent) ?st"
    using sample_agent_honest net_step.attached [of sample_agent sample_networks "''P1''"]
    by (intro reachable.next_state [OF sample_networks_reachable]) (simp add: honest_step_def)
  moreover have "(Network_connect ''ploydok-proj-p1'' ''c1'' [], N_ok) \<in> set (nw_trace ?st)" by code_simp
  ultimately show ?thesis using network_calls_pass_agent by fastforce
qed

end
