(* ===== verification/Runner_Requests.thy ===== *)
theory Runner_Requests
  imports App_Volumes Project_Networks
begin

text \<open>
  The message the runner sends to the agent for a new container
  (\<^verbatim>\<open>worker/runner.ts\<close>, the requests of \<^verbatim>\<open>runBlueGreen\<close> and \<^verbatim>\<open>rollbackApp\<close>) and the
  facts about it that the allowlist of the agent asks for.
\<close>

section \<open>The request\<close>

fun restart_policy_str :: "restart_policy \<Rightarrow> string" where
  "restart_policy_str Rp_no = ''no''"
| "restart_policy_str Rp_always = ''always''"
| "restart_policy_str Rp_unless_stopped = ''unless-stopped''"
| "restart_policy_str Rp_on_failure = ''on-failure''"

definition dquoted :: "string \<Rightarrow> string" where
  "dquoted s = CHR 0x22 # s @ [CHR 0x22]"

definition squoted :: "string \<Rightarrow> string" where
  "squoted s = CHR 0x27 # s @ [CHR 0x27]"

definition deploy_probe :: "int \<Rightarrow> string \<Rightarrow> string" where
  "deploy_probe port path =
     (let url = dquoted (''http://$host:'' @ int_str port @ path)
      in ''for host in 127.0.0.1 '' @ dquoted ''$(hostname 2>/dev/null)'' @ ''; do ''
         @ ''[ -z '' @ dquoted ''$host'' @ '' ] && continue; ''
         @ ''if command -v curl >/dev/null 2>&1; then ''
         @ ''code='' @ dquoted (''$(curl -sS -m 5 -o /dev/null -w '' @ squoted ''%{http_code}'' @ '' '' @ url @ '' || true)'') @ ''; ''
         @ ''case '' @ dquoted ''$code'' @ '' in [234][0-9][0-9]) exit 0;; esac; ''
         @ ''fi; ''
         @ ''if command -v wget >/dev/null 2>&1; then ''
         @ ''wget -q -O /dev/null --timeout=5 '' @ url @ '' && exit 0; ''
         @ ''fi; '' @ ''done; exit 1'')"

definition rollback_probe :: "int \<Rightarrow> string \<Rightarrow> string" where
  "rollback_probe port path =
     ''curl -sS -m 5 -o /dev/null http://127.0.0.1:'' @ int_str port @ path @ '' || exit 1''"

definition agent_request_of :: "create_request \<Rightarrow> container_create_request" where
  "agent_request_of r =
     \<lparr>ac_name = cr_name r,
      ac_image = cr_image r,
      ac_env = cr_env r,
      ac_labels = [(''ploydok.kind'', ''app''), (''ploydok.app_id'', cr_app_id r),
          (''ploydok.owner_id'', cr_owner_id r), (''ploydok.color'', color_str (cr_color r))]
        @ (if cr_rollback r then [(''ploydok.rollback'', ''1'')] else []),
      ac_network = [],
      ac_volumes = map (\<lambda>v. \<lparr>vm_host_path = rv_host_path v, vm_container_path = rv_mount_path v,
          vm_read_only = rv_read_only v\<rparr>) (cr_volumes r),
      ac_restart_policy = restart_policy_str (cr_restart_policy r),
      ac_resource_limits = map_option (\<lambda>l. \<lparr>al_cpu = rl_cpu l, al_memory_bytes = rl_memory_bytes l,
          al_pids_limit = rl_pids_limit l\<rparr>) (cr_limits r),
      ac_command = [],
      ac_user = [],
      ac_networks = cr_networks r,
      ac_healthcheck = Some
        \<lparr>ah_test = [''CMD-SHELL'', (if cr_rollback r then rollback_probe else deploy_probe) (cr_hc_port r) (cr_hc_path r)],
         ah_interval_seconds = cr_hc_interval_s r, ah_timeout_seconds = cr_hc_timeout_s r,
         ah_retries = cr_hc_retries r, ah_start_period_seconds = cr_hc_start_period_s r\<rparr>\<rparr>"

section \<open>Generated ids\<close>

text \<open>The alphabet of \<^verbatim>\<open>nanoid()\<close>: letters, digits, underscore and dash.\<close>

definition nanoid_char :: "char \<Rightarrow> bool" where
  "nanoid_char c \<longleftrightarrow> is_lower c \<or> is_upper c \<or> is_digit c \<or> c = CHR ''_'' \<or> c = CHR ''-''"

definition generated_id :: "ident \<Rightarrow> bool" where
  "generated_id i \<longleftrightarrow> i \<noteq> [] \<and> list_all nanoid_char i"

lemma nanoid_char_plain: "nanoid_char c \<Longrightarrow> c \<noteq> CHR ''/'' \<and> c \<noteq> CHR ''.'' \<and> c \<noteq> CHR 0x00"
  by (auto simp: nanoid_char_def is_lower_def is_upper_def is_digit_def)

lemma generated_id_plain: "generated_id i \<Longrightarrow> plain_segment i"
  using nanoid_char_plain [of "CHR ''.''"] nanoid_char_plain [of "CHR ''/''"]
  by (auto simp: generated_id_def plain_segment_def list_all_iff)

lemma generated_id_no_dot: "generated_id i \<Longrightarrow> CHR ''.'' \<notin> set i \<and> CHR 0x00 \<notin> set i"
  using nanoid_char_plain by (auto simp: generated_id_def list_all_iff)

section \<open>Lemmas for the allowlist\<close>

lemma no_dots_inside:
  assumes "CHR ''.'' \<notin> set s" shows "\<not> str_includes ''..'' s"
proof
  assume "str_includes ''..'' s"
  then obtain u v where "s = u @ ''..'' @ v" by (auto simp: str_includes_iff)
  with assms show False by simp
qed

lemma volume_path_accepted:
  assumes "generated_id a" and "generated_id v"
  shows "validate_host_path (appVolumeHostPath a v) [pfx, APP_VOLUMES_ROOT]"
proof -
  have p: "appVolumeHostPath a v = (APP_VOLUMES_ROOT @ ''/'') @ a @ CHR ''/'' # v"
    using volume_path_text assms generated_id_plain by simp
  have t: "trim_end_slashes APP_VOLUMES_ROOT = APP_VOLUMES_ROOT" by code_simp
  have root: "CHR ''.'' \<notin> set APP_VOLUMES_ROOT" "CHR 0x00 \<notin> set APP_VOLUMES_ROOT"
    by (simp_all add: APP_VOLUMES_ROOT_def)
  then have "CHR ''.'' \<notin> set (appVolumeHostPath a v)" "CHR 0x00 \<notin> set (appVolumeHostPath a v)"
    using generated_id_no_dot assms unfolding p by auto
  moreover have "starts_with (APP_VOLUMES_ROOT @ ''/'') (appVolumeHostPath a v)" unfolding p by (rule starts_with_append)
  ultimately show ?thesis unfolding validate_host_path_def using no_dots_inside t by simp
qed

lemma mounts_accepted:
  assumes "generated_id appId" and "\<forall>v\<in>set (vs_volumes st). vr_app_id v = appId \<longrightarrow> generated_id (vr_id v)"
  shows "\<forall>m\<in>set (fst (listRuntimeAppVolumeMounts rank b appId st)). validate_host_path (rv_host_path m) [pfx, APP_VOLUMES_ROOT]"
  using assms volume_path_accepted
  by (auto simp: listRuntimeAppVolumeMounts_def Let_def runtime_mount_def listAppVolumes_def)

text \<open>A plan never exceeds four CPUs or eight gibibytes; only the limits of the row can.\<close>

lemma plan_limits:
  "(case resolveResourceLimits app of None \<Rightarrow> True
    | Some l \<Rightarrow> rl_cpu l \<le> max cpus 0 \<and> rl_memory_bytes l \<le> max mem 0)
   \<longleftrightarrow> (\<forall>c. a_cpu_limit app = Some c \<longrightarrow> c \<le> cpus) \<and> (\<forall>m. a_mem_limit_bytes app = Some m \<longrightarrow> m \<le> mem)"
  if "cpus \<ge> 2" "mem \<ge> 2048 * 1024 * 1024"
  using that
  by (cases "a_plan app"; cases "a_cpu_limit app"; cases "a_mem_limit_bytes app")
    (auto simp: resolveResourceLimits_def or_default_def Let_def max_def)

lemma labels_present:
  "has_label (ac_labels (agent_request_of r)) ''ploydok.app_id'' \<longleftrightarrow> cr_app_id r \<noteq> []"
  "has_label (ac_labels (agent_request_of r)) ''ploydok.owner_id'' \<longleftrightarrow> cr_owner_id r \<noteq> []"
  by (simp_all add: has_label_def agent_request_of_def)

lemma request_mounts:
  "list_all (\<lambda>v. validate_host_path (vm_host_path v) roots) (ac_volumes (agent_request_of r))
     \<longleftrightarrow> (\<forall>m\<in>set (cr_volumes r). validate_host_path (rv_host_path m) roots)"
  by (auto simp: agent_request_of_def list_all_iff)

lemma request_limits:
  "(case ac_resource_limits (agent_request_of r) of None \<Rightarrow> True
    | Some l \<Rightarrow> al_cpu l \<le> c \<and> al_memory_bytes l \<le> m)
   \<longleftrightarrow> (case cr_limits r of None \<Rightarrow> True | Some l \<Rightarrow> rl_cpu l \<le> c \<and> rl_memory_bytes l \<le> m)"
  by (simp add: agent_request_of_def split: option.splits)

text \<open>What is left of the allowlist for a request of the runner.\<close>

lemma request_conditions:
  assumes "agent_container_name (cr_name r)" and "\<forall>n\<in>set (cr_networks r). starts_with ''ploydok-'' n"
    and "\<forall>m\<in>set (cr_volumes r). validate_host_path (rv_host_path m) [vc_volume_prefix cfg, vc_app_volume_prefix cfg]"
  shows "validate_container_create cfg (agent_request_of r) = None \<longleftrightarrow>
     extract_registry (cr_image r) \<in> set (vc_allowed_registries cfg) \<and> cr_app_id r \<noteq> [] \<and> cr_owner_id r \<noteq> []
     \<and> 0 \<le> cr_hc_interval_s r \<and> 0 \<le> cr_hc_timeout_s r \<and> 0 \<le> cr_hc_start_period_s r
     \<and> (case cr_limits r of None \<Rightarrow> True
        | Some l \<Rightarrow> rl_cpu l \<le> max (vc_max_cpu cfg) 0 \<and> rl_memory_bytes l \<le> max (vc_max_memory_bytes cfg) 0)"
proof -
  have f: "ac_name (agent_request_of r) = cr_name r" "ac_image (agent_request_of r) = cr_image r"
    "ac_network (agent_request_of r) = []" "ac_networks (agent_request_of r) = cr_networks r"
    "\<not> root_user (ac_user (agent_request_of r))"
    by (simp_all add: agent_request_of_def root_user_def starts_with_def)
  have n: "list_all (\<lambda>n. n = [] \<or> starts_with ''ploydok-'' n) ([] # cr_networks r)"
    using assms(2) by (simp add: list_all_iff)
  have h: "(case ac_healthcheck (agent_request_of r) of None \<Rightarrow> True
        | Some h \<Rightarrow> (case ah_test h of [] \<Rightarrow> False | mode # _ \<Rightarrow> mode \<in> {''CMD'', ''CMD-SHELL'', ''NONE''})
            \<and> 0 \<le> ah_interval_seconds h \<and> 0 \<le> ah_timeout_seconds h \<and> 0 \<le> ah_start_period_seconds h)
      \<longleftrightarrow> 0 \<le> cr_hc_interval_s r \<and> 0 \<le> cr_hc_timeout_s r \<and> 0 \<le> cr_hc_start_period_s r"
    by (simp add: agent_request_of_def)
  show ?thesis unfolding create_conditions f(1-4) labels_present request_mounts request_limits h
    using assms n f(5) by blast
qed

end
