(* ===== verification/Swarm_Runner.thy ===== *)
theory Swarm_Runner
  imports Runner_Requests
begin

text \<open>
  The Swarm runtime, the default for new apps (\<^verbatim>\<open>worker/swarm-runner.ts\<close>): deploy, scale, stop and rollback of the
  service of an app. Calls to the agent and to Caddy are recorded with their replies,
  which an environment gives; the preparation of the network runs against its own environment (theory
  \<^verbatim>\<open>Project_Networks\<close>). The clock is a sequence of readings, one per evaluation of
  \<^verbatim>\<open>Date.now()\<close> in the waiting loop. The loop has fuel; a run that would need more stops
  with an error of its own, and the fuel that is always enough is a theorem. Log lines are left out.
\<close>

section \<open>State and calls\<close>

record swarm_spec = service_spec +
  sp_env :: "(string \<times> string) list"
  sp_command :: "string list"
  sp_healthcheck :: agent_healthcheck
  sp_replicas :: int
  sp_runtime_port :: int
  sp_update_parallelism :: int
  sp_update_delay_s :: int
  sp_update_monitor_s :: int
  sp_update_order :: update_order
  sp_failure_action :: failure_action
  sp_stop_grace_period_s :: int

record swarm_update =
  su_service_name :: string
  su_image :: string
  su_spec :: "swarm_spec option"
  su_replicas :: int
  su_update_parallelism :: int
  su_update_delay_s :: int
  su_update_monitor_s :: int
  su_update_order :: update_order
  su_failure_action :: failure_action

record swarm_task =
  tk_image :: string
  tk_status :: string

datatype swarm_call =
  Swarm_ensure_single_node
| Service_create swarm_spec
| Service_update_image swarm_update
| Service_scale string int
| Service_rollback string
| Service_remove string
| List_service_tasks string
| Set_upstream ident string "string \<times> int"
| Remove_upstream ident
| Purge_cdn ident

datatype swarm_reply = S_ok | S_tasks "swarm_task list" | S_failed

type_synonym swarm_history = "(swarm_call \<times> swarm_reply) list"

type_synonym swarm_environment = "swarm_history \<Rightarrow> swarm_call \<Rightarrow> swarm_reply"

record swarm_state =
  sw_apps :: "app_row table"
  sw_builds :: "build_row table"
  sw_owners :: "(ident \<times> ident) list"
  sw_volumes :: volume_state
  sw_net :: net_state
  sw_trace :: swarm_history
  sw_readings :: nat

datatype swarm_error =
  Sw_app_not_found
| Sw_agent
| Sw_network thrown
| Sw_writable_volumes
| Sw_not_healthy
| Sw_caddy
| Sw_no_service
| Sw_no_image
| Sw_out_of_fuel

type_synonym 'a swarm_run = "(swarm_state, swarm_error, 'a) task"

text \<open>What surrounds a run: the agent and Caddy, the agent for networks, the clock, the order of ids, the fuel.\<close>

record swarm_world =
  wd_env :: swarm_environment
  wd_net_env :: net_environment
  wd_clock :: "nat \<Rightarrow> instant"
  wd_rank :: "ident \<Rightarrow> nat"
  wd_fuel :: nat

definition swarm_ask :: "swarm_world \<Rightarrow> swarm_call \<Rightarrow> swarm_reply swarm_run" where
  "swarm_ask w c st =
     (let r = wd_env w (sw_trace st) c in (Inr r, st\<lparr>sw_trace := sw_trace st @ [(c, r)]\<rparr>))"

definition swarm_do :: "swarm_world \<Rightarrow> swarm_error \<Rightarrow> swarm_call \<Rightarrow> unit swarm_run" where
  "swarm_do w e c = t_bind (swarm_ask w c) (\<lambda>r. if r = S_failed then t_throw e else t_return ())"

definition read_clock :: "swarm_world \<Rightarrow> instant swarm_run" where
  "read_clock w st = (Inr (wd_clock w (sw_readings st)), st\<lparr>sw_readings := sw_readings st + 1\<rparr>)"

definition on_network :: "'a net_run \<Rightarrow> 'a swarm_run" where
  "on_network m st =
     (case m (sw_net st) of
        (Inl e, n) \<Rightarrow> (Inl (Sw_network e), st\<lparr>sw_net := n\<rparr>)
      | (Inr x, n) \<Rightarrow> (Inr x, st\<lparr>sw_net := n\<rparr>))"

section \<open>Names, limits, tasks\<close>

definition runtimeServiceName :: "app_row \<Rightarrow> string" where
  "runtimeServiceName app =
     (let slug = take 36 (trim_dashes (replace_runs (\<lambda>c. \<not> (is_alnum c \<or> is_dash c)) (to_lower (a_slug app))));
          token = take 10 (filter (\<lambda>c. is_alnum c \<or> is_dash c) (to_lower (a_id app)))
      in ''ploydok-app-'' @ (if slug = [] then ''app'' else slug) @ ''-'' @ token)"

definition swarm_limits :: "app_row \<Rightarrow> agent_limits" where
  "swarm_limits app =
     \<lparr>al_cpu = or_default (a_cpu_limit app) (case PLANS (a_plan app) of None \<Rightarrow> 0 | Some (c, _, _) \<Rightarrow> c),
      al_memory_bytes = or_default (a_mem_limit_bytes app)
        (case PLANS (a_plan app) of None \<Rightarrow> 0 | Some (_, mb, _) \<Rightarrow> mb * 1024 * 1024),
      al_pids_limit = or_default (a_pids_limit app) (case PLANS (a_plan app) of None \<Rightarrow> 0 | Some (_, _, p) \<Rightarrow> p)\<rparr>"

definition taskIsRunning :: "string \<Rightarrow> bool" where
  "taskIsRunning status \<longleftrightarrow> str_includes ''up '' (to_lower status) \<or> str_includes ''running'' (to_lower status)"

definition taskIsHealthy :: "string \<Rightarrow> bool" where
  "taskIsHealthy status \<longleftrightarrow> taskIsRunning status \<and> \<not> str_includes ''unhealthy'' (to_lower status)"

definition healthy_tasks :: "swarm_task list \<Rightarrow> nat" where
  "healthy_tasks tasks = length (filter (\<lambda>t. taskIsHealthy (tk_status t)) tasks)"

section \<open>Waiting\<close>


definition DEFAULT_TASK_TIMEOUT_MS :: int where "DEFAULT_TASK_TIMEOUT_MS = 180000"

fun poll_tasks :: "nat \<Rightarrow> swarm_world \<Rightarrow> string \<Rightarrow> int \<Rightarrow> instant \<Rightarrow> unit swarm_run" where
  "poll_tasks 0 w service replicas timeoutAt = t_throw Sw_out_of_fuel"
| "poll_tasks (Suc n) w service replicas timeoutAt =
     t_bind (read_clock w) (\<lambda>now.
     if now < timeoutAt then
       t_bind (swarm_ask w (List_service_tasks service)) (\<lambda>r.
       case r of
         S_tasks tasks \<Rightarrow>
           if int (healthy_tasks tasks) \<ge> replicas then t_return ()
           else poll_tasks n w service replicas timeoutAt
       | _ \<Rightarrow> t_throw Sw_agent)
     else t_throw Sw_not_healthy)"

definition waitForServiceHealthy :: "swarm_world \<Rightarrow> string \<Rightarrow> int \<Rightarrow> unit swarm_run" where
  "waitForServiceHealthy w service replicas =
     t_bind (read_clock w) (\<lambda>now. poll_tasks (wd_fuel w) w service replicas (now + DEFAULT_TASK_TIMEOUT_MS))"

section \<open>Deploy\<close>

definition swarm_container_env :: "(string \<times> string) list \<Rightarrow> int \<Rightarrow> string \<Rightarrow> (string \<times> string) list" where
  "swarm_container_env e port service =
     env_set ''PLOYDOK_SERVICE_NAME'' service (env_set ''PLOYDOK_RUNTIME_MODE'' ''swarm'' (env_set ''PORT'' (int_str port) e))"

definition swarm_spec_of ::
  "app_row \<Rightarrow> ident \<Rightarrow> ident \<Rightarrow> string \<Rightarrow> string \<Rightarrow> (string \<times> string) list \<Rightarrow> int \<Rightarrow> string \<Rightarrow> runtime_volume list \<Rightarrow> swarm_spec" where
  "swarm_spec_of app appId owner service img e port net vols =
     \<lparr>as_name = service, as_image = img,
      as_labels = [(''ploydok.kind'', ''app''), (''ploydok.app_id'', appId), (''ploydok.owner_id'', owner),
        (''ploydok.runtime'', ''swarm'')],
      as_networks = [net],
      as_mounts = map (\<lambda>v. \<lparr>vm_host_path = rv_host_path v, vm_container_path = rv_mount_path v,
        vm_read_only = rv_read_only v\<rparr>) vols,
      as_resource_limits = Some (swarm_limits app),
      as_user = [],
      sp_env = swarm_container_env e port service,
      sp_command = [],
      sp_healthcheck = \<lparr>ah_test = [''CMD-SHELL'',
            deploy_probe (or_default (a_healthcheck_port app) port) (or_default (a_healthcheck_path app) ''/'')],
          ah_interval_seconds = or_default (a_healthcheck_interval_s app) 5,
          ah_timeout_seconds = or_default (a_healthcheck_timeout_s app) 3,
          ah_retries = or_default (a_healthcheck_retries app) 6,
          ah_start_period_seconds = or_default (a_healthcheck_start_period_s app) 30\<rparr>,
      sp_replicas = max 1 (a_replicas app),
      sp_runtime_port = port,
      sp_update_parallelism = a_update_parallelism app,
      sp_update_delay_s = a_update_delay_s app,
      sp_update_monitor_s = a_update_monitor_s app,
      sp_update_order = a_update_order app,
      sp_failure_action = a_failure_action app,
      sp_stop_grace_period_s = a_stop_grace_period_s app\<rparr>"

definition update_of_spec :: "swarm_spec \<Rightarrow> swarm_update" where
  "update_of_spec s =
     \<lparr>su_service_name = as_name s, su_image = as_image s, su_spec = Some s, su_replicas = sp_replicas s,
      su_update_parallelism = sp_update_parallelism s, su_update_delay_s = sp_update_delay_s s,
      su_update_monitor_s = sp_update_monitor_s s, su_update_order = sp_update_order s,
      su_failure_action = sp_failure_action s\<rparr>"

record swarm_opts =
  so_app_id :: ident
  so_image_ref :: string
  so_env :: "(string \<times> string) list"
  so_runtime_port :: "int option"

text \<open>The volumes, the overlay network with the databases and Caddy on it.\<close>

definition swarm_prepare :: "swarm_world \<Rightarrow> app_row \<Rightarrow> ident \<Rightarrow> (string \<times> runtime_volume list) swarm_run" where
  "swarm_prepare w app appId =
     t_bind (swarm_do w Sw_agent Swarm_ensure_single_node) (\<lambda>_.
     t_bind (t_get (\<lambda>st. listRuntimeAppVolumeMounts (wd_rank w) True appId (sw_volumes st))) (\<lambda>(vols, vst).
     t_bind (t_update (\<lambda>st. st\<lparr>sw_volumes := vst\<rparr>)) (\<lambda>_.
     if max 1 (a_replicas app) > 1 \<and> list_ex (\<lambda>v. \<not> rv_read_only v) vols then t_throw Sw_writable_volumes
     else
       t_bind (on_network (ensureProjectSwarmNetwork (wd_net_env w) (a_project_id app))) (\<lambda>net.
       t_bind (on_network (ensureProjectDatabasesOnSwarmNetwork (wd_net_env w) (a_project_id app) net)) (\<lambda>_.
       t_bind (on_network (ensureCaddyOnProjectNetwork (wd_net_env w) net)) (\<lambda>_.
       t_return (net, vols)))))))"

definition mark_swarm_live :: "instant \<Rightarrow> ident \<Rightarrow> string \<Rightarrow> swarm_state \<Rightarrow> swarm_state" where
  "mark_swarm_live now appId service st =
     st\<lparr>sw_apps := set_app appId (\<lambda>a. a\<lparr>a_runtime_mode := Rt_swarm, a_swarm_service_name := Some service,
          a_container_id := None, a_status := A_running, a_updated_at := now\<rparr>) (sw_apps st)\<rparr>"

definition apply_spec :: "swarm_world \<Rightarrow> app_row \<Rightarrow> swarm_spec \<Rightarrow> unit swarm_run" where
  "apply_spec w app spec =
     swarm_do w Sw_agent
       (if \<not> truthy (a_swarm_service_name app) then Service_create spec else Service_update_image (update_of_spec spec))"

definition route_service :: "swarm_world \<Rightarrow> app_row \<Rightarrow> ident \<Rightarrow> string \<Rightarrow> int \<Rightarrow> unit swarm_run" where
  "route_service w app appId service port =
     (if truthy (a_domain app) then
        t_bind (swarm_do w Sw_caddy (Set_upstream appId (the (a_domain app)) (service, port))) (\<lambda>_.
        t_bind (swarm_ask w (Purge_cdn appId)) (\<lambda>_. t_return ()))
      else t_return ())"

definition runSwarmDeploy :: "swarm_world \<Rightarrow> instant \<Rightarrow> swarm_opts \<Rightarrow> string swarm_run" where
  "runSwarmDeploy w now opts st =
     (case app_by_id (sw_apps st) (so_app_id opts) of
        None \<Rightarrow> t_throw Sw_app_not_found st
      | Some app \<Rightarrow>
          (case map_of (sw_owners st) (a_project_id app) of
             None \<Rightarrow> t_throw Sw_app_not_found st
           | Some owner \<Rightarrow>
               let appId = so_app_id opts;
                   port = coalesce3 (so_runtime_port opts) (a_runtime_port app) 3000;
                   service = (case a_swarm_service_name app of Some s \<Rightarrow> s | None \<Rightarrow> runtimeServiceName app)
               in (t_bind (swarm_prepare w app appId) (\<lambda>(net, vols).
                   t_bind (apply_spec w app (swarm_spec_of app appId owner service (so_image_ref opts) (so_env opts) port net vols)) (\<lambda>_.
                   t_bind (waitForServiceHealthy w service (max 1 (a_replicas app))) (\<lambda>_.
                   t_bind (route_service w app appId service port) (\<lambda>_.
                   t_bind (t_update (mark_swarm_live now appId service)) (\<lambda>_.
                   t_return service)))))) st))"

section \<open>Scale, stop, rollback\<close>

definition scaleSwarmApp :: "swarm_world \<Rightarrow> instant \<Rightarrow> ident \<Rightarrow> int \<Rightarrow> unit swarm_run" where
  "scaleSwarmApp w now appId replicas st =
     (case app_by_id (sw_apps st) appId of
        None \<Rightarrow> t_throw Sw_no_service st
      | Some app \<Rightarrow>
          if \<not> truthy (a_swarm_service_name app) then t_throw Sw_no_service st
          else let service = the (a_swarm_service_name app) in
            t_bind (swarm_do w Sw_agent (Service_scale service replicas)) (\<lambda>_.
            t_bind (waitForServiceHealthy w service replicas) (\<lambda>_.
            t_update (\<lambda>st. st\<lparr>sw_apps := set_app appId (\<lambda>a. a\<lparr>a_replicas := replicas, a_updated_at := now\<rparr>) (sw_apps st)\<rparr>))) st)"

definition mark_swarm_stopped :: "instant \<Rightarrow> ident \<Rightarrow> swarm_state \<Rightarrow> swarm_state" where
  "mark_swarm_stopped now appId st =
     st\<lparr>sw_apps := set_app appId (\<lambda>a. a\<lparr>a_status := A_stopped, a_swarm_service_name := None,
          a_container_id := None, a_updated_at := now\<rparr>) (sw_apps st)\<rparr>"

definition stopSwarmApp :: "swarm_world \<Rightarrow> instant \<Rightarrow> ident \<Rightarrow> unit swarm_run" where
  "stopSwarmApp w now appId st =
     (let service = (case app_by_id (sw_apps st) appId of None \<Rightarrow> None | Some app \<Rightarrow> a_swarm_service_name app)
      in t_bind (if truthy service then swarm_do w Sw_agent (Service_remove (the service)) else t_return ()) (\<lambda>_.
         t_bind (swarm_do w Sw_caddy (Remove_upstream appId)) (\<lambda>_.
         t_update (mark_swarm_stopped now appId))) st)"

definition rollbackSwarmApp :: "swarm_world \<Rightarrow> ident \<Rightarrow> ident option \<Rightarrow> unit swarm_run" where
  "rollbackSwarmApp w appId target st =
     (case app_by_id (sw_apps st) appId of
        None \<Rightarrow> t_throw Sw_no_service st
      | Some app \<Rightarrow>
          if \<not> truthy (a_swarm_service_name app) then t_throw Sw_no_service st
          else
            let service = the (a_swarm_service_name app) in
            t_bind
              (if truthy target then
                 (case select_first (\<lambda>b. b_id b = the target \<and> b_app_id b = appId) (sw_builds st) of
                    None \<Rightarrow> t_throw Sw_no_image
                  | Some b \<Rightarrow>
                      if \<not> truthy (b_image_tag b) then t_throw Sw_no_image
                      else swarm_do w Sw_agent (Service_update_image
                        \<lparr>su_service_name = service, su_image = the (b_image_tag b), su_spec = None,
                         su_replicas = a_replicas app, su_update_parallelism = a_update_parallelism app,
                         su_update_delay_s = a_update_delay_s app, su_update_monitor_s = a_update_monitor_s app,
                         su_update_order = a_update_order app, su_failure_action = a_failure_action app\<rparr>))
               else swarm_do w Sw_agent (Service_rollback service)) (\<lambda>_.
            waitForServiceHealthy w service (a_replicas app)) st)"

definition listSwarmTasks :: "swarm_world \<Rightarrow> ident \<Rightarrow> swarm_task list swarm_run" where
  "listSwarmTasks w appId st =
     (case (case app_by_id (sw_apps st) appId of None \<Rightarrow> None | Some app \<Rightarrow> a_swarm_service_name app) of
        None \<Rightarrow> t_return [] st
      | Some service \<Rightarrow>
          if service = [] then t_return [] st
          else t_bind (swarm_ask w (List_service_tasks service))
            (\<lambda>r. case r of S_tasks tasks \<Rightarrow> t_return tasks | _ \<Rightarrow> t_throw Sw_agent) st)"

section \<open>Runs that only make certain calls\<close>

text \<open>A quiet run changes no app row, and every call it makes satisfies \<open>P\<close>.\<close>

definition quiet :: "(swarm_call \<times> swarm_reply \<Rightarrow> bool) \<Rightarrow> 'a swarm_run \<Rightarrow> bool" where
  "quiet P m \<longleftrightarrow> (\<forall>st. sw_apps (snd (m st)) = sw_apps st \<and> sw_builds (snd (m st)) = sw_builds st
     \<and> sw_owners (snd (m st)) = sw_owners st
     \<and> (\<exists>xs. sw_trace (snd (m st)) = sw_trace st @ xs \<and> (\<forall>x\<in>set xs. P x)))"

lemma quietD:
  assumes "quiet P m" and "m st = (r, st')"
  shows "sw_apps st' = sw_apps st" "sw_builds st' = sw_builds st" "sw_owners st' = sw_owners st"
    "\<exists>xs. sw_trace st' = sw_trace st @ xs \<and> (\<forall>x\<in>set xs. P x)"
  using assms by (metis quiet_def snd_conv)+

lemma quiet_weaken: "quiet P m \<Longrightarrow> (\<And>x. Q x) \<Longrightarrow> quiet Q m"
  unfolding quiet_def by meson

lemma quiet_rows: "quiet P m \<Longrightarrow> sw_apps (snd (m st)) = sw_apps st"
  by (simp add: quiet_def)

lemma quiet_return: "quiet P (t_return x)" and quiet_throw: "quiet P (t_throw e)" and quiet_get: "quiet P (t_get f)"
  and quiet_clock: "quiet P (read_clock w)"
  by (simp_all add: quiet_def t_return_def t_throw_def t_get_def read_clock_def)

lemma quiet_update:
  "(\<And>st. sw_apps (f st) = sw_apps st \<and> sw_builds (f st) = sw_builds st \<and> sw_owners (f st) = sw_owners st
     \<and> sw_trace (f st) = sw_trace st) \<Longrightarrow> quiet P (t_update f)"
  by (simp add: quiet_def t_update_def)

lemma quiet_network: "quiet P (on_network m)"
  by (auto simp: quiet_def on_network_def split: prod.splits sum.splits)

lemma quiet_ask: "(\<And>h. P (c, wd_env w h c)) \<Longrightarrow> quiet P (swarm_ask w c)"
  by (simp add: quiet_def swarm_ask_def Let_def)

lemma quiet_bind:
  assumes "quiet P m" and "\<And>x. quiet P (f x)" shows "quiet P (t_bind m f)"
  unfolding quiet_def
proof
  fix st
  obtain r st1 where m: "m st = (r, st1)" by fastforce
  note 1 = quietD [OF assms(1) m]
  show "sw_apps (snd (t_bind m f st)) = sw_apps st \<and> sw_builds (snd (t_bind m f st)) = sw_builds st
     \<and> sw_owners (snd (t_bind m f st)) = sw_owners st
     \<and> (\<exists>xs. sw_trace (snd (t_bind m f st)) = sw_trace st @ xs \<and> (\<forall>x\<in>set xs. P x))"
  proof (cases r)
    case (Inl e)
    then show ?thesis using 1 by (simp add: t_bind_def m)
  next
    case (Inr x)
    obtain r2 st2 where f: "f x st1 = (r2, st2)" by fastforce
    note 2 = quietD [OF assms(2) f]
    have "t_bind m f st = (r2, st2)" by (simp add: t_bind_def m Inr f)
    moreover obtain xs ys where "sw_trace st1 = sw_trace st @ xs" "\<forall>x\<in>set xs. P x"
      "sw_trace st2 = sw_trace st1 @ ys" "\<forall>x\<in>set ys. P x"
      using 1(4) 2(4) by blast
    then have "sw_trace st2 = sw_trace st @ (xs @ ys) \<and> (\<forall>x\<in>set (xs @ ys). P x)" by auto
    ultimately show ?thesis using 1 2 by auto
  qed
qed

lemma quiet_do: "(\<And>h. P (c, wd_env w h c)) \<Longrightarrow> quiet P (swarm_do w e c)"
  unfolding swarm_do_def by (rule quiet_bind [OF quiet_ask]) (auto intro: quiet_throw quiet_return)

lemma quiet_if: "quiet P a \<Longrightarrow> quiet P b \<Longrightarrow> quiet P (if c then a else b)"
  by simp

lemma prepare_quiet: "quiet (\<lambda>x. fst x = Swarm_ensure_single_node) (swarm_prepare w app i)"
  unfolding swarm_prepare_def
  by (auto intro!: quiet_bind quiet_do quiet_get quiet_update quiet_network quiet_return quiet_throw quiet_if
      split: prod.splits)

lemma quiet_poll: "quiet (\<lambda>x. fst x = List_service_tasks s) (poll_tasks n w s k t)"
proof (induction n)
  case (Suc n)
  then show ?case
    by (auto intro!: quiet_bind quiet_clock quiet_ask quiet_return quiet_throw quiet_if split: swarm_reply.splits)
qed (simp add: quiet_throw)

lemma quiet_wait: "quiet (\<lambda>x. fst x = List_service_tasks s) (waitForServiceHealthy w s k)"
  unfolding waitForServiceHealthy_def by (intro quiet_bind quiet_clock quiet_poll)

section \<open>The waiting loop\<close>

lemma poll_success:
  "poll_tasks n w s k t st = (Inr u, st') \<Longrightarrow>
     \<exists>xs tasks. sw_trace st' = sw_trace st @ xs @ [(List_service_tasks s, S_tasks tasks)]
       \<and> (\<forall>x\<in>set xs. fst x = List_service_tasks s) \<and> k \<le> int (healthy_tasks tasks)"
proof (induction n arbitrary: st)
  case (Suc n)
  let ?st1 = "st\<lparr>sw_readings := sw_readings st + 1\<rparr>"
  let ?r = "wd_env w (sw_trace st) (List_service_tasks s)"
  let ?st2 = "?st1\<lparr>sw_trace := sw_trace st @ [(List_service_tasks s, ?r)]\<rparr>"
  have "wd_clock w (sw_readings st) < t"
    using Suc.prems by (auto simp: t_bind_Inr read_clock_def t_throw_def split: if_splits)
  then have ask: "(case ?r of S_tasks tasks \<Rightarrow> if k \<le> int (healthy_tasks tasks) then t_return () else poll_tasks n w s k t
      | _ \<Rightarrow> t_throw Sw_agent) ?st2 = (Inr u, st')"
    using Suc.prems by (auto simp: t_bind_Inr read_clock_def swarm_ask_def Let_def split: if_splits)
  then obtain tasks where r: "?r = S_tasks tasks" by (cases ?r) (auto simp: t_throw_def)
  show ?case
  proof (cases "k \<le> int (healthy_tasks tasks)")
    case True
    then have "sw_trace st' = sw_trace st @ [] @ [(List_service_tasks s, S_tasks tasks)]"
      using ask r by (auto simp: t_return_def)
    with True show ?thesis by (intro exI [of _ "[]"] exI [of _ tasks]) simp
  next
    case False
    then have "poll_tasks n w s k t ?st2 = (Inr u, st')" using ask r by simp
    from Suc.IH [OF this] obtain xs ts where xs: "sw_trace st' = sw_trace ?st2 @ xs @ [(List_service_tasks s, S_tasks ts)]"
      "\<forall>x\<in>set xs. fst x = List_service_tasks s" "k \<le> int (healthy_tasks ts)" by blast
    then show ?thesis by (intro exI [of _ "(List_service_tasks s, ?r) # xs"] exI [of _ ts]) simp
  qed
qed (simp add: t_throw_def)

lemma wait_success:
  "waitForServiceHealthy w s k st = (Inr u, st') \<Longrightarrow>
     \<exists>xs tasks. sw_trace st' = sw_trace st @ xs @ [(List_service_tasks s, S_tasks tasks)]
       \<and> (\<forall>x\<in>set xs. fst x = List_service_tasks s) \<and> k \<le> int (healthy_tasks tasks)"
  unfolding waitForServiceHealthy_def by (auto simp: t_bind_Inr read_clock_def dest!: poll_success)



section \<open>The steps of a deploy\<close>

definition throws_only :: "(swarm_error \<Rightarrow> bool) \<Rightarrow> 'a swarm_run \<Rightarrow> bool" where
  "throws_only E m \<longleftrightarrow> (\<forall>st e st'. m st = (Inl e, st') \<longrightarrow> E e)"

lemma throws_bind: "throws_only E m \<Longrightarrow> (\<And>x. throws_only E (f x)) \<Longrightarrow> throws_only E (t_bind m f)"
  unfolding throws_only_def t_bind_Inl by blast

lemma throws_simple:
  "throws_only E (t_return x)" "throws_only E (t_get f)" "throws_only E (t_update g)" "throws_only E (swarm_ask w c)"
  "throws_only E (t_throw e) \<longleftrightarrow> E e" "(\<And>x. E (Sw_network x)) \<Longrightarrow> throws_only E (on_network m)"
  by (auto simp: throws_only_def t_return_def t_get_def t_update_def t_throw_def swarm_ask_def Let_def on_network_def
      split: prod.splits sum.splits)

lemma throws_do: "E e \<Longrightarrow> throws_only E (swarm_do w e c)"
  unfolding swarm_do_def by (auto intro!: throws_bind simp: throws_simple)

lemma prepare_throws: "throws_only (\<lambda>e. e \<noteq> Sw_not_healthy) (swarm_prepare w app i)"
  unfolding swarm_prepare_def
  by (auto intro!: throws_bind throws_do simp: throws_simple split: prod.splits)

fun applied_service :: "swarm_call \<Rightarrow> (string \<times> string) option" where
  "applied_service (Service_create s) = Some (as_name s, as_image s)"
| "applied_service (Service_update_image u) = Some (su_service_name u, su_image u)"
| "applied_service _ = None"

lemma swarm_do_run:
  "swarm_do w e c st =
     (if wd_env w (sw_trace st) c = S_failed then Inl e else Inr (),
      st\<lparr>sw_trace := sw_trace st @ [(c, wd_env w (sw_trace st) c)]\<rparr>)"
  by (simp add: swarm_do_def t_bind_def swarm_ask_def Let_def t_throw_def t_return_def)

definition apply_call :: "app_row \<Rightarrow> swarm_spec \<Rightarrow> swarm_call" where
  "apply_call app spec =
     (if \<not> truthy (a_swarm_service_name app) then Service_create spec else Service_update_image (update_of_spec spec))"

lemma apply_call_service: "applied_service (apply_call app spec) = Some (as_name spec, as_image spec)"
  by (simp add: apply_call_def update_of_spec_def)

definition service_of :: "app_row \<Rightarrow> string" where
  "service_of app = (case a_swarm_service_name app of Some s \<Rightarrow> s | None \<Rightarrow> runtimeServiceName app)"

text \<open>The calls before the traffic moves: the preparation, then the service.\<close>

definition before_wait :: "swarm_world \<Rightarrow> swarm_history \<Rightarrow> app_row \<Rightarrow> string \<Rightarrow> swarm_history \<Rightarrow> bool" where
  "before_wait w h app img xs \<longleftrightarrow> (\<exists>pre c rep. xs = pre @ [(c, rep)] \<and> (\<forall>x\<in>set pre. fst x = Swarm_ensure_single_node)
     \<and> rep = wd_env w (h @ pre) c \<and> rep \<noteq> S_failed \<and> applied_service c = Some (service_of app, img)
     \<and> (a_swarm_service_name app = None \<longrightarrow> (\<exists>spec. c = Service_create spec \<and> as_name spec = service_of app)))"

text \<open>Calls that leave the services of the node as they are.\<close>

fun keeps_services :: "swarm_call \<Rightarrow> bool" where
  "keeps_services (Service_create _) = False"
| "keeps_services (Service_remove _) = False"
| "keeps_services _ = True"

abbreviation switches :: "swarm_call \<times> swarm_reply \<Rightarrow> bool" where
  "switches x \<equiv> (\<exists>i d u. fst x = Set_upstream i d u) \<and> snd x \<noteq> S_failed"

text \<open>A run of the deploy up to the point where the service is applied, and the rest of it.\<close>

definition deploy_tail :: "swarm_world \<Rightarrow> instant \<Rightarrow> app_row \<Rightarrow> ident \<Rightarrow> int \<Rightarrow> string swarm_run" where
  "deploy_tail w now app i port =
     t_bind (waitForServiceHealthy w (service_of app) (max 1 (a_replicas app))) (\<lambda>_.
     t_bind (route_service w app i (service_of app) port) (\<lambda>_.
     t_bind (t_update (mark_swarm_live now i (service_of app))) (\<lambda>_. t_return (service_of app))))"

lemma deploy_split:
  assumes "runSwarmDeploy w now opts st = (r, st')"
  shows "(\<exists>e xs. r = Inl e \<and> e \<noteq> Sw_not_healthy \<and> sw_apps st' = sw_apps st \<and> sw_trace st' = sw_trace st @ xs
      \<and> (\<forall>x\<in>set xs. fst x = Swarm_ensure_single_node \<or> applied_service (fst x) \<noteq> None \<and> snd x = S_failed))
    \<or> (\<exists>app xs st1. app_by_id (sw_apps st) (so_app_id opts) = Some app \<and> sw_apps st1 = sw_apps st
      \<and> sw_trace st1 = sw_trace st @ xs \<and> before_wait w (sw_trace st) app (so_image_ref opts) xs
      \<and> deploy_tail w now app (so_app_id opts) (coalesce3 (so_runtime_port opts) (a_runtime_port app) 3000) st1 = (r, st'))"
proof (cases "app_by_id (sw_apps st) (so_app_id opts)")
  case (Some app)
  note a = this
  show ?thesis
  proof (cases "map_of (sw_owners st) (a_project_id app)")
    case (Some owner)
    let ?i = "so_app_id opts" and ?port = "coalesce3 (so_runtime_port opts) (a_runtime_port app) 3000"
    obtain p st1 where p: "swarm_prepare w app ?i st = (p, st1)" by fastforce
    obtain xs where q: "sw_apps st1 = sw_apps st" "sw_trace st1 = sw_trace st @ xs"
      "\<forall>x\<in>set xs. fst x = Swarm_ensure_single_node" using quietD [OF prepare_quiet p] by blast
    show ?thesis
    proof (cases p)
      case (Inl e)
      have "e \<noteq> Sw_not_healthy" using prepare_throws [of w app ?i] p Inl unfolding throws_only_def by blast
      moreover have "r = Inl e" "st' = st1"
        using assms p Inl by (simp_all add: runSwarmDeploy_def a Some Let_def t_bind_def)
      ultimately show ?thesis using q by auto
    next
      case (Inr nv)
      obtain net vols where nv: "nv = (net, vols)" by fastforce
      define spec where "spec = swarm_spec_of app ?i owner (service_of app) (so_image_ref opts) (so_env opts) ?port net vols"
      define c where "c = apply_call app spec"
      define rep where "rep = wd_env w (sw_trace st1) c"
      let ?st2 = "st1\<lparr>sw_trace := sw_trace st1 @ [(c, rep)]\<rparr>"
      have run: "(r, st') = (if rep = S_failed then (Inl Sw_agent, ?st2) else deploy_tail w now app ?i ?port ?st2)"
        using assms
        unfolding runSwarmDeploy_def a Some Let_def option.case t_bind_def [of "swarm_prepare _ _ _"] p Inr nv prod.case sum.case
          apply_spec_def apply_call_def [symmetric] service_of_def [symmetric] spec_def [symmetric] c_def [symmetric]
        by (auto simp: t_bind_def [of "swarm_do _ _ _"] swarm_do_run rep_def deploy_tail_def)
      have ap: "applied_service c = Some (service_of app, so_image_ref opts)"
        by (simp add: c_def apply_call_service spec_def swarm_spec_of_def)
      show ?thesis
      proof (cases "rep = S_failed")
        case True
        then have "r = Inl Sw_agent" "st' = ?st2" using run by simp_all
        then show ?thesis using q ap True by (intro disjI1 exI [of _ Sw_agent] exI [of _ "xs @ [(c, rep)]"]) auto
      next
        case False
        have "before_wait w (sw_trace st) app (so_image_ref opts) (xs @ [(c, rep)])"
          unfolding before_wait_def using q(2,3) False ap rep_def
          by (intro exI [of _ xs] exI [of _ c] exI [of _ rep])
            (auto simp: c_def apply_call_def spec_def swarm_spec_of_def)
        then show ?thesis using a q run False
          by (intro disjI2 exI [of _ app] exI [of _ "xs @ [(c, rep)]"] exI [of _ ?st2]) simp
      qed
    qed
  next
    case None
    then show ?thesis using assms a by (auto simp: runSwarmDeploy_def t_throw_def)
  qed
next
  case None
  then show ?thesis using assms by (auto simp: runSwarmDeploy_def t_throw_def)
qed

lemma route_run:
  assumes "route_service w app i s port st = (r, st')"
  shows "sw_apps st' = sw_apps st \<and> (\<exists>xs. sw_trace st' = sw_trace st @ xs
    \<and> (case r of
         Inl e \<Rightarrow> \<forall>x\<in>set xs. \<not> switches x \<and> keeps_services (fst x)
       | Inr _ \<Rightarrow> xs = [] \<and> \<not> truthy (a_domain app)
           \<or> (\<exists>d rep rep'. a_domain app = Some d \<and> rep \<noteq> S_failed
                \<and> xs = [(Set_upstream i d (s, port), rep), (Purge_cdn i, rep')])))"
proof (cases "truthy (a_domain app)")
  case True
  then obtain d where d: "a_domain app = Some d" by (cases "a_domain app") auto
  let ?c = "Set_upstream i d (s, port)"
  let ?rep = "wd_env w (sw_trace st) ?c"
  let ?st1 = "st\<lparr>sw_trace := sw_trace st @ [(?c, ?rep)]\<rparr>"
  show ?thesis
  proof (cases "?rep = S_failed")
    case True
    then have "r = Inl Sw_caddy" "st' = ?st1"
      using assms \<open>truthy (a_domain app)\<close> by (simp_all add: route_service_def t_bind_def swarm_do_run d)
    with True show ?thesis by simp
  next
    case False
    then have "r = Inr ()" "st' = ?st1\<lparr>sw_trace := sw_trace ?st1 @ [(Purge_cdn i, wd_env w (sw_trace ?st1) (Purge_cdn i))]\<rparr>"
      using assms \<open>truthy (a_domain app)\<close>
      by (simp_all add: route_service_def t_bind_def swarm_do_run d swarm_ask_def Let_def t_return_def)
    with False d show ?thesis by simp
  qed
next
  case False
  then have "r = Inr ()" "st' = st" using assms by (simp_all add: route_service_def t_return_def)
  with False show ?thesis by simp
qed

lemma tail_run:
  assumes "deploy_tail w now app i port st = (r, st')"
  shows "case r of
      Inl e \<Rightarrow> sw_apps st' = sw_apps st \<and> (\<exists>xs. sw_trace st' = sw_trace st @ xs \<and> (\<forall>x\<in>set xs. \<not> switches x \<and> keeps_services (fst x)))
    | Inr s \<Rightarrow> s = service_of app
        \<and> sw_apps st' = set_app i (\<lambda>a. a\<lparr>a_runtime_mode := Rt_swarm, a_swarm_service_name := Some s,
            a_container_id := None, a_status := A_running, a_updated_at := now\<rparr>) (sw_apps st)
        \<and> (\<exists>polls tasks route. sw_trace st' = sw_trace st @ polls @ (List_service_tasks s, S_tasks tasks) # route
            \<and> (\<forall>x\<in>set polls. fst x = List_service_tasks s) \<and> max 1 (a_replicas app) \<le> int (healthy_tasks tasks)
            \<and> (route = [] \<and> \<not> truthy (a_domain app)
               \<or> (\<exists>d rep rep'. a_domain app = Some d \<and> rep \<noteq> S_failed
                    \<and> route = [(Set_upstream i d (s, port), rep), (Purge_cdn i, rep')])))"
proof -
  let ?s = "service_of app"
  obtain wr st1 where wt: "waitForServiceHealthy w ?s (max 1 (a_replicas app)) st = (wr, st1)" by fastforce
  note q = quietD [OF quiet_wait wt]
  show ?thesis
  proof (cases wr)
    case (Inl e)
    then have "r = Inl e" "st' = st1" using assms wt by (simp_all add: deploy_tail_def t_bind_def)
    with q show ?thesis by auto
  next
    case (Inr u)
    obtain rr st2 where rt: "route_service w app i ?s port st1 = (rr, st2)" by fastforce
    from q(4) obtain xs where xs: "sw_trace st1 = sw_trace st @ xs" "\<forall>x\<in>set xs. fst x = List_service_tasks ?s" by blast
    from route_run [OF rt] obtain ys where ys: "sw_apps st2 = sw_apps st1" "sw_trace st2 = sw_trace st1 @ ys"
      "case rr of Inl e \<Rightarrow> \<forall>x\<in>set ys. \<not> switches x \<and> keeps_services (fst x)
       | Inr _ \<Rightarrow> ys = [] \<and> \<not> truthy (a_domain app)
           \<or> (\<exists>d rep rep'. a_domain app = Some d \<and> rep \<noteq> S_failed \<and> ys = [(Set_upstream i d (?s, port), rep), (Purge_cdn i, rep')])"
      by blast
    show ?thesis
    proof (cases rr)
      case (Inl e)
      then have r: "r = Inl e" "st' = st2" using assms wt \<open>wr = Inr u\<close> rt by (simp_all add: deploy_tail_def t_bind_def)
      have "\<forall>x\<in>set (xs @ ys). \<not> switches x \<and> keeps_services (fst x)" using xs(2) ys(3) Inl by auto
      then show ?thesis using r q ys xs by auto
    next
      case (Inr v)
      then have r: "r = Inr ?s" "st' = mark_swarm_live now i ?s st2"
        using assms wt \<open>wr = Inr u\<close> rt by (simp_all add: deploy_tail_def t_bind_def t_update_def t_return_def)
      from wait_success wt \<open>wr = Inr u\<close> obtain polls tasks where
        p: "sw_trace st1 = sw_trace st @ polls @ [(List_service_tasks ?s, S_tasks tasks)]"
        "\<forall>x\<in>set polls. fst x = List_service_tasks ?s" "max 1 (a_replicas app) \<le> int (healthy_tasks tasks)" by blast
      have "sw_trace st' = sw_trace st @ polls @ (List_service_tasks ?s, S_tasks tasks) # ys"
        using r p ys by (simp add: mark_swarm_live_def)
      moreover have "sw_apps st' = set_app i (\<lambda>a. a\<lparr>a_runtime_mode := Rt_swarm, a_swarm_service_name := Some ?s,
            a_container_id := None, a_status := A_running, a_updated_at := now\<rparr>) (sw_apps st)"
        using r ys(1) q(1) by (simp add: mark_swarm_live_def)
      ultimately show ?thesis unfolding r(1) sum.case using p(2,3) ys(3) Inr by (simp only: sum.case) blast
    qed
  qed
qed


section \<open>Sequences of operations\<close>

datatype swarm_op =
  Op_deploy instant swarm_opts
| Op_scale instant ident int
| Op_stop instant ident
| Op_rollback ident "ident option"

fun swarm_step :: "swarm_world \<Rightarrow> swarm_op \<Rightarrow> swarm_state \<Rightarrow> swarm_state" where
  "swarm_step w (Op_deploy now opts) st = snd (runSwarmDeploy w now opts st)"
| "swarm_step w (Op_scale now i k) st = snd (scaleSwarmApp w now i k st)"
| "swarm_step w (Op_stop now i) st = snd (stopSwarmApp w now i st)"
| "swarm_step w (Op_rollback i target) st = snd (rollbackSwarmApp w i target st)"

fun op_app :: "swarm_op \<Rightarrow> ident" where
  "op_app (Op_deploy _ opts) = so_app_id opts"
| "op_app (Op_scale _ i _) = i"
| "op_app (Op_stop _ i) = i"
| "op_app (Op_rollback i _) = i"

definition swarm_steps :: "swarm_world \<Rightarrow> swarm_op list \<Rightarrow> swarm_state \<Rightarrow> swarm_state" where
  "swarm_steps w ops st = fold (swarm_step w) ops st"

text \<open>The names in the messages.\<close>

fun named_service :: "swarm_call \<Rightarrow> string option" where
  "named_service (Service_create s) = Some (as_name s)"
| "named_service (Service_update_image u) = Some (su_service_name u)"
| "named_service (Service_scale s _) = Some s"
| "named_service (Service_rollback s) = Some s"
| "named_service (Service_remove s) = Some s"
| "named_service (List_service_tasks s) = Some s"
| "named_service _ = None"

definition name_accepted :: "swarm_call \<times> swarm_reply \<Rightarrow> bool" where
  "name_accepted x \<longleftrightarrow> (case named_service (fst x) of None \<Rightarrow> True | Some s \<Rightarrow> validate_service_name s = None)"

definition names_typed :: "swarm_state \<Rightarrow> bool" where
  "names_typed st \<longleftrightarrow> list_all (\<lambda>a. case a_swarm_service_name a of None \<Rightarrow> True | Some s \<Rightarrow> service_name_ok s) (sw_apps st)"

section \<open>The generated name\<close>


lemma trim_dashes_hd:
  assumes "trim_dashes s \<noteq> []" shows "\<not> is_dash (hd (trim_dashes s))"
proof -
  let ?t = "dropWhile is_dash s"
  have "?t = trim_dashes s @ rev (takeWhile is_dash (rev ?t))"
    unfolding trim_dashes_def by (metis rev_append rev_rev_ident takeWhile_dropWhile_id)
  then have "hd ?t = hd (trim_dashes s)" "?t \<noteq> []" using assms by (metis hd_append2, metis append_is_Nil_conv)
  then show ?thesis using hd_dropWhile [of is_dash s] by (metis dropWhile_eq_Nil_conv)
qed

lemma service_name_shape: "service_name_ok (runtimeServiceName app)"
proof -
  define slug where "slug = take 36 (trim_dashes (replace_runs (\<lambda>c. \<not> (is_alnum c \<or> is_dash c)) (to_lower (a_slug app))))"
  define token where "token = take 10 (filter (\<lambda>c. is_alnum c \<or> is_dash c) (to_lower (a_id app)))"
  define body where "body = (if slug = [] then ''app'' else slug)"
  have n: "runtimeServiceName app = ''ploydok-app-'' @ body @ ''-'' @ token"
    by (simp add: runtimeServiceName_def Let_def slug_def token_def body_def)
  have app: "\<forall>x\<in>set ''app''. is_alnum x" by (simp add: is_alnum_def is_lower_def)
  have slug: "\<forall>x\<in>set slug. is_alnum x \<or> is_dash x"
    by (auto simp: slug_def is_dash_def dest!: in_set_takeD subsetD [OF trim_dashes_set] replace_runs_chars)
  have "slug \<noteq> [] \<Longrightarrow> \<not> is_dash (hd slug)"
    unfolding slug_def by (subst hd_take) (auto dest: trim_dashes_hd)
  then have hd: "is_alnum (hd body)" using slug app by (cases slug) (auto simp: body_def)
  have body: "body \<noteq> []" "length body \<le> 36" "\<forall>x\<in>set body. is_alnum x \<or> is_dash x"
    using slug app by (auto simp: body_def slug_def)
  have token: "length token \<le> 10" "\<forall>x\<in>set token. is_alnum x \<or> is_dash x"
    by (auto simp: token_def dest: in_set_takeD)
  have "drop 12 (runtimeServiceName app) = hd body # tl body @ ''-'' @ token" using body(1) by (simp add: n)
  moreover have "\<forall>x\<in>set (tl body). is_alnum x \<or> is_dash x" using body list.set_sel(2) by metis
  then have "list_all (\<lambda>x. is_alnum x \<or> is_dash x) (tl body @ ''-'' @ token)"
    using token(2) by (auto simp: list_all_iff is_dash_def)
  moreover have "length (tl body @ ''-'' @ token) \<le> 90" using body(2) token(1) by simp
  moreover have "starts_with ''ploydok-app-'' (runtimeServiceName app)" by (simp add: starts_with_def n)
  ultimately show ?thesis using hd unfolding service_name_ok_def by (simp only: list.case)
qed

section \<open>Names stay accepted\<close>

text \<open>Every call of a run satisfies \<open>P\<close>.\<close>

definition calls_only :: "(swarm_call \<times> swarm_reply \<Rightarrow> bool) \<Rightarrow> 'a swarm_run \<Rightarrow> bool" where
  "calls_only P m \<longleftrightarrow> (\<forall>st. \<exists>xs. sw_trace (snd (m st)) = sw_trace st @ xs \<and> (\<forall>x\<in>set xs. P x))"

lemma calls_onlyD: "calls_only P m \<Longrightarrow> \<exists>xs. sw_trace (snd (m st)) = sw_trace st @ xs \<and> (\<forall>x\<in>set xs. P x)"
  by (simp add: calls_only_def)

lemma quiet_calls: "quiet P m \<Longrightarrow> (\<And>x. P x \<Longrightarrow> Q x) \<Longrightarrow> calls_only Q m"
  unfolding quiet_def calls_only_def by meson

lemma calls_update: "(\<And>st. sw_trace (f st) = sw_trace st) \<Longrightarrow> calls_only P (t_update f)"
  by (simp add: calls_only_def t_update_def)

lemma calls_throw: "calls_only P (t_throw e)" and calls_return: "calls_only P (t_return x)"
  by (simp_all add: calls_only_def t_throw_def t_return_def)

lemma calls_do: "(\<And>r. P (c, r)) \<Longrightarrow> calls_only P (swarm_do w e c)"
  by (rule quiet_calls [OF quiet_do]) auto

lemma calls_ask: "(\<And>r. P (c, r)) \<Longrightarrow> calls_only P (swarm_ask w c)"
  by (rule quiet_calls [OF quiet_ask]) auto

lemma calls_bind:
  assumes "calls_only P m" and "\<And>x. calls_only P (f x)" shows "calls_only P (t_bind m f)"
  unfolding calls_only_def
proof
  fix st
  obtain r st1 where m: "m st = (r, st1)" by fastforce
  obtain xs where xs: "sw_trace st1 = sw_trace st @ xs" "\<forall>x\<in>set xs. P x" using calls_onlyD [OF assms(1), of st] m by auto
  show "\<exists>xs. sw_trace (snd (t_bind m f st)) = sw_trace st @ xs \<and> (\<forall>x\<in>set xs. P x)"
  proof (cases r)
    case (Inr x)
    obtain ys where "sw_trace (snd (f x st1)) = sw_trace st1 @ ys" "\<forall>x\<in>set ys. P x" using calls_onlyD [OF assms(2)] by blast
    then show ?thesis using xs by (intro exI [of _ "xs @ ys"]) (auto simp: t_bind_def m Inr)
  qed (use xs m in \<open>auto simp: t_bind_def\<close>)
qed

lemmas calls_rules = calls_bind calls_do calls_ask calls_return calls_throw calls_update

lemma calls_wait: "(\<And>r. P (List_service_tasks s, r)) \<Longrightarrow> calls_only P (waitForServiceHealthy w s k)"
  by (rule quiet_calls [OF quiet_wait]) (metis prod.collapse)

lemma calls_prepare: "(\<And>r. P (Swarm_ensure_single_node, r)) \<Longrightarrow> calls_only P (swarm_prepare w app i)"
  by (rule quiet_calls [OF prepare_quiet]) (metis prod.collapse)

lemma name_accepted_simps [simp]:
  "name_accepted (Swarm_ensure_single_node, r)" "name_accepted (Purge_cdn i, r)" "name_accepted (Remove_upstream i, r)"
  "name_accepted (Set_upstream i d v, r)"
  "name_accepted (List_service_tasks s, r) \<longleftrightarrow> service_name_ok s" "name_accepted (Service_remove s, r) \<longleftrightarrow> service_name_ok s"
  "name_accepted (Service_rollback s, r) \<longleftrightarrow> service_name_ok s" "name_accepted (Service_scale s k, r) \<longleftrightarrow> service_name_ok s"
  "name_accepted (Service_update_image u, r) \<longleftrightarrow> service_name_ok (su_service_name u)"
  "name_accepted (Service_create p, r) \<longleftrightarrow> service_name_ok (as_name p)"
  by (auto simp: name_accepted_def validate_service_name_def deny_if_def)

lemma typed_row:
  "names_typed st \<Longrightarrow> app_by_id (sw_apps st) i = Some app \<Longrightarrow> a_swarm_service_name app = Some s \<Longrightarrow> service_name_ok s"
  by (auto simp: names_typed_def list_all_iff dest!: select_first_Some)

lemma typed_service: "names_typed st \<Longrightarrow> app_by_id (sw_apps st) i = Some app \<Longrightarrow> service_name_ok (service_of app)"
  by (cases "a_swarm_service_name app") (auto simp: service_of_def service_name_shape dest: typed_row)

lemma step_calls_accepted:
  assumes "names_typed st"
  shows "\<exists>xs. sw_trace (swarm_step w op st) = sw_trace st @ xs \<and> (\<forall>x\<in>set xs. name_accepted x)"
proof (cases op)
  case (Op_deploy now opts)
  show ?thesis
  proof (cases "app_by_id (sw_apps st) (so_app_id opts)")
    case (Some app)
    note ok = typed_service [OF assms Some]
    show ?thesis
      using ok unfolding Op_deploy swarm_step.simps runSwarmDeploy_def Some option.case Let_def service_of_def [symmetric]
        apply_spec_def route_service_def
      by (cases "map_of (sw_owners st) (a_project_id app)")
        (auto simp: t_throw_def swarm_spec_of_def update_of_spec_def mark_swarm_live_def
          intro!: calls_onlyD calls_rules calls_wait calls_prepare)
  qed (simp add: Op_deploy runSwarmDeploy_def t_throw_def)
next
  case (Op_scale now i k)
  show ?thesis
  proof (cases "app_by_id (sw_apps st) i")
    case (Some app)
    then show ?thesis
      using typed_row [OF assms Some] by (cases "a_swarm_service_name app")
        (auto simp: Op_scale scaleSwarmApp_def Let_def t_throw_def intro!: calls_onlyD calls_rules calls_wait)
  qed (simp add: Op_scale scaleSwarmApp_def t_throw_def)
next
  case (Op_stop now i)
  show ?thesis
  proof (cases "app_by_id (sw_apps st) i")
    case (Some app)
    then show ?thesis
      using typed_row [OF assms Some] by (cases "a_swarm_service_name app")
        (auto simp: Op_stop stopSwarmApp_def Let_def mark_swarm_stopped_def intro!: calls_onlyD calls_rules)
  qed (auto simp: Op_stop stopSwarmApp_def Let_def mark_swarm_stopped_def intro!: calls_onlyD calls_rules)
next
  case (Op_rollback i target)
  show ?thesis
  proof (cases "app_by_id (sw_apps st) i")
    case (Some app)
    then show ?thesis
      using typed_row [OF assms Some] by (cases "a_swarm_service_name app")
        (auto simp: Op_rollback rollbackSwarmApp_def Let_def t_throw_def
          intro!: calls_onlyD calls_rules calls_wait split: option.splits)
  qed (simp add: Op_rollback rollbackSwarmApp_def t_throw_def)
qed

section \<open>What the other operations write\<close>

lemma scale_rows:
  assumes "scaleSwarmApp w now i k st = (r, st')"
  shows "r \<noteq> Inr () \<and> sw_apps st' = sw_apps st
    \<or> r = Inr () \<and> sw_apps st' = set_app i (\<lambda>a. a\<lparr>a_replicas := k, a_updated_at := now\<rparr>) (sw_apps st)"
proof (cases "app_by_id (sw_apps st) i")
  case (Some app)
  show ?thesis
  proof (cases "truthy (a_swarm_service_name app)")
    case True
    let ?s = "the (a_swarm_service_name app)"
    let ?m = "t_bind (swarm_do w Sw_agent (Service_scale ?s k)) (\<lambda>_. waitForServiceHealthy w ?s k)"
    have q: "quiet (\<lambda>_. True) ?m" by (intro quiet_bind quiet_do TrueI) (rule quiet_weaken [OF quiet_wait TrueI])
    obtain r1 st1 where m: "?m st = (r1, st1)" by fastforce
    have "scaleSwarmApp w now i k st = t_bind ?m (\<lambda>_. t_update (\<lambda>st. st\<lparr>sw_apps :=
        set_app i (\<lambda>a. a\<lparr>a_replicas := k, a_updated_at := now\<rparr>) (sw_apps st)\<rparr>)) st"
      using True by (simp add: scaleSwarmApp_def Some Let_def t_bind_assoc)
    then show ?thesis using assms quietD(1) [OF q m] m
      by (cases r1) (auto simp: t_bind_def [of ?m] t_update_def)
  qed (use assms in \<open>auto simp: scaleSwarmApp_def Some t_throw_def\<close>)
qed (use assms in \<open>auto simp: scaleSwarmApp_def t_throw_def\<close>)

lemma stop_rows:
  "sw_apps (snd (stopSwarmApp w now i st)) = sw_apps st
   \<or> sw_apps (snd (stopSwarmApp w now i st)) = set_app i (\<lambda>a. a\<lparr>a_status := A_stopped, a_swarm_service_name := None,
          a_container_id := None, a_updated_at := now\<rparr>) (sw_apps st)"
  by (auto simp: stopSwarmApp_def Let_def t_bind_def swarm_do_run t_return_def t_update_def mark_swarm_stopped_def)

lemma rollback_rows: "sw_apps (snd (rollbackSwarmApp w i target st)) = sw_apps st"
proof (cases "app_by_id (sw_apps st) i")
  case (Some app)
  show ?thesis
  proof (cases "truthy (a_swarm_service_name app)")
    case True
    let ?s = "the (a_swarm_service_name app)"
    have q: "quiet (\<lambda>_. True) (t_bind m (\<lambda>_. waitForServiceHealthy w ?s (a_replicas app)))"
      if "quiet (\<lambda>_. True) m" for m :: "unit swarm_run"
      by (rule quiet_bind [OF that]) (rule quiet_weaken [OF quiet_wait TrueI])
    show ?thesis using True unfolding rollbackSwarmApp_def Some option.case Let_def
      by (auto intro!: quiet_rows q quiet_do quiet_throw split: option.splits)
  qed (simp add: rollbackSwarmApp_def Some t_throw_def)
qed (simp add: rollbackSwarmApp_def t_throw_def)

lemma typed_update:
  "names_typed st \<Longrightarrow> (\<And>a. case a_swarm_service_name (f a) of None \<Rightarrow> True | Some s \<Rightarrow> service_name_ok s) \<Longrightarrow>
     names_typed (st\<lparr>sw_apps := update_where P f (sw_apps st)\<rparr>)"
  by (auto simp: names_typed_def list_all_iff set_update_where)

lemma typed_cong: "sw_apps st' = sw_apps st \<Longrightarrow> names_typed st' = names_typed st"
  by (simp add: names_typed_def)

lemma step_keeps_typed:
  assumes "names_typed st" shows "names_typed (swarm_step w op st)"
proof (cases op)
  case (Op_deploy now opts)
  obtain r st' where d: "runSwarmDeploy w now opts st = (r, st')" by fastforce
  from deploy_split [OF d] show ?thesis
  proof (elim disjE exE conjE)
    fix app xs st1 assume a: "app_by_id (sw_apps st) (so_app_id opts) = Some app" "sw_apps st1 = sw_apps st"
      and t: "deploy_tail w now app (so_app_id opts) (coalesce3 (so_runtime_port opts) (a_runtime_port app) 3000) st1 = (r, st')"
    show ?thesis
    proof (cases r)
      case (Inl e)
      then show ?thesis using tail_run [OF t] a assms d by (simp add: Op_deploy names_typed_def)
    next
      case (Inr s)
      then show ?thesis using tail_run [OF t] a assms d typed_service [OF assms a(1)]
        by (auto simp: Op_deploy names_typed_def list_all_iff set_update_where)
    qed
  qed (use assms d in \<open>simp add: Op_deploy names_typed_def\<close>)
next
  case (Op_scale now i k)
  show ?thesis
  proof (cases "scaleSwarmApp w now i k st")
    case (Pair r st')
    have "sw_apps st' = sw_apps st \<or> sw_apps st' = set_app i (\<lambda>a. a\<lparr>a_replicas := k, a_updated_at := now\<rparr>) (sw_apps st)"
      using scale_rows [OF Pair] by blast
    then show ?thesis using assms by (auto simp: Op_scale Pair names_typed_def list_all_iff set_update_where)
  qed
next
  case (Op_stop now i)
  then show ?thesis using assms stop_rows [of w now i st]
    by (auto simp: names_typed_def list_all_iff set_update_where)
next
  case (Op_rollback i target)
  then show ?thesis using assms rollback_rows [of w i target st] by (simp add: names_typed_def)
qed

section \<open>A service without a row\<close>

text \<open>The services of the node, as the successful calls leave them.\<close>

fun after_call :: "swarm_call \<times> swarm_reply \<Rightarrow> string list \<Rightarrow> string list" where
  "after_call (Service_create s, r) live = (if r = S_failed then live else as_name s # live)"
| "after_call (Service_remove s, r) live = (if r = S_failed then live else removeAll s live)"
| "after_call _ live = live"

definition live_services :: "swarm_history \<Rightarrow> string list" where
  "live_services h = fold after_call h []"

text \<open>The orchestrator refuses a second service of the same name.\<close>

definition unique_names :: "swarm_world \<Rightarrow> bool" where
  "unique_names w \<longleftrightarrow> (\<forall>h s. as_name s \<in> set (live_services h) \<longrightarrow> wd_env w h (Service_create s) = S_failed)"

lemma live_append: "live_services (h @ xs) = fold after_call xs (live_services h)"
  by (simp add: live_services_def)

lemma live_kept: "\<forall>x\<in>set xs. keeps_services (fst x) \<or> snd x = S_failed \<Longrightarrow> live_services (h @ xs) = live_services h"
proof (induction xs rule: rev_induct)
  case (snoc x xs)
  then have "after_call x (live_services h) = live_services h"
    by (cases x; cases "fst x") auto
  then show ?case using snoc by (simp add: live_append)
qed simp

text \<open>The row names no service while the generated name is taken.\<close>

definition stuck :: "ident \<Rightarrow> swarm_state \<Rightarrow> bool" where
  "stuck i st \<longleftrightarrow> (case app_by_id (sw_apps st) i of None \<Rightarrow> False
     | Some app \<Rightarrow> a_swarm_service_name app = None \<and> runtimeServiceName app \<in> set (live_services (sw_trace st)))"

lemma stuck_cong: "sw_apps st' = sw_apps st \<Longrightarrow> live_services (sw_trace st') = live_services (sw_trace st) \<Longrightarrow> stuck i st' = stuck i st"
  by (simp add: stuck_def split: option.splits)

lemma stuck_deploy:
  assumes "unique_names w" and "stuck (so_app_id opts) st" and "runSwarmDeploy w now opts st = (r, st')"
  shows "(\<exists>e. r = Inl e) \<and> stuck (so_app_id opts) st'"
  using deploy_split [OF assms(3)]
proof (elim disjE exE conjE)
  fix e xs assume a: "r = Inl e" "sw_apps st' = sw_apps st" "sw_trace st' = sw_trace st @ xs"
    "\<forall>x\<in>set xs. fst x = Swarm_ensure_single_node \<or> applied_service (fst x) \<noteq> None \<and> snd x = S_failed"
  then have "live_services (sw_trace st') = live_services (sw_trace st)"
    using live_kept [of xs "sw_trace st"] by (metis keeps_services.simps(3))
  then show ?thesis using a assms(2) stuck_cong by metis
next
  fix app xs st1 assume a: "app_by_id (sw_apps st) (so_app_id opts) = Some app"
    and b: "before_wait w (sw_trace st) app (so_image_ref opts) xs"
  from a assms(2) have n: "a_swarm_service_name app = None" "runtimeServiceName app \<in> set (live_services (sw_trace st))"
    by (simp_all add: stuck_def)
  from b n(1) obtain pre c rep spec where p: "\<forall>x\<in>set pre. fst x = Swarm_ensure_single_node"
    "rep = wd_env w (sw_trace st @ pre) c" "rep \<noteq> S_failed" "c = Service_create spec" "as_name spec = runtimeServiceName app"
    by (auto simp: before_wait_def service_of_def)
  have "live_services (sw_trace st @ pre) = live_services (sw_trace st)"
    using p(1) live_kept [of pre "sw_trace st"] by (metis keeps_services.simps(3))
  then have "rep = S_failed" using assms(1) p n(2) by (simp add: unique_names_def)
  with p(3) show ?thesis by simp
qed

lemma stuck_stop:
  assumes "stuck i st" and "stopSwarmApp w now i st = (r, st')"
  shows "stuck i st' \<and> (\<exists>xs. sw_trace st' = sw_trace st @ xs \<and> (\<forall>x\<in>set xs. fst x = Remove_upstream i))"
proof -
  from assms(1) obtain app where app: "app_by_id (sw_apps st) i = Some app" "a_swarm_service_name app = None"
    "runtimeServiceName app \<in> set (live_services (sw_trace st))" by (auto simp: stuck_def split: option.splits)
  let ?x = "(Remove_upstream i, wd_env w (sw_trace st) (Remove_upstream i))"
  let ?f = "\<lambda>a. a\<lparr>a_status := A_stopped, a_swarm_service_name := None, a_container_id := None, a_updated_at := now\<rparr>"
  have tr: "sw_trace st' = sw_trace st @ [?x]"
    and rows: "sw_apps st' = sw_apps st \<or> sw_apps st' = set_app i ?f (sw_apps st)"
    using assms(2) app by (auto simp: stopSwarmApp_def Let_def t_bind_def swarm_do_run t_return_def t_update_def
        mark_swarm_stopped_def split: if_splits)
  have live: "live_services (sw_trace st') = live_services (sw_trace st)" unfolding tr by (simp add: live_append)
  have "app_by_id (set_app i ?f (sw_apps st)) i = Some (?f app)"
    using app(1) by (subst select_first_update_where) simp_all
  moreover have "runtimeServiceName (?f app) = runtimeServiceName app" by (simp add: runtimeServiceName_def)
  ultimately have "stuck i st'" using rows app live by (elim disjE) (simp_all add: stuck_def)
  with tr show ?thesis by simp
qed

lemma stuck_step:
  assumes "unique_names w" and "stuck i st" and "op_app op = i"
  shows "stuck i (swarm_step w op st)"
proof -
  from assms(2) obtain app where app: "app_by_id (sw_apps st) i = Some app" "a_swarm_service_name app = None"
    by (auto simp: stuck_def split: option.splits)
  show ?thesis
  proof (cases op)
    case (Op_deploy now opts)
    then show ?thesis using stuck_deploy [OF assms(1), of opts st now] assms(2,3)
      by (metis op_app.simps(1) prod.collapse swarm_step.simps(1))
  next
    case (Op_stop now i')
    then show ?thesis using stuck_stop [OF assms(2), of w now] assms(3)
      by (metis op_app.simps(3) prod.collapse swarm_step.simps(3))
  qed (use assms app in \<open>simp_all add: scaleSwarmApp_def rollbackSwarmApp_def t_throw_def\<close>)
qed

lemma stuck_steps:
  "unique_names w \<Longrightarrow> stuck i st \<Longrightarrow> \<forall>op\<in>set ops. op_app op = i \<Longrightarrow> stuck i (swarm_steps w ops st)"
  unfolding swarm_steps_def by (induction ops arbitrary: st) (auto intro: stuck_step)

lemma timed_out_stuck:
  assumes "runSwarmDeploy w now opts st = (Inl Sw_not_healthy, st')"
    and "app_by_id (sw_apps st) (so_app_id opts) = Some app" and "a_swarm_service_name app = None"
  shows "stuck (so_app_id opts) st'"
  using deploy_split [OF assms(1)]
proof (elim disjE exE conjE)
  fix app' xs st1
  assume a: "app_by_id (sw_apps st) (so_app_id opts) = Some app'" "sw_apps st1 = sw_apps st"
      "sw_trace st1 = sw_trace st @ xs" "before_wait w (sw_trace st) app' (so_image_ref opts) xs"
    and t: "deploy_tail w now app' (so_app_id opts) (coalesce3 (so_runtime_port opts) (a_runtime_port app') 3000) st1
      = (Inl Sw_not_healthy, st')"
  have [simp]: "app' = app" using a(1) assms(2) by simp
  from a(4) assms(3) obtain pre c rep spec where p: "xs = pre @ [(Service_create spec, rep)]" "rep \<noteq> S_failed"
    "as_name spec = runtimeServiceName app" by (auto simp: before_wait_def service_of_def)
  from tail_run [OF t] obtain ys where ys: "sw_apps st' = sw_apps st1" "sw_trace st' = sw_trace st1 @ ys"
    "\<forall>x\<in>set ys. keeps_services (fst x)" by auto
  have "live_services (sw_trace st') = live_services (sw_trace st1)" unfolding ys(2) using ys(3) by (intro live_kept) auto
  moreover have "runtimeServiceName app \<in> set (live_services (sw_trace st1))"
    unfolding a(3) p(1) using p(2,3) by (simp add: live_append)
  ultimately show ?thesis using a ys assms(3) by (simp add: stuck_def)
qed simp

section \<open>What the agent asks of a service\<close>

definition agent_update_of :: "swarm_update \<Rightarrow> service_update" where
  "agent_update_of u = \<lparr>au_service_name = su_service_name u, au_image = su_image u,
     au_spec = map_option service_spec.truncate (su_spec u)\<rparr>"

text \<open>The check the agent makes on a message about a service.\<close>

fun swarm_verdict :: "validator_config \<Rightarrow> swarm_call \<Rightarrow> verdict" where
  "swarm_verdict cfg (Service_create s) = validate_service_create cfg (service_spec.truncate s)"
| "swarm_verdict cfg (Service_update_image u) = validate_service_update_image cfg (agent_update_of u)"
| "swarm_verdict cfg (Service_scale s _) = validate_service_scale s"
| "swarm_verdict cfg (Service_rollback s) = validate_service_rollback s"
| "swarm_verdict cfg (Service_remove s) = validate_service_remove s"
| "swarm_verdict cfg (List_service_tasks s) = validate_list_service_tasks s"
| "swarm_verdict cfg _ = None"

lemma service_conditions:
  "validate_service_create cfg s = None \<longleftrightarrow>
     service_name_ok (as_name s) \<and> extract_registry (as_image s) \<in> set (vc_allowed_registries cfg)
     \<and> (\<forall>n\<in>set (as_networks s). starts_with ''ploydok-'' n)
     \<and> (\<forall>v\<in>set (as_mounts s). validate_host_path (vm_host_path v) [vc_volume_prefix cfg, vc_app_volume_prefix cfg])
     \<and> has_label (as_labels s) ''ploydok.app_id'' \<and> has_label (as_labels s) ''ploydok.owner_id''
     \<and> (case as_resource_limits s of None \<Rightarrow> True
        | Some l \<Rightarrow> al_cpu l \<le> max (vc_max_cpu cfg) 0 \<and> al_memory_bytes l \<le> max (vc_max_memory_bytes cfg) 0)"
proof -
  have lim: "validate_limits cfg l = None \<longleftrightarrow> (case l of None \<Rightarrow> True
      | Some l \<Rightarrow> al_cpu l \<le> max (vc_max_cpu cfg) 0 \<and> al_memory_bytes l \<le> max (vc_max_memory_bytes cfg) 0)" for l
    by (auto simp: validate_limits_def split: option.splits)
  have net: "validate_network_name n = None \<longleftrightarrow> starts_with ''ploydok-'' n" for n
    by (auto simp: validate_network_name_def deny_if_def starts_with_def)
  have reg: "registry_allowed cfg i \<longleftrightarrow> extract_registry i \<in> set (vc_allowed_registries cfg)" for i
    by (auto simp: registry_allowed_def list_ex_iff)
  show ?thesis unfolding validate_service_create_def first_denial_None
    by (simp add: lim net reg ball_Un validate_volumes_def validate_labels_def validate_service_name_def list_all_iff) blast
qed

lemma swarm_plan_limits:
  "al_cpu (swarm_limits app) \<le> max cpus 0 \<and> al_memory_bytes (swarm_limits app) \<le> max mem 0
   \<longleftrightarrow> (\<forall>c. a_cpu_limit app = Some c \<longrightarrow> c \<le> cpus) \<and> (\<forall>m. a_mem_limit_bytes app = Some m \<longrightarrow> m \<le> mem)"
  if "cpus \<ge> 2" "mem \<ge> 2048 * 1024 * 1024"
  using that
  by (cases "a_plan app"; cases "a_cpu_limit app"; cases "a_mem_limit_bytes app")
    (auto simp: swarm_limits_def or_default_def max_def)

lemma update_same_verdict:
  "validate_service_update_image cfg (agent_update_of (update_of_spec s)) = None
     \<longleftrightarrow> validate_service_create cfg (service_spec.truncate s) = None"
proof -
  let ?t = "service_spec.truncate s"
  have "validate_service_create cfg ?t = None \<Longrightarrow> service_name_ok (as_name s) \<and> registry_allowed cfg (as_image s)"
    by (auto simp: service_conditions service_spec.truncate_def registry_allowed_def list_ex_iff)
  then show ?thesis
    by (cases "validate_service_create cfg ?t")
      (auto simp: validate_service_update_image_def first_denial_None agent_update_of_def update_of_spec_def
        validate_service_name_def deny_if_def service_spec.truncate_def)
qed

lemma apply_conditions:
  "swarm_verdict cfg (apply_call app s) = None \<longleftrightarrow> validate_service_create cfg (service_spec.truncate s) = None"
  by (simp add: apply_call_def update_same_verdict)

section \<open>Properties\<close>

text \<open>
  C6. A Swarm deploy goes live completely or not at all. When it returns, the new image was applied to the service of the app, polls of the
  tasks followed, the last of which showed as many healthy tasks as the row has replicas (and at least one), only then was the
  domain of the app, if it has one, moved to the service, and the row names that service and is running. When it throws, no
  app row has changed and no upstream was moved.
\<close>

theorem swarm_deploy_all_or_nothing:
  assumes "runSwarmDeploy w now opts st = (r, st')"
  shows "case r of
      Inl e \<Rightarrow> sw_apps st' = sw_apps st \<and> (\<exists>xs. sw_trace st' = sw_trace st @ xs \<and> (\<forall>x\<in>set xs. \<not> switches x))
    | Inr s \<Rightarrow> \<exists>app pre c rep polls tasks route.
        app_by_id (sw_apps st) (so_app_id opts) = Some app \<and> s = service_of app
        \<and> sw_apps st' = set_app (so_app_id opts) (\<lambda>a. a\<lparr>a_runtime_mode := Rt_swarm, a_swarm_service_name := Some s,
            a_container_id := None, a_status := A_running, a_updated_at := now\<rparr>) (sw_apps st)
        \<and> sw_trace st' = sw_trace st @ pre @ (c, rep) # polls @ (List_service_tasks s, S_tasks tasks) # route
        \<and> (\<forall>x\<in>set pre. fst x = Swarm_ensure_single_node)
        \<and> applied_service c = Some (s, so_image_ref opts) \<and> rep \<noteq> S_failed
        \<and> (\<forall>x\<in>set polls. fst x = List_service_tasks s) \<and> max 1 (a_replicas app) \<le> int (healthy_tasks tasks)
        \<and> (route = [] \<and> \<not> truthy (a_domain app)
           \<or> (\<exists>d u v. a_domain app = Some d \<and> u \<noteq> S_failed
                \<and> route = [(Set_upstream (so_app_id opts) d
                       (s, coalesce3 (so_runtime_port opts) (a_runtime_port app) 3000), u), (Purge_cdn (so_app_id opts), v)]))"
  using deploy_split [OF assms]
proof (elim disjE exE conjE)
  fix e xs
  assume a: "r = Inl e" "sw_apps st' = sw_apps st" "sw_trace st' = sw_trace st @ xs"
    "\<forall>x\<in>set xs. fst x = Swarm_ensure_single_node \<or> applied_service (fst x) \<noteq> None \<and> snd x = S_failed"
  then have "\<forall>x\<in>set xs. \<not> switches x" by fastforce
  with a show ?thesis by simp
next
  fix app xs st1
  assume a: "app_by_id (sw_apps st) (so_app_id opts) = Some app" "sw_apps st1 = sw_apps st"
      "sw_trace st1 = sw_trace st @ xs" "before_wait w (sw_trace st) app (so_image_ref opts) xs"
    and t: "deploy_tail w now app (so_app_id opts) (coalesce3 (so_runtime_port opts) (a_runtime_port app) 3000) st1 = (r, st')"
  from a(4) obtain pre c rep where p: "xs = pre @ [(c, rep)]" "\<forall>x\<in>set pre. fst x = Swarm_ensure_single_node" "rep \<noteq> S_failed"
    "applied_service c = Some (service_of app, so_image_ref opts)" by (auto simp: before_wait_def)
  show ?thesis
  proof (cases r)
    case (Inl e)
    with tail_run [OF t] obtain ys where ys: "sw_apps st' = sw_apps st1" "sw_trace st' = sw_trace st1 @ ys"
      "\<forall>x\<in>set ys. \<not> switches x" by auto
    have "\<not> switches (c, rep)" using p(4) by auto
    then have "\<forall>x\<in>set (xs @ ys). \<not> switches x" using p(1,2) ys(3) by auto
    then show ?thesis using Inl a ys by auto
  next
    case (Inr s)
    with tail_run [OF t] a p show ?thesis by (simp only: sum.case append_assoc append_Cons append_Nil) blast
  qed
qed

definition swarm_agent :: "swarm_task list \<Rightarrow> swarm_environment" where
  "swarm_agent tasks h c =
     (case c of
        List_service_tasks _ \<Rightarrow> S_tasks tasks
      | Service_create s \<Rightarrow> if as_name s \<in> set (live_services h) then S_failed else S_ok
      | _ \<Rightarrow> S_ok)"

definition sample_world :: "swarm_task list \<Rightarrow> swarm_world" where
  "sample_world tasks = \<lparr>wd_env = swarm_agent tasks, wd_net_env = sample_agent, wd_clock = (\<lambda>n. 60000 * int n),
     wd_rank = length, wd_fuel = 91\<rparr>"

definition sample_swarm :: swarm_state where
  "sample_swarm = \<lparr>sw_apps = [(default_app ''a1'' ''p1'' ''web'' 0)\<lparr>a_domain := Some ''web.test''\<rparr>], sw_builds = [],
     sw_owners = [(''p1'', ''u1'')], sw_volumes = \<lparr>vs_volumes = [], vs_dirs = []\<rparr>,
     sw_net = \<lparr>nw_projects = [\<lparr>pn_id = ''p1'', pn_network_name = None\<rparr>], nw_databases = [], nw_apps = [],
       nw_caddy_id = None, nw_trace = []\<rparr>, sw_trace = [], sw_readings = 0\<rparr>"

definition sample_deploy :: swarm_opts where
  "sample_deploy = \<lparr>so_app_id = ''a1'', so_image_ref = ''ghcr.io/acme/web:1'', so_env = [], so_runtime_port = Some 80\<rparr>"

theorem swarm_deploy_all_or_nothing_witness:
  "\<exists>pre c rep polls tasks. applied_service c = Some (''ploydok-app-web-a1'', ''ghcr.io/acme/web:1'') \<and> rep \<noteq> S_failed
     \<and> 1 \<le> int (healthy_tasks tasks)
     \<and> sw_trace (snd (runSwarmDeploy (sample_world [\<lparr>tk_image = ''x'', tk_status = ''Up 3 seconds (healthy)''\<rparr>]) 9 sample_deploy sample_swarm))
       = pre @ (c, rep) # polls @ [(List_service_tasks ''ploydok-app-web-a1'', S_tasks tasks),
           (Set_upstream ''a1'' ''web.test'' (''ploydok-app-web-a1'', 80), S_ok), (Purge_cdn ''a1'', S_ok)]"
proof -
  let ?w = "sample_world [\<lparr>tk_image = ''x'', tk_status = ''Up 3 seconds (healthy)''\<rparr>]"
  let ?st = "snd (runSwarmDeploy ?w 9 sample_deploy sample_swarm)"
  have "runSwarmDeploy ?w 9 sample_deploy sample_swarm = (Inr ''ploydok-app-web-a1'', ?st)" by code_simp
  note all = swarm_deploy_all_or_nothing [OF this]
  have tr: "take 2 (rev (sw_trace ?st)) = [(Purge_cdn ''a1'', S_ok), (Set_upstream ''a1'' ''web.test'' (''ploydok-app-web-a1'', 80), S_ok)]"
    by code_simp
  have app: "app_by_id (sw_apps sample_swarm) (so_app_id sample_deploy) = Some app \<Longrightarrow> a_replicas app = 1" for app
    by (auto simp: sample_swarm_def sample_deploy_def select_first_def default_app_def)
  have f: "so_image_ref sample_deploy = ''ghcr.io/acme/web:1''" "sw_trace sample_swarm = []"
    by (simp_all add: sample_deploy_def sample_swarm_def)
  from all obtain app pre c rep polls tasks route where
    a: "app_by_id (sw_apps sample_swarm) (so_app_id sample_deploy) = Some app"
      "applied_service c = Some (''ploydok-app-web-a1'', ''ghcr.io/acme/web:1'')" "rep \<noteq> S_failed"
      "max 1 (a_replicas app) \<le> int (healthy_tasks tasks)"
    and t: "sw_trace ?st = pre @ (c, rep) # polls @ (List_service_tasks ''ploydok-app-web-a1'', S_tasks tasks) # route"
    and route: "route = [] \<or> (\<exists>x y. route = [x, y])"
    unfolding sum.case f append_Nil by blast
  have "route \<noteq> []" using tr t by auto
  with route obtain x y where "route = [x, y]" by blast
  with tr t have "route = [(Set_upstream ''a1'' ''web.test'' (''ploydok-app-web-a1'', 80), S_ok), (Purge_cdn ''a1'', S_ok)]" by simp
  with a t app [OF a(1)] show ?thesis by (intro exI conjI) auto
qed

text \<open>
  C25. A first deploy whose tasks do not become healthy in time leaves a service that no row names, and
  blocks the app: whatever deploys, scalings, stops and rollbacks of the app
  follow, every later deploy throws, because the orchestrator refuses a second service of the same name, and a stop
  makes no call but the removal of the route, so the service is never removed.
\<close>

theorem failed_first_deploy_blocks_app:
  assumes "unique_names w"
    and "runSwarmDeploy w now opts st = (Inl Sw_not_healthy, st')"
    and "app_by_id (sw_apps st) (so_app_id opts) = Some app" and "a_swarm_service_name app = None"
    and "\<forall>op\<in>set ops. op_app op = so_app_id opts"
    and "so_app_id again = so_app_id opts"
  shows "(\<exists>e. fst (runSwarmDeploy w later again (swarm_steps w ops st')) = Inl e)
    \<and> (\<exists>xs. sw_trace (snd (stopSwarmApp w later (so_app_id opts) (swarm_steps w ops st'))) = sw_trace (swarm_steps w ops st') @ xs
         \<and> (\<forall>x\<in>set xs. fst x = Remove_upstream (so_app_id opts)))"
proof -
  let ?st = "swarm_steps w ops st'"
  have s: "stuck (so_app_id opts) ?st" by (rule stuck_steps [OF assms(1) timed_out_stuck [OF assms(2-4)] assms(5)])
  have "runSwarmDeploy w later again ?st = (fst (runSwarmDeploy w later again ?st), snd (runSwarmDeploy w later again ?st))"
    "stopSwarmApp w later (so_app_id opts) ?st = (fst (stopSwarmApp w later (so_app_id opts) ?st), snd (stopSwarmApp w later (so_app_id opts) ?st))"
    by simp_all
  then show ?thesis using stuck_deploy [OF assms(1), of again ?st later] stuck_stop [OF s] s assms(6) by metis
qed

lemma sample_world_unique: "unique_names (sample_world tasks)"
  by (simp add: unique_names_def sample_world_def swarm_agent_def)

theorem failed_first_deploy_blocks_app_witness:
  "\<exists>e. fst (runSwarmDeploy (sample_world []) 20 sample_deploy (swarm_steps (sample_world []) [Op_stop 12 ''a1'']
     (snd (runSwarmDeploy (sample_world []) 9 sample_deploy sample_swarm)))) = Inl e"
proof -
  let ?w = "sample_world []"
  let ?app = "(default_app ''a1'' ''p1'' ''web'' 0)\<lparr>a_domain := Some ''web.test''\<rparr>"
  have r: "runSwarmDeploy ?w 9 sample_deploy sample_swarm = (Inl Sw_not_healthy, snd (runSwarmDeploy ?w 9 sample_deploy sample_swarm))"
    by code_simp
  have a: "app_by_id (sw_apps sample_swarm) (so_app_id sample_deploy) = Some ?app" "a_swarm_service_name ?app = None"
    by (simp_all add: sample_swarm_def sample_deploy_def select_first_def default_app_def)
  have "\<forall>op\<in>set [Op_stop 12 ''a1'']. op_app op = so_app_id sample_deploy" by (simp add: sample_deploy_def)
  from failed_first_deploy_blocks_app [OF sample_world_unique r a this refl, of 20] show ?thesis by blast
qed

text \<open>
  C30. Names of services are well formed everywhere: from rows whose service names match the pattern of the agent, any sequence of deploys,
  scalings, stops and rollbacks leads to such rows again, and every message sent on the way names a
  service the agent accepts.
\<close>

theorem swarm_names_well_formed:
  assumes "names_typed st"
  shows "names_typed (swarm_steps w ops st)
    \<and> (\<exists>xs. sw_trace (swarm_steps w ops st) = sw_trace st @ xs \<and> (\<forall>x\<in>set xs. name_accepted x))"
  using assms
proof (induction ops arbitrary: st)
  case (Cons op ops)
  obtain xs where xs: "sw_trace (swarm_step w op st) = sw_trace st @ xs" "\<forall>x\<in>set xs. name_accepted x"
    using step_calls_accepted [OF Cons.prems] by blast
  obtain ys where "names_typed (swarm_steps w ops (swarm_step w op st))"
    "sw_trace (swarm_steps w ops (swarm_step w op st)) = sw_trace (swarm_step w op st) @ ys" "\<forall>x\<in>set ys. name_accepted x"
    using Cons.IH [OF step_keeps_typed [OF Cons.prems]] by blast
  then show ?case using xs by (intro conjI exI [of _ "xs @ ys"]) (auto simp: swarm_steps_def)
qed (simp add: swarm_steps_def)

theorem swarm_names_well_formed_witness:
  "names_typed (swarm_steps (sample_world []) [Op_deploy 9 sample_deploy, Op_stop 12 ''a1''] sample_swarm)"
proof -
  have "names_typed sample_swarm" by code_simp
  from swarm_names_well_formed [OF this] show ?thesis by blast
qed



text \<open>A task counts as healthy while its health check has not passed yet.\<close>

lemma starting_task_is_healthy: "taskIsHealthy ''Up 3 seconds (health: starting)''"
  by code_simp

end
