(* ===== verification/Registry_Gc.thy ===== *)
theory Registry_Gc
  imports Build_Queue Runtime_Names
begin

text \<open>
  The collector of the image registry (\<^verbatim>\<open>worker/handlers/gc-registry.ts\<close>) and the
  registry helpers it is compared with (\<^verbatim>\<open>gcKeepLast\<close> and \<^verbatim>\<open>diskGuard\<close> of
  \<^verbatim>\<open>worker/registry.ts\<close>). The registry is a service: its answers to list, manifest and
  delete requests are arguments. A repository is read before anything in it is
  deleted, so the answers to the reads do not depend on the deletions. The database may answer a
  query with \<^verbatim>\<open>LIMIT 1\<close> and no order with any matching row; \<open>pick\<close> is its choice.
\<close>

section \<open>The registry\<close>

record manifest =
  mf_digest :: string
  mf_created_at :: "instant option"

text \<open>\<open>Inl\<close> is a request that fails; a manifest that does not exist is \<open>Inr None\<close>.\<close>

record registry_client =
  rg_list_tags :: "string \<Rightarrow> string + string list"
  rg_get_manifest :: "string \<Rightarrow> string \<Rightarrow> string + manifest option"
  rg_delete_digest :: "string \<Rightarrow> string \<Rightarrow> bool"
  rg_disk_usage_pct :: int
  rg_garbage_collect :: bool

record tagged_image =
  ti_tag :: string
  ti_digest :: string
  ti_created_at :: "instant option"

record gc_state =
  gc_repos_scanned :: nat
  gc_tags_deleted :: nat
  gc_requests :: "(string \<times> string) list"

section \<open>Tags\<close>

definition short_tag :: "string \<Rightarrow> string" where
  "short_tag image_tag = last (split_on CHR '':'' image_tag)"

text \<open>The later entry wins: the rows come newest first, so the date of a tag is that of its oldest build.\<close>

fun build_dates :: "build_row list \<Rightarrow> (string \<times> instant) list" where
  "build_dates [] = []"
| "build_dates (b # bs) =
     build_dates bs @ (if truthy (b_image_tag b) then [(short_tag (the (b_image_tag b)), b_created_at b)] else [])"

definition loadProtectedTags ::
  "(build_row list \<Rightarrow> build_row option) \<Rightarrow> build_row table \<Rightarrow> ident \<Rightarrow> string option \<Rightarrow> string list" where
  "loadProtectedTags pick builds appId containerId =
     (if truthy containerId then
        (case pick (select_where (\<lambda>b. b_container_id b = containerId) builds) of
           Some b \<Rightarrow> if truthy (b_image_tag b) then [short_tag (the (b_image_tag b))] else []
         | None \<Rightarrow> [])
      else [])
     @ (case first_row (order_desc b_created_at
              (select_where (\<lambda>b. b_app_id b = appId \<and> b_status b = B_succeeded) builds)) of
          Some b \<Rightarrow> if truthy (b_image_tag b) then [short_tag (the (b_image_tag b))] else []
        | None \<Rightarrow> [])"

section \<open>One repository\<close>

fun resolve_tags ::
  "registry_client \<Rightarrow> string \<Rightarrow> (string \<times> instant) list \<Rightarrow> string list \<Rightarrow> string + tagged_image list" where
  "resolve_tags rc repo dates [] = Inr []"
| "resolve_tags rc repo dates (t # ts) =
     (case rg_get_manifest rc repo t of
        Inl e \<Rightarrow> Inl e
      | Inr mf \<Rightarrow>
          (case resolve_tags rc repo dates ts of
             Inl e \<Rightarrow> Inl e
           | Inr rest \<Rightarrow>
               Inr (case mf of
                      None \<Rightarrow> rest
                    | Some m \<Rightarrow>
                        \<lparr>ti_tag = t, ti_digest = mf_digest m,
                         ti_created_at = (case map_of dates t of Some d \<Rightarrow> Some d | None \<Rightarrow> mf_created_at m)\<rparr> # rest)))"

definition known_digest :: "tagged_image \<Rightarrow> bool" where
  "known_digest i \<longleftrightarrow> ti_digest i \<noteq> ''sha256:unknown'' \<and> ti_digest i \<noteq> []"

text \<open>A stable sort: the images with a date, newest first, then the others in their order.\<close>

definition newest_first :: "tagged_image list \<Rightarrow> tagged_image list" where
  "newest_first xs =
     sort_key (\<lambda>i. - the (ti_created_at i)) (filter (\<lambda>i. ti_created_at i \<noteq> None) xs)
     @ filter (\<lambda>i. ti_created_at i = None) xs"

definition protected_digests :: "string list \<Rightarrow> tagged_image list \<Rightarrow> string list" where
  "protected_digests tags xs = map ti_digest (filter (\<lambda>i. ti_tag i \<in> set tags) xs)"

text \<open>Each digest once, in the order of its first image, without the protected ones.\<close>

fun digests_to_delete :: "string list \<Rightarrow> string list \<Rightarrow> tagged_image list \<Rightarrow> string list" where
  "digests_to_delete seen protected [] = []"
| "digests_to_delete seen protected (i # is) =
     (if ti_digest i \<in> set seen then digests_to_delete seen protected is
      else (if ti_digest i \<in> set protected then [] else [ti_digest i])
           @ digests_to_delete (ti_digest i # seen) protected is)"

fun delete_all :: "registry_client \<Rightarrow> string \<Rightarrow> string list \<Rightarrow> gc_state \<Rightarrow> gc_state" where
  "delete_all rc repo [] st = st"
| "delete_all rc repo (d # ds) st =
     delete_all rc repo ds (st\<lparr>gc_requests := gc_requests st @ [(repo, d)],
       gc_tags_deleted := gc_tags_deleted st + (if rg_delete_digest rc repo d then 1 else 0)\<rparr>)"

definition effective_keep :: "nat \<Rightarrow> app_row \<Rightarrow> nat" where
  "effective_keep keepPerRepo app =
     (if keepPerRepo = 0 then 0 else case a_keep_per_repo app of Some k \<Rightarrow> k | None \<Rightarrow> keepPerRepo)"

definition gc_app ::
  "registry_client \<Rightarrow> (build_row list \<Rightarrow> build_row option) \<Rightarrow> build_row table \<Rightarrow> nat \<Rightarrow> app_row \<Rightarrow> gc_state
   \<Rightarrow> string option \<times> gc_state" where
  "gc_app rc pick builds keepPerRepo app st =
     (let repo = imageRepoForApp (a_id app) in
      case rg_list_tags rc repo of
        Inl e \<Rightarrow> (Some e, st)
      | Inr tags \<Rightarrow>
          if tags = [] then (None, st)
          else
            let st1 = st\<lparr>gc_repos_scanned := gc_repos_scanned st + 1\<rparr>;
                keep = effective_keep keepPerRepo app;
                protectedTags = loadProtectedTags pick builds (a_id app) (a_container_id app)
            in if keep > 0 \<and> length tags \<le> keep then (None, st1)
               else
                 let dates = build_dates (order_desc b_created_at (select_where (\<lambda>b. b_app_id b = a_id app) builds))
                 in case resolve_tags rc repo dates tags of
                      Inl e \<Rightarrow> (Some e, st1)
                    | Inr resolved \<Rightarrow>
                        let valid = newest_first (filter known_digest resolved)
                        in (None, delete_all rc repo
                              (digests_to_delete [] (protected_digests protectedTags valid) (drop keep valid)) st1))"

section \<open>The sweep\<close>

fun gc_apps ::
  "registry_client \<Rightarrow> (build_row list \<Rightarrow> build_row option) \<Rightarrow> build_row table \<Rightarrow> nat \<Rightarrow> app_row list \<Rightarrow> gc_state
   \<Rightarrow> string option \<times> gc_state" where
  "gc_apps rc pick builds keep [] st = (None, st)"
| "gc_apps rc pick builds keep (a # as) st =
     (case gc_app rc pick builds keep a st of
        (Some e, st') \<Rightarrow> (Some e, st')
      | (None, st') \<Rightarrow> gc_apps rc pick builds keep as st')"

text \<open>The error, if the sweep throws; the state; whether blobs were reclaimed, if that was tried.\<close>

definition runRegistryGc ::
  "registry_client \<Rightarrow> (build_row list \<Rightarrow> build_row option) \<Rightarrow> app_row table \<Rightarrow> build_row table \<Rightarrow> nat \<Rightarrow> ident option
   \<Rightarrow> bool \<Rightarrow> string option \<times> gc_state \<times> bool option" where
  "runRegistryGc rc pick apps builds keepPerRepo appFilter skipBlobReclaim =
     (let appRows = (case appFilter of
            Some i \<Rightarrow> if i = [] then apps else (case select_first (\<lambda>a. a_id a = i) apps of None \<Rightarrow> [] | Some a \<Rightarrow> [a])
          | None \<Rightarrow> apps)
      in case gc_apps rc pick builds keepPerRepo appRows \<lparr>gc_repos_scanned = 0, gc_tags_deleted = 0, gc_requests = []\<rparr> of
           (Some e, st) \<Rightarrow> (Some e, st, None)
         | (None, st) \<Rightarrow>
             (None, st, if \<not> skipBlobReclaim \<and> gc_tags_deleted st > 0 then Some (rg_garbage_collect rc) else None))"

definition runAggressiveDiskGuard ::
  "registry_client \<Rightarrow> (build_row list \<Rightarrow> build_row option) \<Rightarrow> app_row table \<Rightarrow> build_row table \<Rightarrow> int \<Rightarrow> nat
   \<Rightarrow> (string option \<times> gc_state \<times> bool option) option" where
  "runAggressiveDiskGuard rc pick apps builds thresholdPct keepUnderPressure =
     (if rg_disk_usage_pct rc < thresholdPct then None
      else Some (runRegistryGc rc pick apps builds keepUnderPressure None False))"

text \<open>The guard in front of a build: the usage before and after the recovery, and whether it throws.\<close>

definition diskGuard :: "int \<Rightarrow> int \<Rightarrow> int option \<Rightarrow> bool" where
  "diskGuard thresholdPct before after =
     (if before < thresholdPct then False
      else case after of Some pct \<Rightarrow> \<not> pct < thresholdPct | None \<Rightarrow> True)"

definition getRegistryUsageForApp :: "registry_client \<Rightarrow> ident \<Rightarrow> string + nat \<times> int" where
  "getRegistryUsageForApp rc appId =
     (case rg_list_tags rc (''app-'' @ to_lower appId) of
        Inl e \<Rightarrow> Inl e
      | Inr tags \<Rightarrow> Inr (length tags, rg_disk_usage_pct rc))"

text \<open>\<^verbatim>\<open>gcKeepLast\<close>: the digests it deletes, in order; a failed deletion throws and is left out here.\<close>

definition gcKeepLast :: "registry_client \<Rightarrow> string \<Rightarrow> nat \<Rightarrow> string + string list" where
  "gcKeepLast rc repo n =
     (case rg_list_tags rc repo of
        Inl e \<Rightarrow> Inl e
      | Inr tags \<Rightarrow>
          if length tags \<le> n then Inr []
          else case resolve_tags rc repo [] tags of
                 Inl e \<Rightarrow> Inl e
               | Inr resolved \<Rightarrow>
                   Inr (digests_to_delete [] []
                     (drop n (newest_first (filter (\<lambda>i. ti_digest i \<noteq> ''sha256:unknown'') resolved)))))"

section \<open>The schedule\<close>

definition ONE_DAY_MS :: int where "ONE_DAY_MS = 24 * 60 * 60 * 1000"

definition msUntilNextUtcHour :: "instant \<Rightarrow> int \<Rightarrow> int" where
  "msUntilNextUtcHour now hourUtc =
     (let today = now - now mod ONE_DAY_MS;
          at_hour = today + hourUtc * 60 * 60 * 1000;
          following = (if at_hour \<le> now then at_hour + ONE_DAY_MS else at_hour)
      in following - now)"

section \<open>Lemmas on the order\<close>



lemma set_newest_first [simp]: "set (newest_first xs) = set xs"
  by (auto simp: newest_first_def)






section \<open>Lemmas on the sweep\<close>
















section \<open>Properties\<close>



section \<open>Examples\<close>

text \<open>A registry with given tags, each with its digest and date, in every repository.\<close>

definition sample_registry :: "(string \<times> string \<times> instant) list \<Rightarrow> registry_client" where
  "sample_registry images =
     \<lparr>rg_list_tags = (\<lambda>_. Inr (map fst images)),
      rg_get_manifest = (\<lambda>_ t. Inr (map_option (\<lambda>(d, c). \<lparr>mf_digest = d, mf_created_at = Some c\<rparr>) (map_of images t))),
      rg_delete_digest = (\<lambda>_ _. True), rg_disk_usage_pct = 50, rg_garbage_collect = True\<rparr>"

definition sample_gc_app :: app_row where
  "sample_gc_app = (default_app ''a1'' ''p1'' ''web'' 0)\<lparr>a_container_id := Some ''ploydok-app-web-a1-blue''\<rparr>"

definition sample_build :: "ident \<Rightarrow> string \<Rightarrow> string \<Rightarrow> instant \<Rightarrow> build_row" where
  "sample_build i tag cid now = (fresh_build i ''a1'' now)\<lparr>b_status := B_succeeded,
     b_image_tag := Some (''127.0.0.1:5000/app-a1:'' @ tag), b_container_id := Some cid\<rparr>"

definition sample_builds :: "build_row table" where
  "sample_builds = [sample_build ''b1'' ''t1'' ''c1'' 10, sample_build ''b2'' ''t2'' ''c2'' 20,
     sample_build ''b3'' ''t3'' ''c3'' 30]"

abbreviation three_images :: registry_client where
  "three_images \<equiv> sample_registry [(''t1'', ''d1'', 10), (''t2'', ''d2'', 20), (''t3'', ''d3'', 30)]"



text \<open>
  Without different digests the newest images are not safe: here the two newest of three tags are to be
  kept, but the oldest tag names the same image as the second, which is deleted with it.
\<close>

lemma shared_digest_loses_kept_image:
  "gc_requests (fst (snd (runRegistryGc
     (sample_registry [(''t1'', ''d2'', 10), (''t2'', ''d2'', 20), (''t3'', ''d3'', 30)])
     first_row [sample_gc_app] sample_builds 2 None False))) = [(''app-a1'', ''d2'')]"
  by code_simp

text \<open>
  After a rollback the running image is not protected: the row of the app names the
  container, the rows of the builds carry the ids Docker gave, so the lookup of the running build finds
  nothing. Here \<^verbatim>\<open>t2\<close> runs in the blue container and is deleted.
\<close>

lemma rolled_back_image_deleted:
  "(''app-a1'', ''d2'') \<in> set (gc_requests (fst (snd (runRegistryGc three_images first_row [sample_gc_app] sample_builds 1 None False))))"
  by code_simp

text \<open>The usage of an app whose id has an underscore is read from a repository that does not exist.\<close>

lemma usage_reads_other_repository: "imageRepoForApp ''a_b'' = ''app-a-b'' \<and> ''app-'' @ to_lower ''a_b'' = ''app-a_b''"
  by code_simp

text \<open>The daily run starts within a day, on the hour.\<close>

lemma next_run_on_the_hour:
  assumes "0 \<le> h" "h \<le> 23"
  shows "0 < msUntilNextUtcHour now h \<and> msUntilNextUtcHour now h \<le> ONE_DAY_MS
    \<and> (now + msUntilNextUtcHour now h) mod ONE_DAY_MS = h * 60 * 60 * 1000"
proof -
  define r where "r = now mod ONE_DAY_MS"
  have r: "0 \<le> r" "r < ONE_DAY_MS" by (simp_all add: r_def ONE_DAY_MS_def)
  have n: "now = ONE_DAY_MS * (now div ONE_DAY_MS) + r" by (simp add: r_def)
  have ms: "msUntilNextUtcHour now h = h * 60 * 60 * 1000 - r + (if h * 60 * 60 * 1000 \<le> r then ONE_DAY_MS else 0)"
    by (simp add: msUntilNextUtcHour_def Let_def r_def [symmetric])
  have "now + msUntilNextUtcHour now h =
      h * 60 * 60 * 1000 + ONE_DAY_MS * (now div ONE_DAY_MS + (if h * 60 * 60 * 1000 \<le> r then 1 else 0))"
    using n by (simp add: ms algebra_simps)
  then have "(now + msUntilNextUtcHour now h) mod ONE_DAY_MS = (h * 60 * 60 * 1000) mod ONE_DAY_MS" by simp
  moreover have "(h * 60 * 60 * 1000) mod ONE_DAY_MS = h * 60 * 60 * 1000"
    using assms by (intro mod_pos_pos_trivial) (simp_all add: ONE_DAY_MS_def)
  ultimately show ?thesis using r assms by (auto simp: ms ONE_DAY_MS_def)
qed

end
