(* ===== verification/App_Deletion.thy ===== *)
theory App_Deletion
  imports Runner_Requests Registry_Gc
begin

text \<open>
  The deletion of an app (\<^verbatim>\<open>worker/handlers/delete-app.ts\<close> and its producer
  \<^verbatim>\<open>enqueueAppDeleteJob\<close> of \<^verbatim>\<open>routes/apps.ts\<close>). The handler claims a
  queued row and then composes operations of other components: it stops the containers (theory \<^verbatim>\<open>Blue_Green\<close>), sweeps
  the images (\<^verbatim>\<open>Registry_Gc\<close>), removes directories (\<^verbatim>\<open>App_Volumes\<close>),
  removes the network of a project without other tenants (\<^verbatim>\<open>Project_Networks\<close>), deletes the
  row and finishes the job. The table of apps is in two of the composed states; the deletion is applied to both.
\<close>

section \<open>State\<close>

datatype delete_status = D_pending | D_running | D_succeeded | D_failed | D_cancelled

record delete_options =
  do_images :: "bool option"
  do_docker :: "bool option"
  do_build_artifacts :: "bool option"
  do_caddy_routes :: "bool option"

record delete_job =
  dj_id :: ident
  dj_app_id :: ident
  dj_status :: delete_status
  dj_user :: "ident option"
  dj_options :: "delete_options option"
  dj_claimed_at :: "instant option"
  dj_finished_at :: "instant option"
  dj_error_message :: "string option"

record deletion_state =
  dl_jobs :: "delete_job table"
  dl_run :: run_state
  dl_net :: net_state
  dl_volumes :: volume_state
  dl_services :: "(ident \<times> ident) list"
  dl_dirs :: "string list"
  dl_registry :: "(string \<times> string) list"


section \<open>The producer\<close>

definition deleting :: "instant \<Rightarrow> app_row \<Rightarrow> app_row" where
  "deleting now a = a\<lparr>a_status := A_deleting, a_updated_at := now\<rparr>"

definition set_run_apps :: "(app_row table \<Rightarrow> app_row table) \<Rightarrow> deletion_state \<Rightarrow> deletion_state" where
  "set_run_apps f st = st\<lparr>dl_run := (dl_run st)\<lparr>rs_apps := f (rs_apps (dl_run st))\<rparr>,
     dl_net := (dl_net st)\<lparr>nw_apps := f (nw_apps (dl_net st))\<rparr>\<rparr>"

text \<open>The flag says whether the queue took the job and gave it an id; if not, the transaction is compensated and the call throws.\<close>

definition enqueueAppDeleteJob ::
  "instant \<Rightarrow> ident \<Rightarrow> bool \<Rightarrow> ident \<Rightarrow> ident \<Rightarrow> app_status \<Rightarrow> delete_options \<Rightarrow> deletion_state \<Rightarrow> bool \<times> deletion_state" where
  "enqueueAppDeleteJob now rowId queued appId user previousStatus flags st =
     (let job = \<lparr>dj_id = rowId, dj_app_id = appId, dj_status = D_pending, dj_user = Some user, dj_options = Some flags,
                 dj_claimed_at = None, dj_finished_at = None, dj_error_message = None\<rparr>;
          st1 = set_run_apps (set_app appId (deleting now)) (st\<lparr>dl_jobs := dl_jobs st @ [job]\<rparr>)
      in if queued then (True, st1)
         else (False, set_run_apps (set_app appId (\<lambda>a. a\<lparr>a_status := previousStatus, a_updated_at := now\<rparr>))
                 (st1\<lparr>dl_jobs := filter (\<lambda>j. dj_id j \<noteq> rowId) (dl_jobs st1)\<rparr>)))"

section \<open>Steps of the handler\<close>












section \<open>The handler\<close>










section \<open>What each step leaves alone\<close>









section \<open>The network of a project\<close>
















section \<open>The cascade as a whole\<close>






section \<open>The job\<close>






section \<open>Properties\<close>




section \<open>A run\<close>









text \<open>When the queue does not take the job, the row of the job is gone again and the app has its old status.\<close>

lemma failed_enqueue_restores:
  assumes "app_by_id (rs_apps (dl_run st)) i = Some app" and "\<forall>j\<in>set (dl_jobs st). dj_id j \<noteq> row"
    and "enqueueAppDeleteJob now row False i u (a_status app) fl st = (ok, st')"
  shows "\<not> ok \<and> dl_jobs st' = dl_jobs st
    \<and> map_option a_status (app_by_id (rs_apps (dl_run st')) i) = Some (a_status app)"
proof -
  have "filter (\<lambda>j. dj_id j \<noteq> row) (dl_jobs st) = dl_jobs st" using assms(2) by simp
  moreover have "app_by_id (set_app i f (set_app i (deleting now) (rs_apps (dl_run st)))) i = Some (f (deleting now app))"
    if "\<And>a. a_id (f a) = a_id a" for f
    using assms(1) that by (subst select_first_update_where, simp, subst select_first_update_where) (simp_all add: deleting_def)
  ultimately show ?thesis using assms(3) by (auto simp: enqueueAppDeleteJob_def Let_def set_run_apps_def)
qed

end
