(* ===== verification/Audit_Log.thy ===== *)
theory Audit_Log
  imports Complex_Main Ploydok_Prelude "HOL-Library.Word"
begin

text \<open>
  The audit log: the writer (\<^verbatim>\<open>packages/db/src/queries/audit-log.ts\<close>, \<^verbatim>\<open>middleware/audit.ts\<close>), the anchors
  (\<^verbatim>\<open>worker/jobs/audit-anchor.ts\<close>), the retention (\<^verbatim>\<open>worker/handlers/audit-retention.ts\<close>), the key
  file of the signer (\<^verbatim>\<open>ploydok-agent/src/audit_signer.rs\<close>) and the offline verifier
  (\<^verbatim>\<open>ploydok-cli/src/audit_verify.rs\<close>). SHA-256, base64url and Ed25519 are parameters; what the
  properties ask of the hash is that it is injective on the strings at hand.
\<close>

section \<open>Rows\<close>

record audit_entry =
  en_id :: nat
  en_user_id :: "string option"
  en_action :: string
  en_target_type :: string
  en_target_id :: string
  en_metadata :: string
  en_created_at :: instant
  en_prev_hash :: "string option"
  en_hash :: "string option"
  en_signature :: "string option"
  en_key_id :: "string option"
  en_org_id :: "string option"

record audit_anchor =
  hd_id :: nat
  hd_head_audit_id :: nat
  hd_head_hash :: string
  hd_signature :: string
  hd_key_id :: string
  hd_signed_at :: instant

text \<open>The file of anchors: its lines, and whether it has become read-only.\<close>

record anchor_file =
  fl_lines :: "(nat \<times> string \<times> string \<times> string \<times> string) list"
  fl_read_only :: bool

record audit_db =
  ad_log :: "audit_entry table"
  ad_next :: nat
  ad_anchors :: "audit_anchor table"
  ad_next_anchor :: nat
  ad_file :: "anchor_file option"

text \<open>The hex digest of SHA-256, the base64url decoder, and the check of a signature on a payload.\<close>

record crypto =
  cr_sha :: "string \<Rightarrow> string"
  cr_decode :: "string \<Rightarrow> string option"
  cr_verify :: "string \<Rightarrow> string \<Rightarrow> bool"

section \<open>Dates as text\<close>

text \<open>
  The proleptic Gregorian date of a day counted from the epoch, and \<^verbatim>\<open>toISOString\<close>
  (\<^verbatim>\<open>to_rfc3339_opts\<close> with milliseconds on the Rust side) for the years 0 to 9999.
\<close>

definition civil_date :: "int \<Rightarrow> int \<times> int \<times> int" where
  "civil_date days =
     (let z = days + 719468; era = z div 146097; doe = z mod 146097;
          yoe = (doe - doe div 1460 + doe div 36524 - doe div 146096) div 365;
          doy = doe - (365 * yoe + yoe div 4 - yoe div 100);
          mp = (5 * doy + 2) div 153;
          d = doy - (153 * mp + 2) div 5 + 1;
          m = (if mp < 10 then mp + 3 else mp - 9);
          y = yoe + era * 400
      in (if m \<le> 2 then y + 1 else y, m, d))"

definition zero_padded :: "nat \<Rightarrow> int \<Rightarrow> string" where
  "zero_padded w n = (let s = nat_str (nat n) in replicate (w - length s) (CHR ''0'') @ s)"

definition toISOString :: "instant \<Rightarrow> string" where
  "toISOString t =
     (let (y, m, d) = civil_date (t div 86400000); r = t mod 86400000
      in zero_padded 4 y @ ''-'' @ zero_padded 2 m @ ''-'' @ zero_padded 2 d @ ''T''
         @ zero_padded 2 (r div 3600000) @ '':'' @ zero_padded 2 (r div 60000 mod 60) @ '':''
         @ zero_padded 2 (r div 1000 mod 60) @ ''.'' @ zero_padded 3 (r mod 1000) @ ''Z'')"

section \<open>The writer\<close>

abbreviation newline :: char where "newline \<equiv> CHR 0x0A"

fun join_lines :: "string list \<Rightarrow> string" where
  "join_lines [] = []"
| "join_lines [s] = s"
| "join_lines (s # ss) = s @ newline # join_lines ss"

definition or_arrow :: "string option \<Rightarrow> string" where
  "or_arrow s = (case s of None \<Rightarrow> ''->'' | Some t \<Rightarrow> t)"

definition buildCanonicalPayload :: "crypto \<Rightarrow> audit_entry \<Rightarrow> string" where
  "buildCanonicalPayload c e = join_lines
     [''v1'', nat_str (en_id e), toISOString (en_created_at e), or_arrow (en_user_id e), en_action e, en_target_type e,
      en_target_id e, cr_sha c (en_metadata e), or_arrow (en_prev_hash e), or_arrow (en_hash e)]"

definition computeHash :: "crypto \<Rightarrow> string option \<Rightarrow> string \<Rightarrow> string" where
  "computeHash c prev_hash canonical =
     (if truthy prev_hash then cr_sha c (the prev_hash @ canonical) else cr_sha c canonical)"

record audit_request =
  rq_user_id :: "string option"
  rq_action :: string
  rq_target_type :: string
  rq_target_id :: string
  rq_metadata :: string
  rq_created_at :: instant
  rq_org_id :: "string option"

definition hashed_text :: "string \<Rightarrow> string \<Rightarrow> string \<Rightarrow> string \<Rightarrow> string" where
  "hashed_text action target_type target_id metadata = action @ ''|'' @ target_type @ ''|'' @ target_id @ ''|'' @ metadata"

definition audit_tail :: "audit_db \<Rightarrow> audit_entry option" where
  "audit_tail db = first_row (order_desc (\<lambda>e. int (en_id e)) (ad_log db))"

text \<open>
  The transaction, given the hash read before it. The signer answers with a signature and the id of its key, or not at all.
\<close>

definition audit_write ::
  "crypto \<Rightarrow> (string \<Rightarrow> (string \<times> string) option) option \<Rightarrow> audit_request \<Rightarrow> string option \<Rightarrow> audit_db \<Rightarrow> audit_db" where
  "audit_write c signFn r prev_hash db =
     (let inserted = \<lparr>en_id = ad_next db, en_user_id = rq_user_id r, en_action = rq_action r, en_target_type = rq_target_type r,
            en_target_id = rq_target_id r, en_metadata = rq_metadata r, en_created_at = rq_created_at r,
            en_prev_hash = prev_hash,
            en_hash = Some (computeHash c prev_hash (hashed_text (rq_action r) (rq_target_type r) (rq_target_id r) (rq_metadata r))),
            en_signature = None, en_key_id = None,
            en_org_id = (if truthy (rq_org_id r) then rq_org_id r else None)\<rparr>;
          row = (case signFn of
                   None \<Rightarrow> inserted
                 | Some f \<Rightarrow> (case f (buildCanonicalPayload c inserted) of
                     None \<Rightarrow> inserted
                   | Some (signature, keyId) \<Rightarrow> inserted\<lparr>en_signature := Some signature, en_key_id := Some keyId\<rparr>))
      in db\<lparr>ad_log := ad_log db @ [row], ad_next := ad_next db + 1\<rparr>)"

definition insertAuditLogSigned ::
  "crypto \<Rightarrow> (string \<Rightarrow> (string \<times> string) option) option \<Rightarrow> audit_request \<Rightarrow> audit_db \<Rightarrow> audit_db" where
  "insertAuditLogSigned c signFn r db =
     audit_write c signFn r (case audit_tail db of None \<Rightarrow> None | Some e \<Rightarrow> en_hash e) db"

definition getAuditChainTail :: "nat \<Rightarrow> audit_db \<Rightarrow> audit_entry list" where
  "getAuditChainTail limit db = take limit (order_desc (\<lambda>e. int (en_id e)) (ad_log db))"

definition getLatestAnchor :: "audit_db \<Rightarrow> audit_anchor option" where
  "getLatestAnchor db = first_row (order_desc (\<lambda>a. int (hd_id a)) (ad_anchors db))"


text \<open>The middleware, after the handler has answered with a status.\<close>

definition auditMiddleware ::
  "crypto \<Rightarrow> (string \<Rightarrow> (string \<times> string) option) \<Rightarrow> string \<Rightarrow> string \<Rightarrow> int \<Rightarrow> string option \<Rightarrow> string option \<Rightarrow> string option
   \<Rightarrow> string option \<Rightarrow> instant \<Rightarrow> audit_db \<Rightarrow> audit_db" where
  "auditMiddleware c agent action targetType status user targetId orgId metadata now db =
     (if status < 200 \<or> status \<ge> 300 then db
      else if \<not> truthy targetId then db
      else insertAuditLogSigned c (Some agent)
        \<lparr>rq_user_id = user, rq_action = action, rq_target_type = targetType, rq_target_id = the targetId,
         rq_metadata = (case metadata of None \<Rightarrow> ''{}'' | Some m \<Rightarrow> m), rq_created_at = now, rq_org_id = orgId\<rparr> db)"

section \<open>Anchors\<close>





section \<open>Retention\<close>

definition DEFAULT_RETENTION_DAYS :: rat where "DEFAULT_RETENTION_DAYS = 30"

definition MAX_RETENTION_DAYS :: rat where "MAX_RETENTION_DAYS = 3650"

text \<open>The variable of the environment, when set: a number, or something that is not one.\<close>

definition retention_days :: "rat option \<Rightarrow> rat option option \<Rightarrow> rat" where
  "retention_days retentionDays env_value =
     max 1 (min MAX_RETENTION_DAYS
       (case retentionDays of
          Some d \<Rightarrow> d
        | None \<Rightarrow> (case env_value of
            Some (Some parsed) \<Rightarrow> if parsed \<ge> 1 then parsed else DEFAULT_RETENTION_DAYS
          | _ \<Rightarrow> DEFAULT_RETENTION_DAYS)))"

definition purgeOldAuditEntries :: "rat option \<Rightarrow> rat option option \<Rightarrow> instant \<Rightarrow> audit_db \<Rightarrow> nat \<times> audit_db" where
  "purgeOldAuditEntries retentionDays env_value now db =
     (let days = retention_days retentionDays env_value;
          cutoff = \<lfloor>of_int now - days * 86400000\<rfloor>
      in (length (filter (\<lambda>e. en_created_at e < cutoff) (ad_log db)),
          db\<lparr>ad_log := filter (\<lambda>e. \<not> en_created_at e < cutoff) (ad_log db)\<rparr>))"

definition msUntilNextUtc :: "instant \<Rightarrow> int \<Rightarrow> int \<Rightarrow> int" where
  "msUntilNextUtc now hour minute =
     (let today = now - now mod 86400000;
          at_time = today + hour * 3600000 + minute * 60000;
          following = (if at_time \<le> now then at_time + 86400000 else at_time)
      in following - now)"

section \<open>The verifier\<close>

definition build_canonical_payload :: "crypto \<Rightarrow> audit_entry \<Rightarrow> string" where
  "build_canonical_payload c entry =
     (let metadata_hex = cr_sha c (en_metadata entry);
          user_id_str = (case en_user_id entry of None \<Rightarrow> ''->'' | Some u \<Rightarrow> u);
          prev_hash_str = (case en_prev_hash entry of None \<Rightarrow> ''->'' | Some h \<Rightarrow> h);
          hash_str = (case en_hash entry of None \<Rightarrow> ''->'' | Some h \<Rightarrow> h);
          iso_str = toISOString (en_created_at entry)
      in join_lines [''v1'', nat_str (en_id entry), iso_str, user_id_str, en_action entry, en_target_type entry,
           en_target_id entry, metadata_hex, prev_hash_str, hash_str])"

definition compute_hash :: "crypto \<Rightarrow> string option \<Rightarrow> string \<Rightarrow> string" where
  "compute_hash c prev_hash canonical =
     (case prev_hash of Some prev \<Rightarrow> cr_sha c (prev @ canonical) | None \<Rightarrow> cr_sha c canonical)"

definition hash_problem :: "crypto \<Rightarrow> audit_entry \<Rightarrow> string list" where
  "hash_problem c entry =
     (let expected_hash = compute_hash c (en_prev_hash entry) (build_canonical_payload c entry)
      in case en_hash entry of
           None \<Rightarrow> []
         | Some stored_hash \<Rightarrow> if stored_hash \<noteq> expected_hash then [''hash chain broken''] else [])"

text \<open>What the verifier notes about one entry, in order. An unsigned entry is skipped.\<close>

definition entry_problems :: "crypto \<Rightarrow> audit_entry \<Rightarrow> string list" where
  "entry_problems c entry =
     (case en_signature entry of
        None \<Rightarrow> []
      | Some sig_str \<Rightarrow>
          (case cr_decode c sig_str of
             None \<Rightarrow> ''invalid base64url signature'' # hash_problem c entry
           | Some sig_bytes \<Rightarrow>
               if length sig_bytes \<noteq> 64 then [''invalid signature length'']
               else if cr_verify c sig_bytes (build_canonical_payload c entry) then hash_problem c entry
               else ''signature verification failed'' # hash_problem c entry))"

definition anchor_problems :: "audit_entry list \<Rightarrow> audit_anchor \<Rightarrow> string list" where
  "anchor_problems entries anchor =
     (case find (\<lambda>e. en_id e = hd_head_audit_id anchor) entries of
        Some entry \<Rightarrow> if en_hash entry \<noteq> Some (hd_head_hash anchor) then [''anchor drift''] else []
      | None \<Rightarrow> [''anchor points to missing entry''])"

definition all_problems :: "crypto \<Rightarrow> audit_entry list \<Rightarrow> audit_anchor list \<Rightarrow> (nat \<times> string) list" where
  "all_problems c entries anchors =
     concat (map (\<lambda>e. map (\<lambda>p. (en_id e, p)) (entry_problems c e)) entries)
     @ concat (map (\<lambda>a. map (\<lambda>p. (hd_head_audit_id a, p)) (anchor_problems entries a)) anchors)"

text \<open>The exit code and the first problem. The rows are read by increasing id.\<close>

definition audit_verify :: "crypto \<Rightarrow> audit_db \<Rightarrow> nat \<times> (nat \<times> string) option" where
  "audit_verify c db =
     (let entries = sort_key en_id (ad_log db); anchors = sort_key hd_id (ad_anchors db);
          problems = all_problems c entries anchors
      in if problems \<noteq> [] then (2, Some (hd problems))
         else if list_ex (\<lambda>e. en_signature e = None) entries then (1, None)
         else (0, None))"

section \<open>The key file\<close>

definition hex_digit :: "nat \<Rightarrow> char" where
  "hex_digit d = (if d < 10 then char_of (48 + d) else char_of (87 + d))"

fun hex_digits :: "nat \<Rightarrow> nat \<Rightarrow> string" where
  "hex_digits 0 n = []"
| "hex_digits (Suc k) n = hex_digits k (n div 16) @ [hex_digit (n mod 16)]"

definition rand_short_id :: "32 word \<Rightarrow> string" where
  "rand_short_id r = hex_digits 8 (unat r)"

text \<open>The bytes of the file: the secret, then the line with the id of the key.\<close>

definition generate_and_persist :: "string \<Rightarrow> 32 word \<Rightarrow> string \<times> (string \<times> string)" where
  "generate_and_persist secret r =
     (let key_id = ''kid-'' @ rand_short_id r
      in (secret @ newline # ''# kid='' @ key_id @ [newline], (secret, key_id)))"

text \<open>\<^verbatim>\<open>std::str::from_utf8\<close>: the bytes, when they are well-formed UTF-8.\<close>

definition cont_byte :: "char \<Rightarrow> bool" where
  "cont_byte b \<longleftrightarrow> 128 \<le> (of_char b :: nat) \<and> (of_char b :: nat) < 192"

fun valid_utf8 :: "string \<Rightarrow> bool" where
  "valid_utf8 [] = True"
| "valid_utf8 (a # s) =
     (let n = (of_char a :: nat) in
      if n < 128 then valid_utf8 s
      else if 194 \<le> n \<and> n < 224 then (case s of b # t \<Rightarrow> cont_byte b \<and> valid_utf8 t | _ \<Rightarrow> False)
      else if 224 \<le> n \<and> n < 240 then
        (case s of b # d # t \<Rightarrow> cont_byte b \<and> cont_byte d \<and> (n = 224 \<longrightarrow> 160 \<le> (of_char b :: nat))
             \<and> (n = 237 \<longrightarrow> (of_char b :: nat) < 160) \<and> valid_utf8 t | _ \<Rightarrow> False)
      else if 240 \<le> n \<and> n < 245 then
        (case s of b # d # e # t \<Rightarrow> cont_byte b \<and> cont_byte d \<and> cont_byte e \<and> (n = 240 \<longrightarrow> 144 \<le> (of_char b :: nat))
             \<and> (n = 244 \<longrightarrow> (of_char b :: nat) < 144) \<and> valid_utf8 t | _ \<Rightarrow> False)
      else False)"

text \<open>\<^verbatim>\<open>str::lines\<close>: a last line end opens no further line, and a carriage return before the end is dropped.\<close>

definition strip_cr :: "string \<Rightarrow> string" where
  "strip_cr s = (if s \<noteq> [] \<and> last s = CHR 0x0D then butlast s else s)"

definition rust_lines :: "string \<Rightarrow> string list" where
  "rust_lines s = (let ps = split_on newline s in map strip_cr (if last ps = [] then butlast ps else ps))"

definition rust_trim :: "string \<Rightarrow> string" where
  "rust_trim s = (let w = (\<lambda>c. (of_char c :: nat) \<in> {9, 10, 11, 12, 13, 32})
     in rev (dropWhile w (rev (dropWhile w s))))"

definition load_key :: "string \<Rightarrow> string + string \<times> string" where
  "load_key content =
     (if length content < 32 then Inl ''key file too short''
      else
        let kid_str = (if valid_utf8 (drop 32 content) then drop 32 content else []) in
        case find (\<lambda>l. starts_with ''# kid='' l) (rust_lines kid_str) of
          None \<Rightarrow> Inl ''kid trailer missing from key file''
        | Some l \<Rightarrow> Inr (take 32 content, rust_trim (drop 6 l)))"

text \<open>The signer at start: an existing file is loaded, otherwise a new one is written.\<close>

definition audit_bootstrap :: "string option \<Rightarrow> string \<Rightarrow> 32 word \<Rightarrow> string option \<times> (string + string \<times> string)" where
  "audit_bootstrap key_file secret r =
     (case key_file of
        Some content \<Rightarrow> (Some content, load_key content)
      | None \<Rightarrow> (let (content, signer) = generate_and_persist secret r in (Some content, Inr signer)))"

section \<open>The chain\<close>

abbreviation entry_text :: "audit_entry \<Rightarrow> string" where
  "entry_text e \<equiv> hashed_text (en_action e) (en_target_type e) (en_target_id e) (en_metadata e)"

text \<open>What is hashed for an entry, and the entries of a log that starts after the hash \<open>p\<close>.\<close>

definition hash_input :: "audit_entry \<Rightarrow> string" where
  "hash_input e = (if truthy (en_prev_hash e) then the (en_prev_hash e) @ entry_text e else entry_text e)"

fun hash_chained :: "crypto \<Rightarrow> string option \<Rightarrow> audit_entry list \<Rightarrow> bool" where
  "hash_chained c p [] = True"
| "hash_chained c p (e # es) \<longleftrightarrow> en_prev_hash e = p \<and> en_hash e = Some (cr_sha c (hash_input e)) \<and> hash_chained c (en_hash e) es"

definition last_hash :: "string option \<Rightarrow> audit_entry list \<Rightarrow> string option" where
  "last_hash p es = (if es = [] then p else en_hash (last es))"

lemma chained_snoc:
  "hash_chained c p (es @ [e]) \<longleftrightarrow> hash_chained c p es \<and> en_prev_hash e = last_hash p es \<and> en_hash e = Some (cr_sha c (hash_input e))"
  by (induction es arbitrary: p) (auto simp: last_hash_def)


section \<open>Honest runs\<close>






lemma computeHash_input:
  "computeHash c p (hashed_text a t i m) = cr_sha c (if truthy p then the p @ hashed_text a t i m else hashed_text a t i m)"
  by (simp add: computeHash_def)

lemma write_row:
  obtains row where "audit_write c signFn r p db = db\<lparr>ad_log := ad_log db @ [row], ad_next := ad_next db + 1\<rparr>"
    "en_id row = ad_next db" "en_action row = rq_action r" "en_prev_hash row = p" "en_hash row = Some (cr_sha c (hash_input row))"
proof -
  let ?row = "last (ad_log (audit_write c signFn r p db))"
  have "audit_write c signFn r p db = db\<lparr>ad_log := ad_log db @ [?row], ad_next := ad_next db + 1\<rparr>"
    by (simp add: audit_write_def Let_def)
  moreover have "en_id ?row = ad_next db" "en_action ?row = rq_action r" "en_prev_hash ?row = p"
    "en_hash ?row = Some (cr_sha c (hash_input ?row))"
    by (simp_all add: audit_write_def Let_def computeHash_def hash_input_def split: option.splits)
  ultimately show thesis by (rule that)
qed






section \<open>The verifier on an honest log\<close>

lemma canonical_agrees: "build_canonical_payload c e = buildCanonicalPayload c e"
  by (simp add: build_canonical_payload_def buildCanonicalPayload_def or_arrow_def Let_def)





lemma verify_two_iff: "fst (audit_verify c db) = 2 \<longleftrightarrow>
    (\<exists>e\<in>set (ad_log db). entry_problems c e \<noteq> []) \<or> (\<exists>a\<in>set (ad_anchors db). anchor_problems (sort_key en_id (ad_log db)) a \<noteq> [])"
  by (auto simp: audit_verify_def all_problems_def Let_def)

lemma verify_one_or_less: "fst (audit_verify c db) \<le> 2" "fst (audit_verify c db) = 1 \<Longrightarrow> \<exists>e\<in>set (ad_log db). en_signature e = None"
  by (auto simp: audit_verify_def Let_def list_ex_iff split: if_splits)

lemma verify_zero: "fst (audit_verify c db) = 0 \<Longrightarrow> \<forall>e\<in>set (ad_log db). en_signature e \<noteq> None"
  by (auto simp: audit_verify_def Let_def list_ex_iff split: if_splits)

section \<open>The key file\<close>

lemma ascii_valid_utf8: "\<forall>x\<in>set s. (of_char x :: nat) < 128 \<Longrightarrow> valid_utf8 s"
  by (induction s rule: valid_utf8.induct) (auto simp: Let_def)

lemma hex_digit_code:
  assumes "d < 16" shows "(of_char (hex_digit d) :: nat) \<in> {48..57} \<union> {97..102}"
  using assms by (auto simp: hex_digit_def of_char_of take_bit_nat_eq_self)

lemma hex_digits_codes: "x \<in> set (hex_digits k n) \<Longrightarrow> (of_char x :: nat) \<in> {48..57} \<union> {97..102}"
proof (induction k arbitrary: n)
  case (Suc k)
  then show ?case using hex_digit_code [of "n mod 16"] by auto
qed simp

lemma kid_roundtrip:
  assumes "length secret = 32"
  shows "load_key (fst (generate_and_persist secret r)) = Inr (snd (generate_and_persist secret r))"
proof -
  define kid where "kid = ''kid-'' @ rand_short_id r"
  have codes: "(of_char x :: nat) \<in> {48..57} \<union> {97..102}" if "x \<in> set (rand_short_id r)" for x
    using that hex_digits_codes by (auto simp: rand_short_id_def)
  have kid: "\<forall>x\<in>set kid. 33 \<le> (of_char x :: nat) \<and> (of_char x :: nat) < 128" using codes by (fastforce simp: kid_def)
  have l: "last (''# kid='' @ kid) = last kid" "last kid \<in> set kid" "hd kid \<in> set kid" "kid \<noteq> []" by (auto simp: kid_def)
  have nl: "newline \<notin> set kid" "last kid \<noteq> CHR 0x0D" using kid l by fastforce+
  have split: "split_on newline (newline # ''# kid='' @ kid @ [newline]) = [[], ''# kid='' @ kid, []]"
    using nl(1) split_on_append_sep [of newline "''# kid='' @ kid" "[]"] by simp
  have "valid_utf8 (newline # ''# kid='' @ kid @ [newline])" using kid by (intro ascii_valid_utf8) auto
  moreover have "rust_lines (newline # ''# kid='' @ kid @ [newline]) = [[], ''# kid='' @ kid]"
    unfolding rust_lines_def split using nl(2) l by (simp add: strip_cr_def)
  moreover have "rust_trim kid = kid"
  proof -
    let ?w = "\<lambda>c. (of_char c :: nat) \<in> {9, 10, 11, 12, 13, 32}"
    have "\<not> ?w (hd kid)" "\<not> ?w (hd (rev kid))" using kid l(2,3,4) by (fastforce simp: hd_rev)+
    then have "dropWhile ?w kid = kid" "dropWhile ?w (rev kid) = rev kid"
      by (simp_all only: dropWhile_eq_self_iff simp_thms)
    then show ?thesis by (simp add: rust_trim_def)
  qed
  moreover have "generate_and_persist secret r = (secret @ newline # ''# kid='' @ kid @ [newline], (secret, kid))"
    by (simp add: generate_and_persist_def Let_def kid_def)
  moreover have "find (starts_with ''# kid='') [[], ''# kid='' @ kid] = Some (''# kid='' @ kid)" by (simp add: starts_with_def)
  ultimately show ?thesis using assms by (simp add: load_key_def Let_def del: append.append_Cons)
qed

section \<open>Properties\<close>



text \<open>
  The verifier never notices a removed entry: when no anchor points at an entry, the log without it gets an exit code that is no
  worse, since the entries are checked one by one and the link to the previous entry is not.
\<close>

theorem removed_entry_unnoticed:
  assumes "keyed en_id (ad_log db)" and "x \<in> set (ad_log db)" and "\<forall>a\<in>set (ad_anchors db). hd_head_audit_id a \<noteq> en_id x"
  shows "fst (audit_verify c (db\<lparr>ad_log := filter (\<lambda>e. en_id e \<noteq> en_id x) (ad_log db)\<rparr>)) \<le> fst (audit_verify c db)"
proof -
  let ?db = "db\<lparr>ad_log := filter (\<lambda>e. en_id e \<noteq> en_id x) (ad_log db)\<rparr>"
  have "find (\<lambda>e. en_id e = k) (filter (\<lambda>e. en_id e \<noteq> en_id x) es) = find (\<lambda>e. en_id e = k) es" if "k \<noteq> en_id x" for k and es :: "audit_entry list"
    using that by (induction es) auto
  then have "anchor_problems (sort_key en_id (ad_log ?db)) a = anchor_problems (sort_key en_id (ad_log db)) a"
    if "a \<in> set (ad_anchors db)" for a
    using that assms(3) by (simp add: anchor_problems_def filter_sort [symmetric])
  then have two: "fst (audit_verify c ?db) = 2 \<Longrightarrow> fst (audit_verify c db) = 2"
    unfolding verify_two_iff by auto
  have one: "fst (audit_verify c db) \<noteq> 0" if "fst (audit_verify c ?db) = 1"
  proof
    assume "fst (audit_verify c db) = 0"
    from verify_zero [OF this] verify_one_or_less(2) [OF that] show False by auto
  qed
  have "fst (audit_verify c ?db) = 0 \<or> fst (audit_verify c ?db) = 1 \<or> fst (audit_verify c ?db) = 2"
    using verify_one_or_less(1) [of c ?db] by linarith
  then show ?thesis using two one by (elim disjE) (simp_all add: Suc_le_eq)
qed


text \<open>
  C39. A restarted agent signs with the key it had: what the first start writes to the key file is read back by every later start as the same
  secret and the same id of the key.
\<close>

theorem audit_key_survives_restart:
  assumes "length secret = 32" and "audit_bootstrap None secret r = (file, signer)"
  shows "audit_bootstrap file secret' r' = (file, signer)"
  using assms(2) kid_roundtrip [OF assms(1), of r]
  by (auto simp: audit_bootstrap_def split: prod.splits)

section \<open>Runs\<close>

text \<open>A hash that tells the strings of the runs below apart by their lengths, and one that tells all strings apart.\<close>

definition length_hash :: crypto where
  "length_hash = \<lparr>cr_sha = (\<lambda>s. [char_of (length s)]), cr_decode = Some, cr_verify = (\<lambda>_ _. True)\<rparr>"


definition empty_audit :: audit_db where
  "empty_audit = \<lparr>ad_log = [], ad_next = 1, ad_anchors = [], ad_next_anchor = 1, ad_file = None\<rparr>"

definition sample_request :: "string \<Rightarrow> audit_request" where
  "sample_request action = \<lparr>rq_user_id = None, rq_action = action, rq_target_type = ''app'', rq_target_id = ''a1'',
     rq_metadata = ''{}'', rq_created_at = 0, rq_org_id = None\<rparr>"


definition two_entries :: audit_db where
  "two_entries = insertAuditLogSigned length_hash None (sample_request ''app.delete'')
     (insertAuditLogSigned length_hash None (sample_request ''app.stop'') empty_audit)"




theorem removed_entry_unnoticed_witness:
  "fst (audit_verify length_hash (two_entries\<lparr>ad_log := filter (\<lambda>e. en_id e \<noteq> 1) (ad_log two_entries)\<rparr>))
     \<le> fst (audit_verify length_hash two_entries)"
proof -
  have k: "keyed en_id (ad_log two_entries)" "map en_id (ad_log two_entries) = [1, 2]" "ad_anchors two_entries = []"
    by code_simp+
  have m: "hd (ad_log two_entries) \<in> set (ad_log two_entries)" "en_id (hd (ad_log two_entries)) = 1" using k(2)
    by (cases "ad_log two_entries"; simp)+
  have a: "\<forall>a\<in>set (ad_anchors two_entries). hd_head_audit_id a \<noteq> en_id (hd (ad_log two_entries))" using k(3) by simp
  from removed_entry_unnoticed [OF k(1) m(1) a, of length_hash] m(2) show ?thesis by simp
qed


theorem audit_key_survives_restart_witness:
  "audit_bootstrap (fst (audit_bootstrap None (replicate 32 CHR ''s'') 7)) [] 9 = audit_bootstrap None (replicate 32 CHR ''s'') 7"
proof -
  have "length (replicate 32 CHR ''s'') = 32" by simp
  from audit_key_survives_restart [OF this, of 7 "fst (audit_bootstrap None (replicate 32 CHR ''s'') 7)"
      "snd (audit_bootstrap None (replicate 32 CHR ''s'') 7)" "[]" 9] show ?thesis by simp
qed

text \<open>Two inserts that read the tail before either writes continue the same entry: the log forks.\<close>

lemma concurrent_inserts_fork:
  assumes "Some (computeHash c p (hashed_text (rq_action r) (rq_target_type r) (rq_target_id r) (rq_metadata r))) \<noteq> p"
  shows "\<not> hash_chained c None (ad_log (audit_write c g s p (audit_write c f r p db)))"
proof -
  obtain row where w: "audit_write c f r p db = db\<lparr>ad_log := ad_log db @ [row], ad_next := ad_next db + 1\<rparr>"
    "en_hash row = Some (cr_sha c (hash_input row))" by (rule write_row)
  obtain row' where w': "audit_write c g s p (audit_write c f r p db) =
      (audit_write c f r p db)\<lparr>ad_log := ad_log (audit_write c f r p db) @ [row'], ad_next := ad_next (audit_write c f r p db) + 1\<rparr>"
    "en_prev_hash row' = p" by (rule write_row)
  have "row = last (ad_log (audit_write c f r p db))" by (simp add: w(1))
  then have "en_hash row = Some (computeHash c p (hashed_text (rq_action r) (rq_target_type r) (rq_target_id r) (rq_metadata r)))"
    by (simp add: audit_write_def Let_def split: option.splits)
  then show ?thesis using assms w w' chained_snoc [of c None "ad_log db @ [row]" row'] by (simp add: last_hash_def)
qed

text \<open>The retention deletes entries that anchors point at; the verifier then reports the log as tampered.\<close>

lemma purged_anchor_reported:
  assumes "a \<in> set (ad_anchors db)" and "\<forall>e\<in>set (ad_log db). en_id e = hd_head_audit_id a \<longrightarrow>
      en_created_at e < \<lfloor>of_int now - retention_days d v * 86400000\<rfloor>"
  shows "fst (audit_verify c (snd (purgeOldAuditEntries d v now db))) = 2"
proof -
  let ?db = "snd (purgeOldAuditEntries d v now db)"
  have "find (\<lambda>e. en_id e = hd_head_audit_id a) (sort_key en_id (ad_log ?db)) = None"
    using assms(2) by (auto simp: find_None_iff purgeOldAuditEntries_def Let_def)
  then have "anchor_problems (sort_key en_id (ad_log ?db)) a \<noteq> []" by (simp add: anchor_problems_def)
  moreover have "a \<in> set (ad_anchors ?db)" using assms(1) by (simp add: purgeOldAuditEntries_def Let_def)
  ultimately show ?thesis unfolding verify_two_iff by blast
qed

end
