(* ===== verification/Spec2Isabelle.thy ===== *)
theory Spec2Isabelle
  imports Build_Queue Webhook_Pipeline Runtime_Names Blue_Green Agent_Validator Keyed_Lock Api_Access Swarm_Runner App_Deletion Audit_Log
begin

text \<open>
  \<^bold>\<open>Ploydok\<close> is a self-hosted deployment platform. An API server
  (\<^verbatim>\<open>src/apps/api\<close>, TypeScript) receives webhooks and user requests, keeps its
  state in SQL tables (\<^verbatim>\<open>src/packages/db\<close>), and runs a worker that builds images
  and switches the containers of an app between two colours. Only a small agent
  (\<^verbatim>\<open>src/agent\<close>, Rust) talks to Docker; it checks each request of the API against
  an allowlist of its own. Caddy routes the traffic to the container of the
  live colour.

  \<^bold>\<open>How the parts meet.\<close> A push arrives at \<^verbatim>\<open>routes/github.ts\<close> or \<^verbatim>\<open>routes/gitlab.ts\<close>,
  is checked and filtered, and becomes a row of \<^verbatim>\<open>builds\<close> and a job of the queue.
  The worker claims the row, takes the lock of the app, builds, and hands the
  image to the runner, which asks the agent for the new container, probes it,
  switches the route and removes the old colour. The reaper cancels the rows a
  dead worker leaves behind. All other requests pass authentication, the second
  factor and the role gate before they reach a handler.

  \<^bold>\<open>The theories\<close>, each with the sources it models:

  \<^item> \<^verbatim>\<open>Ploydok_Prelude\<close>: identifiers, instants, SQL tables as lists of rows with the
    verbs of the queries, the string functions of JavaScript, and the locale
    \<^verbatim>\<open>step_machine\<close> for invariants of step relations. \<^verbatim>\<open>App_Rows\<close>: the columns of
    \<^verbatim>\<open>schema/apps.ts\<close> that the modelled code uses.
  \<^item> \<^verbatim>\<open>Build_Queue\<close>: \<^verbatim>\<open>queries/builds.ts\<close>, \<^verbatim>\<open>worker/queue-claim.ts\<close> and
    \<^verbatim>\<open>worker/jobs/reap-stuck-builds.ts\<close>. The locale \<^verbatim>\<open>claim_table\<close> states what a
    claim promises; it is interpreted on builds and on system jobs. Shown: a
    claim succeeds once, a finished build stays as it is, the reaper cancels
    exactly the stuck rows and settles their apps, the choice of a rollback target.
  \<^item> \<^verbatim>\<open>Push_Filters\<close> and \<^verbatim>\<open>Webhook_Pipeline\<close>: \<^verbatim>\<open>webhooks/\<close>, \<^verbatim>\<open>webhook-handlers/push.ts\<close>
    and the two receiving routes. Shown: the filter chain against its declarative
    reading, that an unsigned delivery changes nothing, that every app of a push
    gets one delivery row with its decision, the queue slot, duplicates, the limit
    on replays.
  \<^item> \<^verbatim>\<open>Keyed_Lock\<close>: \<^verbatim>\<open>worker/app-deploy-lock.ts\<close> as a machine over any number of
    callers. Shown: exclusion and order per key, that the lock refines a queue, that
    every call can finish.
  \<^item> \<^verbatim>\<open>Runtime_Names\<close>: \<^verbatim>\<open>services/runtime-containers.ts\<close>, and \<^verbatim>\<open>Blue_Green\<close>:
    \<^verbatim>\<open>worker/runner.ts\<close>. A run of the runner is a function from an environment, which
    answers each call, to a trace of calls, the app rows and a result. Shown: traffic
    moves only to a container that was probed healthy, a failed run leaves the live
    app alone, rollback, stop and restart on every outcome, the bound of the probe.
  \<^item> \<^verbatim>\<open>Agent_Validator\<close>: \<^verbatim>\<open>agent/ploydok-agent/src/validator.rs\<close>. Shown: what the
    agent accepts, and that accepted mounts stay below the volume roots.
  \<^item> \<^verbatim>\<open>Totp\<close>, \<^verbatim>\<open>Second_Factor\<close> and \<^verbatim>\<open>Sessions\<close>: \<^verbatim>\<open>auth/totp.ts\<close>, \<^verbatim>\<open>auth/second-factor.ts\<close>,
    \<^verbatim>\<open>auth/sessions.ts\<close>, \<^verbatim>\<open>auth/backup-codes.ts\<close> and the routes of \<^verbatim>\<open>routes/auth.ts\<close> that
    use them. Shown: base32 round trip at 32 bits, a time step, a refresh token and
    a backup code each work once under any interleaving of the statements.
  \<^item> \<^verbatim>\<open>Memberships\<close>: organisations, members and invitations. Shown: an organisation
    keeps an owner while handlers run one after the other, and the loop that looks
    for a slug ends.
  \<^item> \<^verbatim>\<open>Api_Access\<close>: access tokens, scopes and authentication of requests. Shown: only a
    live credential gets in, scopes stay within the role.

  \<^bold>\<open>Conventions.\<close> A table is a list of rows in insertion order; a query with an
  order sorts it stably. A handler is a function from the state to a result and
  the new state. Where statements of several requests can interleave and the
  result depends on it, each statement is a step of an \<open>inductive\<close> relation.
  A thrown error is a value. A JavaScript number that holds a count or an instant
  is an \<open>int\<close>; the bit operations of base32 act on 32-bit words. Code outside the
  repository is a parameter: HMAC, SHA-256, bcrypt, AES-GCM, the glob and regular
  expression engines, the answers of Docker and Caddy.

  \<^bold>\<open>Bounds and fuel.\<close> No operation of the model runs on fuel that can run out:
  the probe recurses on the retries that are left, the slug loop on the number of taken
  slugs, and the theorem on each says that the loop returns.

  \<^bold>\<open>Not modelled.\<close> The web interface (\<^verbatim>\<open>src/apps/web\<close>, \<^verbatim>\<open>src/packages/ui\<close>) and the
  generated protocol code, which hold no state of the platform. The parts of the agent that only
  forward to the Docker client (\<^verbatim>\<open>service.rs\<close>, \<^verbatim>\<open>monitor.rs\<close>), its key files and its
  boot. Clients of foreign services: Cloudflare, GitHub, GitLab, S3,
  mail, payment, single sign-on. The image builders, whose work is done by
  processes they start. The installer. The reason for each is with its entry of
  \<^verbatim>\<open>PROJECT.json\<close>.
\<close>

section \<open>Properties across components\<close>

text \<open>
  C10. The runner and the agent agree: the request a deploy or a rollback sends for a
  new container, with the name, network and volumes the API derives, is refused by
  the agent only for the registry of the image, a missing owner, a negative health
  check duration or a limit of the row above the ceilings of the agent. In
  particular no name, network, mount or plan of the API is ever refused.
\<close>

theorem deploy_request_accepted_iff:
  assumes "reachable net_init (honest_step nenv) nst"
    and "ensureProjectNetwork nenv (a_project_id app) nst = (Inr net, nst')"
    and "generated_id appId" and "\<forall>v\<in>set (vs_volumes vst). generated_id (vr_id v)"
    and "vc_app_volume_prefix cfg = APP_VOLUMES_ROOT"
    and "2 \<le> vc_max_cpu cfg" and "2048 * 1024 * 1024 \<le> vc_max_memory_bytes cfg"
  shows "validate_container_create cfg (agent_request_of
      (create_request_of app appId owner (resolve_config rst app appId port hc) img e rollback net
        (fst (listRuntimeAppVolumeMounts rank True appId vst)))) = None \<longleftrightarrow>
    extract_registry img \<in> set (vc_allowed_registries cfg) \<and> owner \<noteq> []
    \<and> 0 \<le> coalesce3 (ho_interval_s hc) (a_healthcheck_interval_s app) 5
    \<and> 0 \<le> coalesce3 (ho_timeout_s hc) (a_healthcheck_timeout_s app) 3
    \<and> 0 \<le> coalesce3 (ho_start_period_s hc) (a_healthcheck_start_period_s app) 30
    \<and> (\<forall>c. a_cpu_limit app = Some c \<longrightarrow> c \<le> vc_max_cpu cfg)
    \<and> (\<forall>m. a_mem_limit_bytes app = Some m \<longrightarrow> m \<le> vc_max_memory_bytes cfg)"
proof -
  let ?r = "create_request_of app appId owner (resolve_config rst app appId port hc) img e rollback net
    (fst (listRuntimeAppVolumeMounts rank True appId vst))"
  have net: "net = projectNetworkName (a_project_id app)"
    by (rule good_result [OF good_ensure networks.inv_reachable [OF assms(1)] assms(2)])
  have 1: "agent_container_name (cr_name ?r)"
    by (simp add: create_request_of_def resolve_config_def Let_def runtime_name_accepted)
  have 2: "\<forall>n\<in>set (cr_networks ?r). starts_with ''ploydok-'' n" by (simp add: create_request_of_def net)
  have 3: "\<forall>m\<in>set (cr_volumes ?r). validate_host_path (rv_host_path m) [vc_volume_prefix cfg, vc_app_volume_prefix cfg]"
    using mounts_accepted [OF assms(3), of vst rank True "vc_volume_prefix cfg"] assms(4,5)
    by (simp add: create_request_of_def)
  have f: "cr_image ?r = img" "cr_app_id ?r = appId" "cr_owner_id ?r = owner" "cr_limits ?r = resolveResourceLimits app"
    "cr_hc_interval_s ?r = coalesce3 (ho_interval_s hc) (a_healthcheck_interval_s app) 5"
    "cr_hc_timeout_s ?r = coalesce3 (ho_timeout_s hc) (a_healthcheck_timeout_s app) 3"
    "cr_hc_start_period_s ?r = coalesce3 (ho_start_period_s hc) (a_healthcheck_start_period_s app) 30"
    by (simp_all add: create_request_of_def resolve_config_def Let_def)
  have "appId \<noteq> []" using assms(3) by (simp add: generated_id_def)
  then show ?thesis unfolding request_conditions [OF 1 2 3] f plan_limits [OF assms(6,7)] by blast
qed

definition one_project :: net_state where
  "one_project = \<lparr>nw_projects = [\<lparr>pn_id = ''p1'', pn_network_name = None\<rparr>], nw_databases = [], nw_apps = [],
     nw_caddy_id = None, nw_trace = []\<rparr>"

lemma one_project_reachable: "reachable net_init (honest_step sample_agent) one_project"
proof -
  let ?st = "\<lparr>nw_projects = [], nw_databases = [], nw_apps = [], nw_caddy_id = None, nw_trace = []\<rparr>"
  have r: "reachable net_init (honest_step sample_agent) ?st" by (rule reachable.start) (simp add: net_init_def)
  have "honest_step sample_agent ?st one_project"
    using sample_agent_honest net_step.project_added [of sample_agent ?st "''p1''"]
    by (simp add: honest_step_def one_project_def)
  with r show ?thesis by (rule reachable.next_state)
qed

theorem deploy_request_accepted_iff_witness:
  "validate_container_create default_config (agent_request_of
     (create_request_of sample_app ''a1'' ''u1'' (resolve_config
         \<lparr>rs_trace = [], rs_apps = [sample_app], rs_builds = [], rs_owners = []\<rparr> sample_app ''a1'' None no_override)
       ''ghcr.io/acme/web:1'' [] False ''ploydok-proj-p1''
       (fst (listRuntimeAppVolumeMounts length True ''a1'' sample_volumes)))) = None"
proof -
  have net: "ensureProjectNetwork sample_agent (a_project_id sample_app) one_project =
      (Inr ''ploydok-proj-p1'', snd (ensureProjectNetwork sample_agent (a_project_id sample_app) one_project))" by code_simp
  have ids: "\<forall>v\<in>set (vs_volumes sample_volumes). generated_id (vr_id v)" "generated_id ''a1''"
    by code_simp+
  have cfg: "vc_app_volume_prefix default_config = APP_VOLUMES_ROOT" "2 \<le> vc_max_cpu default_config"
    "2048 * 1024 * 1024 \<le> vc_max_memory_bytes default_config"
    by (simp_all add: default_config_def APP_VOLUMES_ROOT_def)
  have reg: "extract_registry ''ghcr.io/acme/web:1'' \<in> set (vc_allowed_registries default_config)" by code_simp
  show ?thesis unfolding deploy_request_accepted_iff [OF one_project_reachable net ids(2) ids(1) cfg]
    using reg by (simp add: no_override_def coalesce3_def or_default_def sample_app_def default_app_def)
qed

text \<open>
  C17. The Swarm runner and the agent agree: the message that creates or updates the service of an app, with the
  name, the overlay network, the volumes and the limits the API derives, is refused by the agent only for the registry of the
  image, a missing owner or a limit of the row above the ceilings of the agent.
\<close>

theorem swarm_request_accepted_iff:
  assumes "reachable net_init (honest_step nenv) nst"
    and "ensureProjectSwarmNetwork nenv (a_project_id app) nst = (Inr net, nst')"
    and "generated_id appId" and "\<forall>v\<in>set (vs_volumes vst). generated_id (vr_id v)"
    and "vc_app_volume_prefix cfg = APP_VOLUMES_ROOT"
    and "2 \<le> vc_max_cpu cfg" and "2048 * 1024 * 1024 \<le> vc_max_memory_bytes cfg"
    and "names_typed st" and "app_by_id (sw_apps st) appId = Some app"
  shows "swarm_verdict cfg (apply_call app (swarm_spec_of app appId owner (service_of app) img e port net
      (fst (listRuntimeAppVolumeMounts rank True appId vst)))) = None \<longleftrightarrow>
    extract_registry img \<in> set (vc_allowed_registries cfg) \<and> owner \<noteq> []
    \<and> (\<forall>c. a_cpu_limit app = Some c \<longrightarrow> c \<le> vc_max_cpu cfg)
    \<and> (\<forall>m. a_mem_limit_bytes app = Some m \<longrightarrow> m \<le> vc_max_memory_bytes cfg)"
proof -
  let ?s = "swarm_spec_of app appId owner (service_of app) img e port net (fst (listRuntimeAppVolumeMounts rank True appId vst))"
  let ?t = "service_spec.truncate ?s"
  have net: "net = projectSwarmNetworkName (a_project_id app)"
    by (rule good_result [OF good_ensure_swarm networks.inv_reachable [OF assms(1)] assms(2)])
  have 1: "service_name_ok (as_name ?t)"
    using typed_service [OF assms(8,9)] by (simp add: swarm_spec_of_def service_spec.truncate_def)
  have 2: "\<forall>n\<in>set (as_networks ?t). starts_with ''ploydok-'' n"
    by (simp add: swarm_spec_of_def service_spec.truncate_def net)
  have 3: "\<forall>v\<in>set (as_mounts ?t). validate_host_path (vm_host_path v) [vc_volume_prefix cfg, vc_app_volume_prefix cfg]"
    using mounts_accepted [OF assms(3), of vst rank True "vc_volume_prefix cfg"] assms(4,5)
    by (simp add: swarm_spec_of_def service_spec.truncate_def)
  have f: "as_image ?t = img" "as_resource_limits ?t = Some (swarm_limits app)"
    "has_label (as_labels ?t) ''ploydok.app_id'' \<longleftrightarrow> appId \<noteq> []" "has_label (as_labels ?t) ''ploydok.owner_id'' \<longleftrightarrow> owner \<noteq> []"
    by (simp_all add: swarm_spec_of_def service_spec.truncate_def has_label_def)
  have "appId \<noteq> []" using assms(3) by (simp add: generated_id_def)
  then show ?thesis
    unfolding apply_conditions service_conditions f option.case swarm_plan_limits [OF assms(6,7)] using 1 2 3 by blast
qed

theorem swarm_request_accepted_iff_witness:
  "swarm_verdict default_config (apply_call sample_app (swarm_spec_of sample_app ''a1'' ''u1'' (service_of sample_app)
     ''ghcr.io/acme/web:1'' [] 80 ''ploydok-swarm-proj-p1'' (fst (listRuntimeAppVolumeMounts length True ''a1'' sample_volumes)))) = None"
proof -
  let ?st = "sample_swarm\<lparr>sw_apps := [sample_app]\<rparr>"
  have net: "ensureProjectSwarmNetwork sample_agent (a_project_id sample_app) one_project =
      (Inr ''ploydok-swarm-proj-p1'', snd (ensureProjectSwarmNetwork sample_agent (a_project_id sample_app) one_project))" by code_simp
  have ids: "\<forall>v\<in>set (vs_volumes sample_volumes). generated_id (vr_id v)" "generated_id ''a1''"
    by code_simp+
  have cfg: "vc_app_volume_prefix default_config = APP_VOLUMES_ROOT" "2 \<le> vc_max_cpu default_config"
    "2048 * 1024 * 1024 \<le> vc_max_memory_bytes default_config"
    by (simp_all add: default_config_def APP_VOLUMES_ROOT_def)
  have row: "names_typed ?st" "app_by_id (sw_apps ?st) ''a1'' = Some sample_app"
    by (simp_all add: names_typed_def sample_app_def default_app_def select_first_def)
  have reg: "extract_registry ''ghcr.io/acme/web:1'' \<in> set (vc_allowed_registries default_config)" by code_simp
  show ?thesis unfolding swarm_request_accepted_iff [OF one_project_reachable net ids(2) ids(1) cfg row]
    using reg by (simp add: sample_app_def default_app_def)
qed


end
